(* ===== verification/Prelude.thy ===== *)
theory Prelude
  imports Main "HOL-Library.AList" "HOL-Library.Char_ord" "HOL-Library.List_Lexorder"
    "HOL-Library.Product_Lexorder"
begin

text \<open>
  What the components share: the exceptions of the Python code as values, loops that stop at
  the first exception, Python dictionaries (insertion-ordered association lists, updated with
  \<open>AList.update\<close>), and generic facts on lists and on counting.

  Conventions. A Python \<open>str\<close> is a \<open>string\<close>, a Python \<open>int\<close> an \<open>int\<close> (\<open>//\<close> is \<open>div\<close>),
  \<open>X | None\<close> an \<open>option\<close>. An operation that may raise returns \<open>err + 'a\<close>, \<open>Inl\<close> for the
  exception; one that also changes state returns the new state beside it, so that what an
  operation wrote before it raised stays visible.
\<close>

section \<open>Exceptions\<close>

datatype err =
    OperationalError            \<comment> \<open>sqlite: the database is locked, the disk is full, ...\<close>
  | IntegrityConstraint string  \<comment> \<open>sqlite: NOT NULL failed for the named column\<close>
  | KeyError string             \<comment> \<open>a missing dictionary key\<close>
  | TypeError
  | AttributeError
  | ValueError
  | OverflowError               \<comment> \<open>sqlite3: an int outside 64 bits\<close>
  | OSError
  | RuntimeError string
  | IntegrityError string       \<comment> \<open>\<open>store/db.py\<close>\<close>
  | MigrationError string

type_synonym 'a res = "err + 'a"

abbreviation ok :: "'a res \<Rightarrow> bool" where
  "ok r \<equiv> \<not> isl r"

section \<open>Hints\<close>

named_theorems row_simps \<open>what a row operation does to the fields of a row\<close>
named_theorems db_frame \<open>tables an operation leaves alone\<close>
named_theorems inv_intros \<open>operations keep the invariant of their component\<close>

section \<open>Loops that stop at the first exception\<close>

text \<open>\<open>for x in xs: f(x)\<close> where \<open>f\<close> may raise: the state at the raise is kept.\<close>

fun for_each :: "('a \<Rightarrow> 's \<Rightarrow> unit res \<times> 's) \<Rightarrow> 'a list \<Rightarrow> 's \<Rightarrow> unit res \<times> 's" where
  "for_each f [] s = (Inr (), s)"
| "for_each f (x # xs) s =
     (case f x s of
        (Inl e, s') \<Rightarrow> (Inl e, s')
      | (Inr _, s') \<Rightarrow> for_each f xs s')"

text \<open>When every call returns, the loop is a fold of the state transformer.\<close>

lemma for_each_returns:
  assumes "\<And>x s. P s \<Longrightarrow> f x s = (Inr (), g x s)" and "\<And>x s. P s \<Longrightarrow> P (g x s)" and "P s"
  shows "for_each f xs s = (Inr (), fold g xs s) \<and> P (fold g xs s)"
  using assms(3)
proof (induction xs arbitrary: s)
  case Nil
  then show ?case by simp
next
  case (Cons x xs)
  then show ?case using assms(1,2) by simp
qed

lemma for_each_inv:
  assumes "\<And>x s. P s \<Longrightarrow> P (snd (f x s))" and "P s"
  shows "P (snd (for_each f xs s))"
  using assms(2)
proof (induction xs arbitrary: s)
  case Nil
  then show ?case by simp
next
  case (Cons x xs)
  have "P (snd (f x s))" using Cons.prems by (rule assms(1))
  with Cons.IH show ?case by (auto split: prod.split sum.split)
qed

lemma for_each_frame:
  assumes "\<And>x s. q (snd (f x s)) = q s"
  shows "q (snd (for_each f xs s)) = q s"
  using for_each_inv [of "\<lambda>t. q t = q s" f s xs] assms by simp

section \<open>Folds\<close>

lemma fold_inv: "\<lbrakk>\<And>x s. x \<in> set xs \<Longrightarrow> P s \<Longrightarrow> P (f x s); P s\<rbrakk> \<Longrightarrow> P (fold f xs s)"
  by (induction xs arbitrary: s) auto

lemma fold_frame: "(\<And>x s. q (f x s) = q s) \<Longrightarrow> q (fold f xs s) = q s"
  by (induction xs arbitrary: s) auto

lemma fold_map_cong:
  "(\<And>x. x \<in> set xs \<Longrightarrow> f (h x) = g x) \<Longrightarrow> fold f (map h xs) s = fold g xs s"
  by (induction xs arbitrary: s) auto

lemma distinct_map_sort_key [simp]: "distinct (map f (sort_key g xs)) = distinct (map f xs)"
  by (simp add: distinct_map)

section \<open>Counting and summing\<close>

definition count_of :: "('a \<Rightarrow> bool) \<Rightarrow> 'a list \<Rightarrow> int" where
  "count_of P xs = int (length (filter P xs))"

lemma count_of_simps [simp]:
  "count_of P [] = 0"
  "count_of P (x # xs) = (if P x then 1 else 0) + count_of P xs"
  "count_of P (xs @ ys) = count_of P xs + count_of P ys"
  by (simp_all add: count_of_def)

lemma count_of_nonneg [simp]: "0 \<le> count_of P xs"
  by (simp add: count_of_def)

lemma count_of_map: "count_of P (map f xs) = count_of (P \<circ> f) xs"
  by (induction xs) simp_all

lemma count_of_zero_iff: "count_of P xs = 0 \<longleftrightarrow> (\<forall>x \<in> set xs. \<not> P x)"
  by (auto simp: count_of_def filter_empty_conv)

section \<open>Python dictionaries\<close>

text \<open>\<open>d[k] = d.get(k, 0) + n\<close>.\<close>

definition dict_add :: "'k \<Rightarrow> int \<Rightarrow> ('k \<times> int) list \<Rightarrow> ('k \<times> int) list" where
  "dict_add k n d = AList.update k ((case map_of d k of None \<Rightarrow> 0 | Some m \<Rightarrow> m) + n) d"

definition dict_num :: "('k \<times> int) list \<Rightarrow> 'k \<Rightarrow> int" where
  "dict_num d k = (case map_of d k of None \<Rightarrow> 0 | Some m \<Rightarrow> m)"

lemma dict_num_add [simp]:
  "dict_num (dict_add k n d) k' = dict_num d k' + (if k' = k then n else 0)"
  by (simp add: dict_num_def dict_add_def update_conv')

lemma dict_num_Nil [simp]: "dict_num [] k = 0"
  by (simp add: dict_num_def)

lemma distinct_dict_add [simp]:
  "distinct (map fst d) \<Longrightarrow> distinct (map fst (dict_add k n d))"
  by (simp add: dict_add_def distinct_update)

lemma set_dict_add [simp]: "fst ` set (dict_add k n d) = insert k (fst ` set d)"
  by (simp add: dict_add_def dom_update)

text \<open>Adding up a dictionary of counts in any store reaches each key once.\<close>

lemma sum_list_dict_num:
  assumes "distinct (map fst d)"
  shows "(\<Sum>(k, n) \<leftarrow> d. if k = k' then n else 0) = dict_num d k'"
  using assms
proof (induction d)
  case Nil
  then show ?case by simp
next
  case (Cons p d)
  obtain k n where p: "p = (k, n)" by fastforce
  have "k \<notin> fst ` set d" and dist: "distinct (map fst d)"
    using Cons.prems p by auto
  then have "dict_num d k = 0"
    by (simp add: dict_num_def map_of_eq_None_iff option.case_eq_if)
  with Cons.IH [OF dist] show ?case
    by (auto simp: p dict_num_def)
qed

section \<open>SQL\<close>

text \<open>\<open>LIMIT ?\<close>: a negative limit is no limit in SQLite.\<close>

definition sql_limit :: "int \<Rightarrow> 'a list \<Rightarrow> 'a list" where
  "sql_limit n xs = (if n < 0 then xs else take (nat n) xs)"

lemma length_sql_limit: "0 \<le> n \<Longrightarrow> int (length (sql_limit n xs)) \<le> n"
  by (simp add: sql_limit_def)

lemma set_sql_limit: "set (sql_limit n xs) \<subseteq> set xs"
  by (auto simp: sql_limit_def dest: in_set_takeD)

text \<open>Python truthiness of \<open>str | None\<close>.\<close>

definition truthy :: "string option \<Rightarrow> bool" where
  "truthy v = (case v of None \<Rightarrow> False | Some s \<Rightarrow> s \<noteq> [])"

text \<open>\<open>a or b\<close>.\<close>

definition py_or :: "string option \<Rightarrow> string option \<Rightarrow> string option" where
  "py_or a b = (if truthy a then a else b)"

lemma truthy_simps [simp]: "truthy None = False" "truthy (Some s) = (s \<noteq> [])"
  by (simp_all add: truthy_def)

lemma truthyE: "truthy v \<Longrightarrow> (\<And>s. v = Some s \<Longrightarrow> s \<noteq> [] \<Longrightarrow> thesis) \<Longrightarrow> thesis"
  by (cases v) auto

lemma truthy_py_or [simp]: "truthy (py_or a b) \<longleftrightarrow> truthy a \<or> truthy b"
  by (simp add: py_or_def)

end
