(* ===== verification/Batching.thy ===== *)
theory Batching
  imports Prelude
begin

text \<open>
  What \<open>IngestPipeline\<close> promises as a batcher, without its rows and counters: items are collected
  in a buffer, and a full or flushed buffer is handed to a sink, which may raise. The locale
  \<open>batch_sink\<close> is the contract of the sink: a write that returns has appended the whole batch to
  the log, in order; a write that raises may have appended some of its items, and has
  removed nothing. \<open>Ingest\<close> interprets it on the writes of a commit and shows
  that the pipeline's operations are the two operations here.
\<close>

definition batch_commit ::
  "('b list \<Rightarrow> 'd \<Rightarrow> unit res \<times> 'd) \<Rightarrow> 'b list \<times> 'd \<Rightarrow> unit res \<times> 'b list \<times> 'd" where
  "batch_commit write = (\<lambda>(buf, d).
     if buf = [] then (Inr (), buf, d)
     else case write buf d of
        (Inl e, d') \<Rightarrow> (Inl e, buf, d')
      | (Inr _, d') \<Rightarrow> (Inr (), [], d'))"

definition batch_push ::
  "('b list \<Rightarrow> 'd \<Rightarrow> unit res \<times> 'd) \<Rightarrow> int \<Rightarrow> 'b \<Rightarrow> 'b list \<times> 'd \<Rightarrow> unit res \<times> 'b list \<times> 'd" where
  "batch_push write cap x = (\<lambda>(buf, d).
     if cap \<le> int (length (buf @ [x])) then batch_commit write (buf @ [x], d)
     else (Inr (), buf @ [x], d))"

lemma batch_commit_buffer:
  "batch_commit write (buf, d) = (r, buf', d') \<Longrightarrow> buf' = buf \<or> buf' = []"
  by (auto simp: batch_commit_def split: if_splits prod.splits sum.splits)

lemma batch_commit_ok_empty:
  "batch_commit write (buf, d) = (Inr u, buf', d') \<Longrightarrow> buf' = []"
  by (auto simp: batch_commit_def split: if_splits prod.splits sum.splits)

text \<open>A push that returns leaves room for at least one more item.\<close>

lemma batch_push_bound:
  assumes "batch_push write cap x (buf, d) = (Inr u, buf', d')"
  shows "int (length buf') < max 1 cap"
proof (cases "cap \<le> int (length (buf @ [x]))")
  case True
  with assms have "batch_commit write (buf @ [x], d) = (Inr u, buf', d')"
    by (simp add: batch_push_def)
  then have "buf' = []" by (rule batch_commit_ok_empty)
  then show ?thesis by simp
next
  case False
  with assms show ?thesis by (auto simp: batch_push_def)
qed

locale batch_sink =
  fixes "write" :: "'b list \<Rightarrow> 'd \<Rightarrow> unit res \<times> 'd"
    and log :: "'d \<Rightarrow> 'c list"
    and enc :: "'b \<Rightarrow> 'c"
    and healthy :: "'d \<Rightarrow> bool"
  assumes write_ok: "write xs d = (Inr u, d') \<Longrightarrow> log d' = log d @ map enc xs"
    and write_err: "write xs d = (Inl e, d') \<Longrightarrow>
      \<exists>ys. log d' = log d @ ys \<and> set ys \<subseteq> enc ` set xs"
    and write_healthy: "healthy d \<Longrightarrow> \<exists>d'. write xs d = (Inr (), d') \<and> healthy d'"
begin

text \<open>What is written or waiting.\<close>

definition held :: "'b list \<times> 'd \<Rightarrow> 'c list" where
  "held s = log (snd s) @ map enc (fst s)"

lemma commit_healthy:
  assumes "healthy d"
  shows "\<exists>d'. batch_commit write (buf, d) = (Inr (), [], d') \<and> healthy d' \<and>
    log d' = log d @ map enc buf"
proof (cases "buf = []")
  case True
  with assms show ?thesis by (simp add: batch_commit_def)
next
  case False
  obtain d' where "write buf d = (Inr (), d')" "healthy d'"
    using write_healthy [OF assms] by blast
  with False write_ok show ?thesis by (auto simp: batch_commit_def)
qed

lemma push_healthy:
  assumes "healthy d"
  shows "\<exists>buf' d'. batch_push write cap x (buf, d) = (Inr (), buf', d') \<and> healthy d' \<and>
    held (buf', d') = held (buf, d) @ [enc x]"
proof (cases "cap \<le> int (length (buf @ [x]))")
  case True
  with commit_healthy [OF assms, of "buf @ [x]"] show ?thesis
    by (auto simp: batch_push_def held_def)
next
  case False
  with assms show ?thesis by (simp add: batch_push_def held_def)
qed

text \<open>
  With a failing sink an item may be written twice, but none is lost and none is made up.
\<close>

lemma commit_keeps:
  assumes "batch_commit write (buf, d) = (r, buf', d')"
  shows "set (held (buf', d')) = set (held (buf, d))"
proof (cases "buf = []")
  case True
  with assms show ?thesis by (auto simp: batch_commit_def)
next
  case False
  show ?thesis
  proof (cases "write buf d")
    case (Pair w e)
    show ?thesis
    proof (cases w)
      case (Inl x)
      obtain ys where "log e = log d @ ys" "set ys \<subseteq> enc ` set buf"
        using write_err Pair Inl by blast
      with False assms Pair Inl show ?thesis by (auto simp: batch_commit_def held_def)
    next
      case (Inr u)
      with False assms Pair show ?thesis
        by (auto simp: batch_commit_def held_def dest: write_ok)
    qed
  qed
qed

lemma push_keeps:
  assumes "batch_push write cap x (buf, d) = (r, buf', d')"
  shows "set (held (buf', d')) = set (held (buf, d) @ [enc x])"
proof -
  have eq: "held (buf, d) @ [enc x] = held (buf @ [x], d)" by (simp add: held_def)
  show ?thesis
  proof (cases "cap \<le> int (length (buf @ [x]))")
    case True
    with assms have "batch_commit write (buf @ [x], d) = (r, buf', d')"
      by (simp add: batch_push_def)
    from commit_keeps [OF this] show ?thesis by (simp only: eq)
  next
    case False
    with assms show ?thesis by (auto simp: batch_push_def held_def)
  qed
qed

end

end
