(* ===== verification/KeyedTable.thy ===== *)
theory KeyedTable
  imports Prelude
begin

text \<open>
  A SQLite table \<open>WITHOUT ROWID\<close> is a b-tree in primary-key order: here a list of rows strictly
  sorted by its key, which is also the order in which a scan without \<open>ORDER BY\<close> returns rows (every
  secondary index of the schema lists equal values in primary-key order). \<open>tbl_upsert\<close> is
  \<open>INSERT ... ON CONFLICT(key) DO UPDATE\<close>, \<open>tbl_update\<close> is \<open>UPDATE ... WHERE key = ?\<close>.

  The locale \<open>keyed_rows\<close> is what a table needs of its row type: the conflict clause
  does not change the key. Its lemmas (sortedness, the lookup laws of upsert and update, what a
  batch does) are proved once; each table of \<open>Dao\<close> interprets it.
\<close>

section \<open>The operations\<close>

fun tbl_find :: "('r \<Rightarrow> 'k) \<Rightarrow> 'k \<Rightarrow> 'r list \<Rightarrow> 'r option" where
  "tbl_find key k [] = None"
| "tbl_find key k (x # xs) = (if key x = k then Some x else tbl_find key k xs)"

fun tbl_upsert :: "('r \<Rightarrow> 'k::linorder) \<Rightarrow> ('r \<Rightarrow> 'r \<Rightarrow> 'r) \<Rightarrow> 'r \<Rightarrow> 'r list \<Rightarrow> 'r list" where
  "tbl_upsert key upd r [] = [r]"
| "tbl_upsert key upd r (x # xs) =
     (if key r < key x then r # x # xs
      else if key r = key x then upd x r # xs
      else x # tbl_upsert key upd r xs)"

definition tbl_update :: "('r \<Rightarrow> 'k) \<Rightarrow> ('r \<Rightarrow> 'r) \<Rightarrow> 'k \<Rightarrow> 'r list \<Rightarrow> 'r list" where
  "tbl_update key f k rows = map (\<lambda>x. if key x = k then f x else x) rows"

definition tbl_wf :: "('r \<Rightarrow> 'k::linorder) \<Rightarrow> 'r list \<Rightarrow> bool" where
  "tbl_wf key rows = sorted_wrt (<) (map key rows)"

section \<open>Facts for any key\<close>

lemma tbl_wf_Nil [simp]: "tbl_wf key []"
  by (simp add: tbl_wf_def)

lemma tbl_wf_Cons [simp]:
  "tbl_wf key (x # xs) \<longleftrightarrow> (\<forall>y \<in> set xs. key x < key y) \<and> tbl_wf key xs"
  by (simp add: tbl_wf_def)

lemma tbl_wf_distinct: "tbl_wf key rows \<Longrightarrow> distinct (map key rows)"
  using strict_sorted_imp_sorted strict_sorted_iff by (auto simp: tbl_wf_def strict_sorted_iff)

lemma tbl_find_None_iff: "tbl_find key k rows = None \<longleftrightarrow> k \<notin> key ` set rows"
  by (induction rows) auto

lemma tbl_find_SomeD: "tbl_find key k rows = Some r \<Longrightarrow> r \<in> set rows \<and> key r = k"
  by (induction rows) (auto split: if_splits)

lemma tbl_find_in_set: "tbl_wf key rows \<Longrightarrow> r \<in> set rows \<Longrightarrow> tbl_find key (key r) rows = Some r"
  by (induction rows) auto

lemma tbl_find_iff:
  "tbl_wf key rows \<Longrightarrow> tbl_find key k rows = Some r \<longleftrightarrow> r \<in> set rows \<and> key r = k"
  using tbl_find_SomeD tbl_find_in_set by metis


lemma tbl_wf_filter: "tbl_wf key rows \<Longrightarrow> tbl_wf key (filter P rows)"
  by (induction rows) auto

section \<open>The interface of a row type\<close>

locale keyed_rows =
  fixes key :: "'r \<Rightarrow> 'k::linorder" and upd :: "'r \<Rightarrow> 'r \<Rightarrow> 'r"
  assumes key_upd: "key r = key x \<Longrightarrow> key (upd x r) = key x"
begin

lemma set_upsert_keys: "key ` set (tbl_upsert key upd r rows) = insert (key r) (key ` set rows)"
  by (induction rows) (auto simp: key_upd)

lemma upsert_wf: "tbl_wf key rows \<Longrightarrow> tbl_wf key (tbl_upsert key upd r rows)"
proof (induction rows)
  case Nil
  then show ?case by simp
next
  case (Cons x xs)
  have IH: "tbl_wf key (tbl_upsert key upd r xs)" using Cons by simp
  have "\<forall>y \<in> set (tbl_upsert key upd r xs). key x < key y" if "key x < key r"
  proof
    fix y assume "y \<in> set (tbl_upsert key upd r xs)"
    then have "key y \<in> insert (key r) (key ` set xs)"
      using set_upsert_keys [of r xs] by blast
    then show "key x < key y" using that Cons.prems by auto
  qed
  with Cons.prems IH show ?case
    by (auto simp: key_upd)
qed

lemma find_upsert:
  assumes "tbl_wf key rows"
  shows "tbl_find key k (tbl_upsert key upd r rows) =
    (if k = key r
     then Some (case tbl_find key k rows of None \<Rightarrow> r | Some x \<Rightarrow> upd x r)
     else tbl_find key k rows)"
  using assms
proof (induction rows)
  case Nil
  then show ?case by simp
next
  case (Cons x xs)
  have "tbl_find key (key r) xs = None" if "key r < key x"
    using that Cons.prems by (auto simp: tbl_find_None_iff)
  with Cons show ?case
    by (auto simp: key_upd)
qed

lemma upserts_wf: "tbl_wf key rows \<Longrightarrow> tbl_wf key (fold (tbl_upsert key upd) rs rows)"
  by (rule fold_inv) (simp_all add: upsert_wf)

lemma upserts_other:
  "tbl_wf key rows \<Longrightarrow> k \<notin> key ` set rs \<Longrightarrow>
     tbl_find key k (fold (tbl_upsert key upd) rs rows) = tbl_find key k rows"
  by (induction rs arbitrary: rows) (auto simp: upsert_wf find_upsert)

text \<open>With distinct keys a batch updates each row once, from what the table held before.\<close>

lemma upserts_find:
  assumes "tbl_wf key rows" and "distinct (map key rs)" and "r \<in> set rs"
  shows "tbl_find key (key r) (fold (tbl_upsert key upd) rs rows) =
    Some (case tbl_find key (key r) rows of None \<Rightarrow> r | Some x \<Rightarrow> upd x r)"
  using assms
proof (induction rs arbitrary: rows)
  case Nil
  then show ?case by simp
next
  case (Cons s rs)
  show ?case
  proof (cases "r = s")
    case True
    with Cons.prems have "key r \<notin> key ` set rs" by auto
    with True Cons.prems show ?thesis
      by (simp add: upserts_other upsert_wf find_upsert split: option.split)
  next
    case False
    with Cons.prems have "r \<in> set rs" by simp
    with Cons.prems have "key r \<noteq> key s" by (auto simp: image_iff)
    note \<open>r \<in> set rs\<close> this
    with Cons.IH [of "tbl_upsert key upd s rows"] Cons.prems show ?thesis
      by (simp add: upsert_wf find_upsert)
  qed
qed

lemma upserts_keys:
  "key ` set (fold (tbl_upsert key upd) rs rows) = key ` set rs \<union> key ` set rows"
  by (induction rs arbitrary: rows) (auto simp: set_upsert_keys)

lemma update_wf:
  assumes "\<And>x. key (f x) = key x"
  shows "tbl_wf key (tbl_update key f k rows) = tbl_wf key rows"
proof -
  have "map key (tbl_update key f k rows) = map key rows"
    by (simp add: tbl_update_def assms)
  then show ?thesis by (simp add: tbl_wf_def)
qed

lemma find_update:
  assumes "\<And>x. key (f x) = key x"
  shows "tbl_find key k' (tbl_update key f k rows) =
    (if k' = k then map_option f (tbl_find key k rows) else tbl_find key k' rows)"
  by (induction rows) (auto simp: tbl_update_def assms)

end

end
