(* ===== verification/Dao.thy ===== *)
theory Dao
  imports KeyedTable "HOL-Library.Option_ord"
begin

text \<open>
  \<open>src/ai_ha/store/dao.py\<close> over the schema of \<open>migrations/001_initial.sql\<close>: the row dataclasses, the
  database as one record of tables, and one definition per method of \<open>StoreDAO\<close>. Every write
  goes through \<open>connect\<close>, which models \<open>Database.connect\<close>: one connection, one transaction,
  committed by the method or dropped when it raises. The environment decides which connections
  fail: \<open>db_faults\<close> is the schedule of the failures to come (\<open>True\<close> for a connection on which
  sqlite raises before the commit), and an exhausted schedule means no further failure.
  Then the database invariant \<open>db_wf\<close>, which every method keeps, and the functional
  behaviour of each method, from the interpretations of \<open>keyed_rows\<close> on the tables.
\<close>

section \<open>Rows\<close>

record area_row =
  ar_area_id :: string
  ar_name :: "string option"
  ar_floor_id :: "string option"
  ar_icon :: "string option"
  ar_aliases :: string
  ar_snapshot_id :: int
  ar_first_seen_at :: int
  ar_last_seen_at :: int

record device_row =
  dr_device_id :: string
  dr_name :: "string option"
  dr_manufacturer :: "string option"
  dr_model :: "string option"
  dr_area_id :: "string option"
  dr_sw_version :: "string option"
  dr_snapshot_id :: int
  dr_first_seen_at :: int
  dr_last_seen_at :: int

record entity_row =
  er_entity_id :: string
  er_friendly_name :: "string option"
  er_domain :: string
  er_device_class :: "string option"
  er_device_id :: "string option"
  er_area_id :: "string option"
  er_disabled :: int
  er_snapshot_id :: int
  er_first_seen_at :: int
  er_last_seen_at :: int
  er_event_count_24h :: int
  er_total_event_count :: int

record event_row =
  ev_ts :: int
  ev_received_at :: int
  ev_entity_id :: string
  ev_event_type :: string
  ev_old_state :: "string option"
  ev_new_state :: "string option"
  ev_context_user_id :: "string option"
  ev_context_parent_id :: "string option"
  ev_area_id :: "string option"
  ev_device_id :: "string option"
  ev_device_class :: "string option"
  ev_snapshot_id :: int

text \<open>A row of \<open>topology_snapshots\<close>.\<close>

record snap_row =
  sn_id :: int
  sn_ts :: int
  sn_payload_hash :: string
  sn_payload :: string
  sn_diff_summary :: "string option"

section \<open>The database\<close>

text \<open>
  \<open>db_event_seq\<close> and \<open>db_snap_seq\<close> are the rows of \<open>sqlite_sequence\<close>: the largest id ever handed
  out by \<open>AUTOINCREMENT\<close>. A row of \<open>counters_per_area\<close> is \<open>((area_id, hour), count)\<close>, of
  \<open>privacy_drops\<close> \<open>(hour, count)\<close>, of \<open>kv_meta\<close> \<open>(key, (value, updated_at))\<close>.
\<close>

record db =
  db_areas :: "area_row list"
  db_devices :: "device_row list"
  db_entities :: "entity_row list"
  db_events :: "(int \<times> event_row) list"
  db_event_seq :: int
  db_counters :: "((string \<times> int) \<times> int) list"
  db_drops :: "(int \<times> int) list"
  db_meta :: "(string \<times> string \<times> int) list"
  db_snapshots :: "snap_row list"
  db_snap_seq :: int
  db_faults :: "bool list"

definition empty_db :: db where
  "empty_db = \<lparr>db_areas = [], db_devices = [], db_entities = [], db_events = [],
     db_event_seq = 0, db_counters = [], db_drops = [], db_meta = [], db_snapshots = [],
     db_snap_seq = 0, db_faults = []\<rparr>"

definition connect :: "(db \<Rightarrow> 'a res \<times> db) \<Rightarrow> db \<Rightarrow> 'a res \<times> db" where
  "connect body d =
     (let d' = d\<lparr>db_faults := tl (db_faults d)\<rparr> in
      if db_faults d \<noteq> [] \<and> hd (db_faults d) then (Inl OperationalError, d')
      else case body d' of
        (Inl e, _) \<Rightarrow> (Inl e, d')
      | (Inr a, d'') \<Rightarrow> (Inr a, d''))"

section \<open>The methods of StoreDAO\<close>

text \<open>\<open>DO UPDATE SET\<close> of the three upserts: the old row with the listed columns replaced.\<close>

definition area_update :: "area_row \<Rightarrow> area_row \<Rightarrow> area_row" where
  "area_update old new = old\<lparr>ar_name := ar_name new, ar_floor_id := ar_floor_id new,
     ar_icon := ar_icon new, ar_aliases := ar_aliases new,
     ar_snapshot_id := ar_snapshot_id new, ar_last_seen_at := ar_last_seen_at new\<rparr>"

definition device_update :: "device_row \<Rightarrow> device_row \<Rightarrow> device_row" where
  "device_update old new = old\<lparr>dr_name := dr_name new, dr_manufacturer := dr_manufacturer new,
     dr_model := dr_model new, dr_area_id := dr_area_id new,
     dr_sw_version := dr_sw_version new, dr_snapshot_id := dr_snapshot_id new,
     dr_last_seen_at := dr_last_seen_at new\<rparr>"

definition entity_update :: "entity_row \<Rightarrow> entity_row \<Rightarrow> entity_row" where
  "entity_update old new = old\<lparr>er_friendly_name := er_friendly_name new,
     er_domain := er_domain new, er_device_class := er_device_class new,
     er_device_id := er_device_id new, er_area_id := er_area_id new,
     er_disabled := er_disabled new, er_snapshot_id := er_snapshot_id new,
     er_last_seen_at := er_last_seen_at new\<rparr>"

text \<open>\<open>areas.name\<close> is \<open>NOT NULL\<close>; the batch is one transaction, so one bad row refuses it all.\<close>

definition upsert_areas :: "area_row list \<Rightarrow> db \<Rightarrow> unit res \<times> db" where
  "upsert_areas rows d =
     (if rows = [] then (Inr (), d)
      else connect (\<lambda>d.
        if list_ex (\<lambda>r. ar_name r = None) rows then (Inl (IntegrityConstraint ''areas.name''), d)
        else (Inr (), d\<lparr>db_areas := fold (tbl_upsert ar_area_id area_update) rows (db_areas d)\<rparr>)) d)"

definition list_areas :: "db \<Rightarrow> area_row list" where
  "list_areas d = sort_key ar_name (db_areas d)"

definition upsert_devices :: "device_row list \<Rightarrow> db \<Rightarrow> unit res \<times> db" where
  "upsert_devices rows d =
     (if rows = [] then (Inr (), d)
      else connect (\<lambda>d. (Inr (),
        d\<lparr>db_devices := fold (tbl_upsert dr_device_id device_update) rows (db_devices d)\<rparr>)) d)"

definition upsert_entities :: "entity_row list \<Rightarrow> db \<Rightarrow> unit res \<times> db" where
  "upsert_entities rows d =
     (if rows = [] then (Inr (), d)
      else connect (\<lambda>d. (Inr (),
        d\<lparr>db_entities := fold (tbl_upsert er_entity_id entity_update) rows (db_entities d)\<rparr>)) d)"

definition bump_entity_event_counts :: "string \<Rightarrow> int \<Rightarrow> db \<Rightarrow> unit res \<times> db" where
  "bump_entity_event_counts entity_id last_seen_at d =
     connect (\<lambda>d. (Inr (), d\<lparr>db_entities :=
       tbl_update er_entity_id
         (\<lambda>r. r\<lparr>er_event_count_24h := er_event_count_24h r + 1,
               er_total_event_count := er_total_event_count r + 1,
               er_last_seen_at := last_seen_at\<rparr>)
         entity_id (db_entities d)\<rparr>)) d"

definition list_entities ::
  "string option \<Rightarrow> bool \<Rightarrow> string option \<Rightarrow> int \<Rightarrow> db \<Rightarrow> entity_row list" where
  "list_entities area_id orphan device_class limit d =
     sql_limit limit (filter (\<lambda>r.
       (if orphan then er_area_id r = None
        else case area_id of None \<Rightarrow> True | Some a \<Rightarrow> er_area_id r = Some a) \<and>
       (case device_class of None \<Rightarrow> True | Some c \<Rightarrow> er_device_class r = Some c))
       (db_entities d))"

text \<open>\<open>AUTOINCREMENT\<close>: each inserted row takes the next id.\<close>

fun insert_event_rows :: "event_row list \<Rightarrow> int \<Rightarrow> (int \<times> event_row) list" where
  "insert_event_rows [] seq = []"
| "insert_event_rows (r # rs) seq = (seq + 1, r) # insert_event_rows rs (seq + 1)"

definition insert_events :: "event_row list \<Rightarrow> db \<Rightarrow> unit res \<times> db" where
  "insert_events rows d =
     (if rows = [] then (Inr (), d)
      else connect (\<lambda>d. (Inr (),
        d\<lparr>db_events := db_events d @ insert_event_rows rows (db_event_seq d),
          db_event_seq := db_event_seq d + int (length rows)\<rparr>)) d)"

text \<open>\<open>ORDER BY event_id DESC\<close>: the id orders the rows and bounds them by the cursor, but it is not selected.\<close>

definition list_events ::
  "string option \<Rightarrow> string option \<Rightarrow> int option \<Rightarrow> int option \<Rightarrow> int option \<Rightarrow> int \<Rightarrow> db
    \<Rightarrow> event_row list" where
  "list_events entity_id area_id since_ts until_ts cursor limit d =
     map snd (sql_limit limit (rev (filter (\<lambda>(i, r).
       (truthy entity_id \<longrightarrow> Some (ev_entity_id r) = entity_id) \<and>
       (truthy area_id \<longrightarrow> ev_area_id r = area_id) \<and>
       (case since_ts of None \<Rightarrow> True | Some t \<Rightarrow> t \<le> ev_ts r) \<and>
       (case until_ts of None \<Rightarrow> True | Some t \<Rightarrow> ev_ts r \<le> t) \<and>
       (case cursor of None \<Rightarrow> True | Some c \<Rightarrow> i < c))
       (db_events d))))"

text \<open>\<open>event_count = event_count + excluded.event_count\<close>, for both counter tables.\<close>

definition count_update :: "'k \<times> int \<Rightarrow> 'k \<times> int \<Rightarrow> 'k \<times> int" where
  "count_update old new = (fst old, snd old + snd new)"

definition increment_counter :: "string \<Rightarrow> int \<Rightarrow> int \<Rightarrow> db \<Rightarrow> unit res \<times> db" where
  "increment_counter area_id hour_bucket_utc by_n d =
     connect (\<lambda>d. (Inr (), d\<lparr>db_counters :=
       tbl_upsert fst count_update ((area_id, hour_bucket_utc), by_n) (db_counters d)\<rparr>)) d"

definition get_counters_24h :: "int \<Rightarrow> db \<Rightarrow> ((string \<times> int) \<times> int) list" where
  "get_counters_24h now_hour d = filter (\<lambda>((a, h), n). h > now_hour - 24) (db_counters d)"

definition increment_privacy_drop :: "int \<Rightarrow> int \<Rightarrow> db \<Rightarrow> unit res \<times> db" where
  "increment_privacy_drop hour_bucket_utc by_n d =
     connect (\<lambda>d. (Inr (), d\<lparr>db_drops :=
       tbl_upsert fst count_update (hour_bucket_utc, by_n) (db_drops d)\<rparr>)) d"

definition get_privacy_drops_24h :: "int \<Rightarrow> db \<Rightarrow> (int \<times> int) list" where
  "get_privacy_drops_24h now_hour d = filter (\<lambda>(h, n). h > now_hour - 24) (db_drops d)"

definition get_meta :: "string \<Rightarrow> db \<Rightarrow> string option" where
  "get_meta k d = map_option (\<lambda>(_, v, _). v) (tbl_find fst k (db_meta d))"

text \<open>\<open>INSERT OR REPLACE\<close>: the new row takes the place of the old one.\<close>

definition meta_replace :: "string \<times> string \<times> int \<Rightarrow> string \<times> string \<times> int \<Rightarrow> string \<times> string \<times> int" where
  "meta_replace old new = new"

definition set_meta :: "string \<Rightarrow> string \<Rightarrow> int \<Rightarrow> db \<Rightarrow> unit res \<times> db" where
  "set_meta k v ts_ms d =
     connect (\<lambda>d. (Inr (), d\<lparr>db_meta := tbl_upsert fst meta_replace (k, v, ts_ms) (db_meta d)\<rparr>)) d"

section \<open>Connections\<close>

lemma faults_same [simp]: "db_faults d = bs \<Longrightarrow> d\<lparr>db_faults := bs\<rparr> = d"
  by auto

lemma empty_db_faults [simp]: "empty_db\<lparr>db_faults := []\<rparr> = empty_db" "db_faults empty_db = []"
  by (simp_all add: empty_db_def)

lemma connect_write [simp]:
  "connect (\<lambda>d. (Inr (), g d)) d =
     (if db_faults d \<noteq> [] \<and> hd (db_faults d)
      then (Inl OperationalError, d\<lparr>db_faults := tl (db_faults d)\<rparr>)
      else (Inr (), g (d\<lparr>db_faults := tl (db_faults d)\<rparr>)))"
  by (simp add: connect_def Let_def)

text \<open>A connection that raises has written nothing.\<close>

lemma connect_raises:
  "connect body d = (Inl e, d') \<Longrightarrow> d' = d\<lparr>db_faults := tl (db_faults d)\<rparr>"
  by (auto simp: connect_def Let_def split: if_splits prod.splits sum.splits)

lemma connect_inv:
  assumes "\<And>d bs. P d \<Longrightarrow> P (d\<lparr>db_faults := bs\<rparr>)" and "\<And>d. P d \<Longrightarrow> P (snd (body d))" and "P d"
  shows "P (snd (connect body d))"
proof -
  have d': "P (d\<lparr>db_faults := tl (db_faults d)\<rparr>)" using assms(1,3) by blast
  have "P (snd (body (d\<lparr>db_faults := tl (db_faults d)\<rparr>)))" by (rule assms(2) [OF d'])
  with d' show ?thesis
    unfolding connect_def Let_def by (auto simp del: faults_same split: prod.split sum.split)
qed

lemma connect_no_fault:
  "db_faults d = [] \<Longrightarrow> body d = (Inr a, d') \<Longrightarrow> connect body d = (Inr a, d')"
  by (simp add: connect_def)

section \<open>The tables are keyed\<close>

interpretation areas: keyed_rows ar_area_id area_update
  by unfold_locales (simp add: area_update_def)

interpretation devices: keyed_rows dr_device_id device_update
  by unfold_locales (simp add: device_update_def)

interpretation entities: keyed_rows er_entity_id entity_update
  by unfold_locales (simp add: entity_update_def)

interpretation counters: keyed_rows fst "count_update :: (string \<times> int) \<times> int \<Rightarrow> _"
  by unfold_locales (simp add: count_update_def)

interpretation drops: keyed_rows fst "count_update :: int \<times> int \<Rightarrow> _"
  by unfold_locales (simp add: count_update_def)

interpretation meta: keyed_rows fst meta_replace
  by unfold_locales (simp add: meta_replace_def)

lemmas tables_wf [inv_intros] =
  areas.upserts_wf devices.upserts_wf entities.upserts_wf counters.upsert_wf drops.upsert_wf
  meta.upsert_wf

lemma area_update_fields [row_simps]:
  "ar_area_id (area_update old new) = ar_area_id old"
  "ar_name (area_update old new) = ar_name new"
  "ar_first_seen_at (area_update old new) = ar_first_seen_at old"
  "ar_last_seen_at (area_update old new) = ar_last_seen_at new"
  "ar_snapshot_id (area_update old new) = ar_snapshot_id new"
  by (simp_all add: area_update_def)

lemma entity_update_fields [row_simps]:
  "er_entity_id (entity_update old new) = er_entity_id old"
  "er_friendly_name (entity_update old new) = er_friendly_name new"
  "er_domain (entity_update old new) = er_domain new"
  "er_device_class (entity_update old new) = er_device_class new"
  "er_device_id (entity_update old new) = er_device_id new"
  "er_area_id (entity_update old new) = er_area_id new"
  "er_disabled (entity_update old new) = er_disabled new"
  "er_snapshot_id (entity_update old new) = er_snapshot_id new"
  "er_first_seen_at (entity_update old new) = er_first_seen_at old"
  "er_last_seen_at (entity_update old new) = er_last_seen_at new"
  "er_event_count_24h (entity_update old new) = er_event_count_24h old"
  "er_total_event_count (entity_update old new) = er_total_event_count old"
  by (simp_all add: entity_update_def)

section \<open>Event ids\<close>

lemma insert_event_rows_snd [simp]: "map snd (insert_event_rows rows seq) = rows"
  by (induction rows arbitrary: seq) auto

lemma length_insert_event_rows [simp]: "length (insert_event_rows rows seq) = length rows"
  by (induction rows arbitrary: seq) auto

lemma insert_event_rows_ids:
  "i \<in> fst ` set (insert_event_rows rows seq) \<Longrightarrow> seq < i \<and> i \<le> seq + int (length rows)"
  by (induction rows arbitrary: seq) fastforce+

lemma insert_event_rows_sorted: "sorted_wrt (<) (map fst (insert_event_rows rows seq))"
proof (induction rows arbitrary: seq)
  case Nil
  then show ?case by simp
next
  case (Cons r rs)
  have "\<forall>i \<in> fst ` set (insert_event_rows rs (seq + 1)). seq + 1 < i"
    using insert_event_rows_ids by blast
  with Cons show ?case by simp
qed

definition events_wf :: "(int \<times> event_row) list \<Rightarrow> int \<Rightarrow> bool" where
  "events_wf evs seq \<longleftrightarrow> sorted_wrt (<) (map fst evs) \<and> (\<forall>i \<in> fst ` set evs. 1 \<le> i \<and> i \<le> seq) \<and> 0 \<le> seq"

lemma events_wf_insert:
  assumes "events_wf evs seq"
  shows "events_wf (evs @ insert_event_rows rows seq) (seq + int (length rows))"
proof -
  have "\<forall>i \<in> fst ` set evs. \<forall>j \<in> fst ` set (insert_event_rows rows seq). i < j"
    using assms insert_event_rows_ids by (fastforce simp: events_wf_def)
  moreover have "1 \<le> i \<and> i \<le> seq + int (length rows)"
    if "i \<in> fst ` set (insert_event_rows rows seq)" for i
    using insert_event_rows_ids [OF that] assms by (simp add: events_wf_def)
  ultimately show ?thesis
    using assms insert_event_rows_sorted [of rows seq]
    by (fastforce simp: events_wf_def sorted_wrt_append)
qed

section \<open>The invariant of the database\<close>

definition snaps_wf :: "snap_row list \<Rightarrow> int \<Rightarrow> bool" where
  "snaps_wf snaps seq \<longleftrightarrow> sorted_wrt (<) (map sn_id snaps) \<and> distinct (map sn_payload_hash snaps) \<and>
     (\<forall>i \<in> sn_id ` set snaps. 1 \<le> i \<and> i \<le> seq) \<and> 0 \<le> seq"

definition db_wf :: "db \<Rightarrow> bool" where
  "db_wf d \<longleftrightarrow>
     tbl_wf ar_area_id (db_areas d) \<and> (\<forall>r \<in> set (db_areas d). ar_name r \<noteq> None) \<and>
     tbl_wf dr_device_id (db_devices d) \<and> tbl_wf er_entity_id (db_entities d) \<and>
     events_wf (db_events d) (db_event_seq d) \<and>
     tbl_wf fst (db_counters d) \<and> tbl_wf fst (db_drops d) \<and> tbl_wf fst (db_meta d) \<and>
     snaps_wf (db_snapshots d) (db_snap_seq d)"

lemma db_wf_empty: "db_wf empty_db"
  by (simp add: db_wf_def empty_db_def events_wf_def snaps_wf_def)

lemma db_wf_faults [simp]: "db_wf (d\<lparr>db_faults := bs\<rparr>) = db_wf d"
  by (simp add: db_wf_def)

lemma area_names_upserted:
  assumes "\<forall>r \<in> set rows. ar_name r \<noteq> None" and "\<forall>r \<in> set tbl. ar_name r \<noteq> None"
  shows "\<forall>r \<in> set (fold (tbl_upsert ar_area_id area_update) rows tbl). ar_name r \<noteq> None"
proof (rule fold_inv [where P = "\<lambda>t. \<forall>r \<in> set t. ar_name r \<noteq> None"])
  fix x and t :: "area_row list"
  assume "x \<in> set rows" and t: "\<forall>r \<in> set t. ar_name r \<noteq> None"
  then have "ar_name x \<noteq> None" using assms(1) by blast
  with t show "\<forall>r \<in> set (tbl_upsert ar_area_id area_update x t). ar_name r \<noteq> None"
    by (induction t) (auto simp: row_simps)
qed (rule assms(2))

lemma areas_upserted_wf:
  assumes "db_wf d" and "\<not> list_ex (\<lambda>r. ar_name r = None) rows"
  shows "db_wf (d\<lparr>db_areas := fold (tbl_upsert ar_area_id area_update) rows (db_areas d)\<rparr>)"
  using assms area_names_upserted [of rows "db_areas d"]
  by (simp add: db_wf_def list_ex_iff tables_wf)

lemma upsert_areas_wf [inv_intros]: "db_wf d \<Longrightarrow> db_wf (snd (upsert_areas rows d))"
  unfolding upsert_areas_def
  by (auto intro!: connect_inv [where P = db_wf] areas_upserted_wf)

lemma upsert_devices_wf [inv_intros]: "db_wf d \<Longrightarrow> db_wf (snd (upsert_devices rows d))"
  by (simp add: upsert_devices_def db_wf_def tables_wf)

lemma upsert_entities_wf [inv_intros]: "db_wf d \<Longrightarrow> db_wf (snd (upsert_entities rows d))"
  by (simp add: upsert_entities_def db_wf_def tables_wf)

lemma bump_wf [inv_intros]: "db_wf d \<Longrightarrow> db_wf (snd (bump_entity_event_counts eid ts d))"
  by (simp add: bump_entity_event_counts_def db_wf_def entities.update_wf)

lemma insert_events_wf [inv_intros]: "db_wf d \<Longrightarrow> db_wf (snd (insert_events rows d))"
  by (simp add: insert_events_def db_wf_def events_wf_insert)

lemma increment_counter_wf [inv_intros]: "db_wf d \<Longrightarrow> db_wf (snd (increment_counter a h n d))"
  by (simp add: increment_counter_def db_wf_def tables_wf)

lemma increment_privacy_drop_wf [inv_intros]:
  "db_wf d \<Longrightarrow> db_wf (snd (increment_privacy_drop h n d))"
  by (simp add: increment_privacy_drop_def db_wf_def tables_wf)

lemma set_meta_wf [inv_intros]: "db_wf d \<Longrightarrow> db_wf (snd (set_meta k v ts d))"
  by (simp add: set_meta_def db_wf_def tables_wf)

section \<open>What the writes do when the connection holds\<close>

lemma upsert_areas_ok:
  "db_faults d = [] \<Longrightarrow> \<not> list_ex (\<lambda>r. ar_name r = None) rows \<Longrightarrow> upsert_areas rows d =
     (Inr (), d\<lparr>db_areas := fold (tbl_upsert ar_area_id area_update) rows (db_areas d)\<rparr>)"
  by (simp add: upsert_areas_def)

lemma upsert_devices_ok:
  "db_faults d = [] \<Longrightarrow> upsert_devices rows d =
     (Inr (), d\<lparr>db_devices := fold (tbl_upsert dr_device_id device_update) rows (db_devices d)\<rparr>)"
  by (simp add: upsert_devices_def)

lemma upsert_entities_ok:
  "db_faults d = [] \<Longrightarrow> upsert_entities rows d =
     (Inr (), d\<lparr>db_entities := fold (tbl_upsert er_entity_id entity_update) rows (db_entities d)\<rparr>)"
  by (simp add: upsert_entities_def)

lemma insert_events_ok:
  "db_faults d = [] \<Longrightarrow> insert_events rows d =
     (Inr (), d\<lparr>db_events := db_events d @ insert_event_rows rows (db_event_seq d),
                db_event_seq := db_event_seq d + int (length rows)\<rparr>)"
  by (simp add: insert_events_def)

lemmas dao_ok = upsert_areas_ok upsert_devices_ok upsert_entities_ok insert_events_ok

text \<open>Tables the three writes of a commit leave alone, whether they raise or not.\<close>

lemma insert_events_frame [db_frame]:
  "db_areas (snd (insert_events rows d)) = db_areas d"
  "db_entities (snd (insert_events rows d)) = db_entities d"
  "db_counters (snd (insert_events rows d)) = db_counters d"
  "db_drops (snd (insert_events rows d)) = db_drops d"
  "db_snapshots (snd (insert_events rows d)) = db_snapshots d"
  by (simp_all add: insert_events_def)

lemma increment_counter_frame [db_frame]:
  "db_areas (snd (increment_counter a h n d)) = db_areas d"
  "db_entities (snd (increment_counter a h n d)) = db_entities d"
  "db_events (snd (increment_counter a h n d)) = db_events d"
  "db_event_seq (snd (increment_counter a h n d)) = db_event_seq d"
  "db_drops (snd (increment_counter a h n d)) = db_drops d"
  "db_snapshots (snd (increment_counter a h n d)) = db_snapshots d"
  by (simp_all add: increment_counter_def)

lemma bump_frame [db_frame]:
  "db_areas (snd (bump_entity_event_counts e t d)) = db_areas d"
  "db_events (snd (bump_entity_event_counts e t d)) = db_events d"
  "db_event_seq (snd (bump_entity_event_counts e t d)) = db_event_seq d"
  "db_counters (snd (bump_entity_event_counts e t d)) = db_counters d"
  "db_drops (snd (bump_entity_event_counts e t d)) = db_drops d"
  "db_snapshots (snd (bump_entity_event_counts e t d)) = db_snapshots d"
  by (simp_all add: bump_entity_event_counts_def)

lemma drop_frame [db_frame]:
  "db_areas (snd (increment_privacy_drop h n d)) = db_areas d"
  "db_entities (snd (increment_privacy_drop h n d)) = db_entities d"
  "db_events (snd (increment_privacy_drop h n d)) = db_events d"
  "db_event_seq (snd (increment_privacy_drop h n d)) = db_event_seq d"
  "db_counters (snd (increment_privacy_drop h n d)) = db_counters d"
  "db_snapshots (snd (increment_privacy_drop h n d)) = db_snapshots d"
  by (simp_all add: increment_privacy_drop_def)

lemma upserts_frame [db_frame]:
  "db_events (snd (upsert_areas as d)) = db_events d"
  "db_counters (snd (upsert_areas as d)) = db_counters d"
  "db_drops (snd (upsert_areas as d)) = db_drops d"
  "db_snapshots (snd (upsert_areas as d)) = db_snapshots d"
  "db_entities (snd (upsert_areas as d)) = db_entities d"
  "db_events (snd (upsert_devices ds d)) = db_events d"
  "db_counters (snd (upsert_devices ds d)) = db_counters d"
  "db_drops (snd (upsert_devices ds d)) = db_drops d"
  "db_snapshots (snd (upsert_devices ds d)) = db_snapshots d"
  "db_entities (snd (upsert_devices ds d)) = db_entities d"
  "db_areas (snd (upsert_devices ds d)) = db_areas d"
  "db_events (snd (upsert_entities es d)) = db_events d"
  "db_counters (snd (upsert_entities es d)) = db_counters d"
  "db_drops (snd (upsert_entities es d)) = db_drops d"
  "db_snapshots (snd (upsert_entities es d)) = db_snapshots d"
  "db_areas (snd (upsert_entities es d)) = db_areas d"
  "db_devices (snd (upsert_entities es d)) = db_devices d"
  by (simp_all add: upsert_areas_def upsert_devices_def upsert_entities_def connect_def Let_def)

lemma no_faults_kept [db_frame]:
  "db_faults d = [] \<Longrightarrow> db_faults (snd (upsert_areas as d)) = []"
  "db_faults d = [] \<Longrightarrow> db_faults (snd (upsert_devices ds d)) = []"
  "db_faults d = [] \<Longrightarrow> db_faults (snd (upsert_entities es d)) = []"
  "db_faults d = [] \<Longrightarrow> db_faults (snd (insert_events rows d)) = []"
  "db_faults d = [] \<Longrightarrow> db_faults (snd (increment_counter a h n d)) = []"
  "db_faults d = [] \<Longrightarrow> db_faults (snd (bump_entity_event_counts e t d)) = []"
  "db_faults d = [] \<Longrightarrow> db_faults (snd (increment_privacy_drop h n d)) = []"
  by (simp_all add: upsert_areas_def upsert_devices_def upsert_entities_def insert_events_def
      increment_counter_def bump_entity_event_counts_def increment_privacy_drop_def connect_def)

section \<open>Counters\<close>

definition counter_of :: "db \<Rightarrow> string \<times> int \<Rightarrow> int" where
  "counter_of d k = (case tbl_find fst k (db_counters d) of None \<Rightarrow> 0 | Some r \<Rightarrow> snd r)"

definition drop_total :: "db \<Rightarrow> int" where
  "drop_total d = (\<Sum>r \<leftarrow> db_drops d. snd r)"

lemma counter_of_increment:
  assumes "db_wf d" and "db_faults d = []"
  shows "counter_of (snd (increment_counter a h n d)) k =
    counter_of d k + (if k = (a, h) then n else 0)"
proof -
  have "tbl_wf fst (db_counters d)" using assms(1) by (simp add: db_wf_def)
  then show ?thesis
    by (simp add: counter_of_def increment_counter_def assms(2) counters.find_upsert count_update_def
        split: option.split)
qed

lemma sum_upsert_count:
  "(\<Sum>r \<leftarrow> tbl_upsert fst count_update (k, n) t. snd r) = (\<Sum>r \<leftarrow> t. snd r) + n"
  for t :: "(int \<times> int) list"
  by (induction t) (auto simp: count_update_def)

lemma drop_total_increment:
  "db_faults d = [] \<Longrightarrow> drop_total (snd (increment_privacy_drop h n d)) = drop_total d + n"
  by (simp add: drop_total_def increment_privacy_drop_def sum_upsert_count)

end
