(* ===== verification/Json.thy ===== *)
theory Json
  imports Prelude
begin

text \<open>
  The values of Python's \<open>json\<close> module as far as the program uses them: \<open>json.dumps\<close> with
  \<open>sort_keys=True, separators=(",", ":")\<close> (\<open>dumps\<close>), \<open>json.loads\<close> (\<open>loads\<close>), and \<open>str()\<close> of a value
  (\<open>py_str\<close>). A \<open>char\<close> is a code point up to 255. A float is kept as its \<open>repr\<close>, which is
  what both directions of the module exchange. The theorem of this theory is the round
  trip: \<open>loads\<close> of \<open>dumps\<close> gives back the value up to the order of keys, so that two
  values have the same canonical text exactly when they are equal as Python values.
\<close>

section \<open>Values\<close>

datatype json =
    JNull
  | JBool bool
  | JInt int
  | JFloat string
  | JStr string
  | JArr "json list"
  | JObj "(string \<times> json) list"

section \<open>Decimal integers\<close>

definition digit :: "nat \<Rightarrow> char" where
  "digit n = char_of (48 + n)"

definition digit_val :: "char \<Rightarrow> nat" where
  "digit_val c = of_char c - 48"

definition is_digit :: "char \<Rightarrow> bool" where
  "is_digit c \<longleftrightarrow> 48 \<le> (of_char c :: nat) \<and> of_char c \<le> (57 :: nat)"

fun nat_str :: "nat \<Rightarrow> string" where
  "nat_str n = (if n < 10 then [digit n] else nat_str (n div 10) @ [digit (n mod 10)])"

declare nat_str.simps [simp del]

definition int_str :: "int \<Rightarrow> string" where
  "int_str i = (if i < 0 then CHR ''-'' # nat_str (nat (- i)) else nat_str (nat i))"

definition nat_of_str :: "string \<Rightarrow> nat" where
  "nat_of_str s = foldl (\<lambda>a c. 10 * a + digit_val c) 0 s"

lemma digit_facts [simp]:
  assumes "n < 10"
  shows "is_digit (digit n)" "digit_val (digit n) = n"
proof -
  have "of_char (char_of (48 + n) :: char) = 48 + n" using assms by simp
  then show "is_digit (digit n)" "digit_val (digit n) = n"
    using assms by (simp_all add: is_digit_def digit_val_def digit_def)
qed

lemma nat_str_digits: "\<forall>c \<in> set (nat_str n). is_digit c"
proof (induction n rule: nat_str.induct)
  case (1 n)
  then show ?case by (subst nat_str.simps) auto
qed

lemma nat_str_nonempty: "nat_str n \<noteq> []"
  by (subst nat_str.simps) simp

lemma nat_of_nat_str [simp]: "nat_of_str (nat_str n) = n"
proof (induction n rule: nat_str.induct)
  case (1 n)
  then show ?case by (subst nat_str.simps) (simp add: nat_of_str_def)
qed

section \<open>Strings\<close>

definition hex :: "nat \<Rightarrow> char" where
  "hex n = (if n < 10 then char_of (48 + n) else char_of (87 + n))"

definition hex_val :: "char \<Rightarrow> nat option" where
  "hex_val c = (let n = of_char c :: nat in
     if 48 \<le> n \<and> n \<le> 57 then Some (n - 48)
     else if 97 \<le> n \<and> n \<le> 102 then Some (n - 87)
     else if 65 \<le> n \<and> n \<le> 70 then Some (n - 55)
     else None)"

text \<open>The escapes of \<open>json.encoder\<close> with \<open>ensure_ascii\<close>.\<close>

definition esc_char :: "char \<Rightarrow> string" where
  "esc_char c =
     (if c = CHR 0x22 then [CHR 0x5C, CHR 0x22]
      else if c = CHR 0x5C then [CHR 0x5C, CHR 0x5C]
      else if c = CHR 0x0A then [CHR 0x5C, CHR ''n'']
      else if c = CHR 0x0D then [CHR 0x5C, CHR ''r'']
      else if c = CHR 0x09 then [CHR 0x5C, CHR ''t'']
      else if c = CHR 0x0C then [CHR 0x5C, CHR ''f'']
      else if c = CHR 0x08 then [CHR 0x5C, CHR ''b'']
      else if 32 \<le> (of_char c :: nat) \<and> of_char c \<le> (126 :: nat) then [c]
      else [CHR 0x5C, CHR ''u'', CHR ''0'', CHR ''0'',
            hex (of_char c div 16), hex (of_char c mod 16)])"

definition dumps_str :: "string \<Rightarrow> string" where
  "dumps_str s = CHR 0x22 # List.concat (map esc_char s) @ [CHR 0x22]"

section \<open>dumps\<close>

fun join :: "string \<Rightarrow> string list \<Rightarrow> string" where
  "join sep [] = []"
| "join sep [s] = s"
| "join sep (s # t # ts) = s @ sep @ join sep (t # ts)"

fun dumps :: "json \<Rightarrow> string" where
  "dumps JNull = ''null''"
| "dumps (JBool b) = (if b then ''true'' else ''false'')"
| "dumps (JInt i) = int_str i"
| "dumps (JFloat t) = t"
| "dumps (JStr s) = dumps_str s"
| "dumps (JArr xs) = ''['' @ join '','' (map dumps xs) @ '']''"
| "dumps (JObj kvs) = ''{'' @
     join '','' (map (\<lambda>(k, t). dumps_str k @ '':'' @ t)
       (sort_key fst (map (\<lambda>(k, v). (k, dumps v)) kvs))) @ ''}''"

text \<open>The value with the keys of every object in order: what \<open>loads\<close> gives back.\<close>

fun canon :: "json \<Rightarrow> json" where
  "canon (JArr xs) = JArr (map canon xs)"
| "canon (JObj kvs) = JObj (sort_key fst (map (\<lambda>(k, v). (k, canon v)) kvs))"
| "canon j = j"

section \<open>str()\<close>

definition hex_esc :: "char \<Rightarrow> string" where
  "hex_esc c = [CHR 0x5C, CHR ''x'', hex (of_char c div 16), hex (of_char c mod 16)]"

definition py_repr_str :: "string \<Rightarrow> string" where
  "py_repr_str s =
     (let q = (if CHR 0x27 \<in> set s \<and> CHR 0x22 \<notin> set s then CHR 0x22 else CHR 0x27)
      in q # List.concat (map (\<lambda>c.
           if c = q \<or> c = CHR 0x5C then [CHR 0x5C, c]
           else if c = CHR 0x0A then [CHR 0x5C, CHR ''n'']
           else if c = CHR 0x0D then [CHR 0x5C, CHR ''r'']
           else if c = CHR 0x09 then [CHR 0x5C, CHR ''t'']
           else if (of_char c :: nat) < 32 \<or> (127 \<le> (of_char c :: nat) \<and> of_char c \<le> (160 :: nat))
             \<or> of_char c = (173 :: nat) then hex_esc c
           else [c]) s) @ [q])"

fun py_repr :: "json \<Rightarrow> string" where
  "py_repr JNull = ''None''"
| "py_repr (JBool b) = (if b then ''True'' else ''False'')"
| "py_repr (JInt i) = int_str i"
| "py_repr (JFloat t) = t"
| "py_repr (JStr s) = py_repr_str s"
| "py_repr (JArr xs) = ''['' @ join '', '' (map py_repr xs) @ '']''"
| "py_repr (JObj kvs) = ''{'' @
     join '', '' (map (\<lambda>(k, t). py_repr_str k @ '': '' @ t) (map (\<lambda>(k, v). (k, py_repr v)) kvs)) @ ''}''"

definition py_str :: "json \<Rightarrow> string" where
  "py_str j = (case j of JStr s \<Rightarrow> s | _ \<Rightarrow> py_repr j)"

section \<open>loads\<close>

definition is_ws :: "char \<Rightarrow> bool" where
  "is_ws c \<longleftrightarrow> c = CHR '' '' \<or> c = CHR 0x09 \<or> c = CHR 0x0A \<or> c = CHR 0x0D"

definition skip_ws :: "string \<Rightarrow> string" where
  "skip_ws s = dropWhile is_ws s"

text \<open>\<open>py_scanstring\<close>, from after the opening quote; an escape above code point 255 is outside
  the model's characters and refused.\<close>

definition hex4 :: "char \<Rightarrow> char \<Rightarrow> char \<Rightarrow> char \<Rightarrow> char option" where
  "hex4 a b c d =
     (case (hex_val a, hex_val b, hex_val c, hex_val d) of
        (Some 0, Some 0, Some x, Some y) \<Rightarrow> Some (char_of (16 * x + y))
      | _ \<Rightarrow> None)"

definition unescape :: "char \<Rightarrow> char option" where
  "unescape e =
     (if e = CHR 0x22 \<or> e = CHR 0x5C \<or> e = CHR ''/'' then Some e
      else if e = CHR ''n'' then Some (CHR 0x0A)
      else if e = CHR ''r'' then Some (CHR 0x0D)
      else if e = CHR ''t'' then Some (CHR 0x09)
      else if e = CHR ''f'' then Some (CHR 0x0C)
      else if e = CHR ''b'' then Some (CHR 0x08)
      else None)"

definition cons_fst :: "'a \<Rightarrow> ('a list \<times> 'b) option \<Rightarrow> ('a list \<times> 'b) option" where
  "cons_fst x r = map_option (\<lambda>(xs, b). (x # xs, b)) r"

fun scan_str :: "string \<Rightarrow> (string \<times> string) option" where
  "scan_str [] = None"
| "scan_str (c # s) =
     (if c = CHR 0x22 then Some ([], s)
      else if c = CHR 0x5C then
        (case s of
           [] \<Rightarrow> None
         | e # s' \<Rightarrow>
             if e = CHR ''u'' then
               (case s' of
                  h1 # h2 # h3 # h4 # r \<Rightarrow>
                    (case hex4 h1 h2 h3 h4 of None \<Rightarrow> None | Some x \<Rightarrow> cons_fst x (scan_str r))
                | _ \<Rightarrow> None)
             else (case unescape e of None \<Rightarrow> None | Some x \<Rightarrow> cons_fst x (scan_str s')))
      else if (of_char c :: nat) < 32 then None
      else cons_fst c (scan_str s))"

text \<open>\<open>NUMBER_RE\<close>: \<open>(-?(?:0|[1-9][0-9]*))(\.[0-9]+)?([eE][-+]?[0-9]+)?\<close>, as three scanners that
  return what they matched and the rest.\<close>

definition scan_int :: "string \<Rightarrow> string \<times> string" where
  "scan_int s =
     (case s of
        [] \<Rightarrow> ([], [])
      | c # r \<Rightarrow> if c = CHR ''0'' then ([c], r) else (takeWhile is_digit s, dropWhile is_digit s))"

definition scan_frac :: "string \<Rightarrow> string \<times> string" where
  "scan_frac s =
     (case s of
        [] \<Rightarrow> ([], s)
      | c # r \<Rightarrow>
          if c = CHR ''.'' \<and> takeWhile is_digit r \<noteq> []
          then (c # takeWhile is_digit r, dropWhile is_digit r) else ([], s))"

definition scan_exp :: "string \<Rightarrow> string \<times> string" where
  "scan_exp s =
     (case s of
        [] \<Rightarrow> ([], s)
      | c # r \<Rightarrow>
          if c = CHR ''e'' \<or> c = CHR ''E'' then
            (case r of
               [] \<Rightarrow> ([], s)
             | d # r' \<Rightarrow>
                 if d = CHR ''+'' \<or> d = CHR ''-'' then
                   (if takeWhile is_digit r' \<noteq> []
                    then (c # d # takeWhile is_digit r', dropWhile is_digit r') else ([], s))
                 else if takeWhile is_digit r \<noteq> []
                   then (c # takeWhile is_digit r, dropWhile is_digit r) else ([], s))
          else ([], s))"

definition scan_num :: "string \<Rightarrow> (json \<times> string) option" where
  "scan_num s =
     (let neg = (case s of c # _ \<Rightarrow> c = CHR ''-'' | [] \<Rightarrow> False);
          s0 = (if neg then tl s else s);
          (ip, s1) = scan_int s0;
          (fp, s2) = scan_frac s1;
          (ep, s3) = scan_exp s2
      in if ip = [] then None
         else if fp = [] \<and> ep = [] then
           Some (JInt (if neg then - int (nat_of_str ip) else int (nat_of_str ip)), s1)
         else Some (JFloat ((if neg then [CHR ''-''] else []) @ ip @ fp @ ep), s3))"

fun scan_val :: "nat \<Rightarrow> string \<Rightarrow> (json \<times> string) option"
and scan_elems :: "nat \<Rightarrow> json list \<Rightarrow> string \<Rightarrow> (json \<times> string) option"
and scan_members :: "nat \<Rightarrow> (string \<times> json) list \<Rightarrow> string \<Rightarrow> (json \<times> string) option" where
  "scan_val 0 s = None"
| "scan_val (Suc n) s =
     (case s of
        [] \<Rightarrow> None
      | c # r \<Rightarrow>
          if c = CHR 0x22 then map_option (\<lambda>(t, r'). (JStr t, r')) (scan_str r)
          else if c = CHR ''{'' then
            (case skip_ws r of
               [] \<Rightarrow> None
             | d # r' \<Rightarrow> if d = CHR ''}'' then Some (JObj [], r') else scan_members n [] (d # r'))
          else if c = CHR ''['' then
            (case skip_ws r of
               [] \<Rightarrow> None
             | d # r' \<Rightarrow> if d = CHR '']'' then Some (JArr [], r') else scan_elems n [] (d # r'))
          else if take 4 s = ''null'' then Some (JNull, drop 4 s)
          else if take 4 s = ''true'' then Some (JBool True, drop 4 s)
          else if take 5 s = ''false'' then Some (JBool False, drop 5 s)
          else scan_num s)"
| "scan_elems 0 acc s = None"
| "scan_elems (Suc n) acc s =
     (case scan_val n s of
        None \<Rightarrow> None
      | Some (v, r) \<Rightarrow>
          (case skip_ws r of
             [] \<Rightarrow> None
           | c # r' \<Rightarrow>
               if c = CHR '','' then scan_elems n (acc @ [v]) (skip_ws r')
               else if c = CHR '']'' then Some (JArr (acc @ [v]), r')
               else None))"
| "scan_members 0 acc s = None"
| "scan_members (Suc n) acc s =
     (case s of
        [] \<Rightarrow> None
      | q # r \<Rightarrow>
          if q \<noteq> CHR 0x22 then None
          else (case scan_str r of
             None \<Rightarrow> None
           | Some (k, r1) \<Rightarrow>
               (case skip_ws r1 of
                  [] \<Rightarrow> None
                | c # r2 \<Rightarrow>
                    if c \<noteq> CHR '':'' then None
                    else (case scan_val n (skip_ws r2) of
                       None \<Rightarrow> None
                     | Some (v, r3) \<Rightarrow>
                         (case skip_ws r3 of
                            [] \<Rightarrow> None
                          | d # r4 \<Rightarrow>
                              if d = CHR '','' then scan_members n (AList.update k v acc) (skip_ws r4)
                              else if d = CHR ''}'' then Some (JObj (AList.update k v acc), r4)
                              else None)))))"

text \<open>Every nested call has consumed a character for each two units of fuel, so this fuel is
  enough for any text.\<close>

definition loads :: "string \<Rightarrow> json res" where
  "loads s =
     (case scan_val (2 * length s + 2) (skip_ws s) of
        None \<Rightarrow> Inl ValueError
      | Some (j, r) \<Rightarrow> if skip_ws r = [] then Inr j else Inl ValueError)"

section \<open>Scanning what dumps wrote\<close>

text \<open>What may follow a value inside an array or an object, or at the end.\<close>

definition delim :: "string \<Rightarrow> bool" where
  "delim s \<longleftrightarrow> (case s of [] \<Rightarrow> True | c # _ \<Rightarrow> c = CHR '','' \<or> c = CHR '']'' \<or> c = CHR ''}'')"

lemma delim_simps [simp]: "delim []" "delim (CHR '','' # s)" "delim (CHR '']'' # s)" "delim (CHR ''}'' # s)"
  by (simp_all add: delim_def)

lemma delimE:
  "delim s \<Longrightarrow> (s = [] \<Longrightarrow> P) \<Longrightarrow> (\<And>t. s = CHR '','' # t \<Longrightarrow> P) \<Longrightarrow> (\<And>t. s = CHR '']'' # t \<Longrightarrow> P)
    \<Longrightarrow> (\<And>t. s = CHR ''}'' # t \<Longrightarrow> P) \<Longrightarrow> P"
  by (auto simp: delim_def split: list.splits)

subsection \<open>Strings\<close>

lemma hex_val_hex: "n < 16 \<Longrightarrow> hex_val (hex n) = Some n"
proof -
  assume n: "n < 16"
  have "of_char (char_of (48 + n) :: char) = 48 + n" "of_char (char_of (87 + n) :: char) = 87 + n"
    using n by simp_all
  then show ?thesis using n by (simp add: hex_val_def hex_def Let_def)
qed

lemma hex4_esc: "hex4 (CHR ''0'') (CHR ''0'') (hex (of_char c div 16)) (hex (of_char c mod 16)) = Some c"
proof -
  have "of_char c < (256 :: nat)" by simp
  then have "of_char c div 16 < (16 :: nat)" by (simp add: less_mult_imp_div_less)
  moreover have "hex_val (CHR ''0'') = Some 0" by (simp add: hex_val_def)
  ultimately show ?thesis by (simp add: hex4_def hex_val_hex)
qed

lemma scan_esc_char: "scan_str (esc_char c @ t) = cons_fst c (scan_str t)"
  by (simp add: esc_char_def unescape_def hex4_esc)

lemma scan_dumps_str: "scan_str (List.concat (map esc_char s) @ CHR 0x22 # r) = Some (s, r)"
  by (induction s) (simp_all add: scan_esc_char cons_fst_def)

subsection \<open>Numbers\<close>

lemma is_digit_delim [simp]:
  "\<not> is_digit (CHR '','')" "\<not> is_digit (CHR '']'')" "\<not> is_digit (CHR ''}'')" "\<not> is_digit (CHR ''.'')"
  "\<not> is_digit (CHR ''e'')" "\<not> is_digit (CHR ''E'')" "\<not> is_digit (CHR ''-'')" "\<not> is_digit (CHR 0x22)"
  "\<not> is_digit (CHR ''+'')" "\<not> is_digit (CHR ''{'')" "\<not> is_digit (CHR ''['')" "\<not> is_digit (CHR ''n'')"
  "\<not> is_digit (CHR ''t'')" "\<not> is_digit (CHR ''f'')" "\<not> is_digit (CHR '' '')" "\<not> is_digit (CHR 0x09)"
  "\<not> is_digit (CHR 0x0A)" "\<not> is_digit (CHR 0x0D)"
  by (simp_all add: is_digit_def)

lemma span_delim:
  assumes "delim r"
  shows "takeWhile is_digit (a @ r) = takeWhile is_digit a" "dropWhile is_digit (a @ r) = dropWhile is_digit a @ r"
proof -
  have "takeWhile is_digit r = []" "dropWhile is_digit r = r" using assms by (auto elim!: delimE)
  then show "takeWhile is_digit (a @ r) = takeWhile is_digit a" "dropWhile is_digit (a @ r) = dropWhile is_digit a @ r"
    by (induction a) auto
qed

lemma scan_int_delim: "delim r \<Longrightarrow> scan_int (a @ r) = (fst (scan_int a), snd (scan_int a) @ r)"
  by (cases a) (auto simp: scan_int_def span_delim elim!: delimE)

lemma scan_frac_delim: "delim r \<Longrightarrow> scan_frac (a @ r) = (fst (scan_frac a), snd (scan_frac a) @ r)"
  by (cases a) (auto simp: scan_frac_def span_delim elim!: delimE)

lemma scan_exp_delim: "delim r \<Longrightarrow> scan_exp (a @ r) = (fst (scan_exp a), snd (scan_exp a) @ r)"
proof (cases a)
  case Nil
  assume "delim r"
  with Nil show ?thesis by (auto simp: scan_exp_def elim!: delimE)
next
  case (Cons c b)
  assume r: "delim r"
  then show ?thesis
  proof (cases b)
    case Nil
    with Cons r show ?thesis by (auto simp: scan_exp_def elim!: delimE)
  next
    case C: (Cons d b')
    show ?thesis by (simp add: Cons C scan_exp_def span_delim [OF r])
  qed
qed

lemmas scan_delim = scan_int_delim scan_frac_delim scan_exp_delim

lemma scan_num_delim:
  assumes "scan_num a = Some (j, [])" "delim r"
  shows "scan_num (a @ r) = Some (j, r)"
proof -
  define neg where "neg = (case a of c # _ \<Rightarrow> c = CHR ''-'' | [] \<Rightarrow> False)"
  define s0 where "s0 = (if neg then tl a else a)"
  have ne: "a \<noteq> []" using assms(1) by (auto simp: scan_num_def scan_int_def)
  then have neg': "(case a @ r of c # _ \<Rightarrow> c = CHR ''-'' | [] \<Rightarrow> False) = neg"
    and s0': "(if neg then tl (a @ r) else a @ r) = s0 @ r"
    by (auto simp: neg_def s0_def split: list.splits)
  obtain ip s1 where 1: "scan_int s0 = (ip, s1)" by fastforce
  obtain fp s2 where 2: "scan_frac s1 = (fp, s2)" by fastforce
  obtain ep s3 where 3: "scan_exp s2 = (ep, s3)" by fastforce
  have "scan_int (s0 @ r) = (ip, s1 @ r)" "scan_frac (s1 @ r) = (fp, s2 @ r)" "scan_exp (s2 @ r) = (ep, s3 @ r)"
    using scan_delim [OF assms(2)] 1 2 3 by simp_all
  with assms(1) show ?thesis unfolding scan_num_def neg' Let_def s0' neg_def [symmetric] s0_def [symmetric] 1 prod.case 2 3
    by (auto split: if_splits)
qed

lemma nat_str_hd: "0 < n \<Longrightarrow> hd (nat_str n) \<noteq> CHR ''0''"
proof (induction n rule: nat_str.induct)
  case (1 n)
  have d: "digit n = CHR ''0'' \<longleftrightarrow> n = 0" if "n < 10"
    using digit_facts(2) [OF that] by (auto simp: digit_val_def digit_def char_of_def bit_0)
  show ?case
  proof (cases "n < 10")
    case True
    with 1 d show ?thesis by (subst nat_str.simps) simp
  next
    case False
    then have "0 < n div 10" by simp
    with False 1 show ?thesis by (subst nat_str.simps) (simp add: nat_str_nonempty)
  qed
qed

lemma nat_str_0: "nat_str 0 = ''0''"
  by (subst nat_str.simps) (simp add: digit_def char_of_def bit_0)

lemma scan_int_nat_str: "scan_int (nat_str n) = (nat_str n, [])"
proof (cases "n = 0")
  case True
  then show ?thesis by (simp add: nat_str_0 scan_int_def)
next
  case False
  then have "hd (nat_str n) \<noteq> CHR ''0''" by (simp add: nat_str_hd)
  with nat_str_nonempty [of n] nat_str_digits [of n] show ?thesis
    by (cases "nat_str n") (auto simp: scan_int_def takeWhile_eq_all_conv dropWhile_eq_Nil_conv)
qed

lemma nat_str_no_minus: "nat_str n = c # s \<Longrightarrow> c \<noteq> CHR ''-''"
  using nat_str_digits [of n] is_digit_delim(7) by auto

lemma scan_num_int_str: "scan_num (int_str i) = Some (JInt i, [])"
proof -
  have *: "scan_frac [] = ([], [])" "scan_exp [] = ([], [])"
    by (simp_all add: scan_frac_def scan_exp_def)
  show ?thesis
  proof (cases "i < 0")
    case True
    then show ?thesis
      by (simp add: int_str_def scan_num_def Let_def scan_int_nat_str * nat_str_nonempty)
  next
    case False
    have "(case nat_str (nat i) of c # _ \<Rightarrow> c = CHR ''-'' | [] \<Rightarrow> False) = False"
      using nat_str_no_minus by (auto split: list.split)
    with False show ?thesis
      by (simp add: int_str_def scan_num_def Let_def scan_int_nat_str * nat_str_nonempty)
  qed
qed

subsection \<open>Well-formed values\<close>

text \<open>Float texts are what \<open>repr\<close> writes for a finite float: a number with a fraction or exponent.\<close>

fun json_wf :: "json \<Rightarrow> bool" where
  "json_wf (JFloat t) = (scan_num t = Some (JFloat t, []))"
| "json_wf (JArr xs) = list_all json_wf xs"
| "json_wf (JObj kvs) = (distinct (map fst kvs) \<and> list_all (\<lambda>(k, v). json_wf v) kvs)"
| "json_wf j = True"

fun json_cost :: "json \<Rightarrow> nat" where
  "json_cost (JArr xs) = Suc (\<Sum>x \<leftarrow> xs. Suc (json_cost x))"
| "json_cost (JObj kvs) = Suc (\<Sum>(k, v) \<leftarrow> kvs. Suc (json_cost v))"
| "json_cost j = 1"

lemma scan_num_first:
  assumes "scan_num t = Some (JFloat u, r)" "t = c # s"
  shows "c = CHR ''-'' \<or> is_digit c"
proof (rule ccontr)
  assume "\<not> ?thesis"
  then have "c \<noteq> CHR ''-''" "\<not> is_digit c" "c \<noteq> CHR ''0''" by (auto simp: is_digit_def)
  with assms show False by (simp add: scan_num_def scan_int_def)
qed

subsection \<open>Arrays and objects\<close>

lemma sort_key_map_snd:
  "sort_key fst (map (\<lambda>(k, v). (k, f v)) kvs) = map (\<lambda>(k, v). (k, f v)) (sort_key fst kvs)"
proof -
  have ins: "insort_key fst (k, f v) (map (\<lambda>(k, v). (k, f v)) xs) = map (\<lambda>(k, v). (k, f v)) (insort_key fst (k, v) xs)" for k v xs
    by (induction xs) auto
  show ?thesis by (induction kvs) (auto simp: ins)
qed

lemma sum_list_sort_key: "(\<Sum>x \<leftarrow> sort_key g xs. f x) = (\<Sum>x \<leftarrow> xs. f x :: nat)"
proof -
  have ins: "(\<Sum>y \<leftarrow> insort_key g x ys. f y) = f x + (\<Sum>y \<leftarrow> ys. f y)" for x ys
    by (induction ys) auto
  show ?thesis by (induction xs) (auto simp: ins)
qed

lemma update_fresh: "k \<notin> fst ` set acc \<Longrightarrow> AList.update k v acc = acc @ [(k, v)]"
  by (induction acc) auto

lemma join_Cons: "ss \<noteq> [] \<Longrightarrow> join sep (s # ss) = s @ sep @ join sep ss"
  by (cases ss) auto

lemma skip_ws_quote [simp]: "skip_ws (CHR 0x22 # s) = CHR 0x22 # s"
  "skip_ws (CHR '':'' # s) = CHR '':'' # s" "skip_ws (CHR '','' # s) = CHR '','' # s"
  "skip_ws (CHR '']'' # s) = CHR '']'' # s" "skip_ws (CHR ''}'' # s) = CHR ''}'' # s" "skip_ws [] = []"
  by (simp_all add: skip_ws_def is_ws_def)

definition num_start where "num_start c \<longleftrightarrow> c = CHR ''-'' \<or> is_digit c"

lemma int_str_start: "\<exists>c s. int_str i = c # s \<and> num_start c"
  using nat_str_nonempty [of "nat i"] nat_str_digits [of "nat i"]
  by (cases "nat_str (nat i)") (auto simp: int_str_def num_start_def)

lemma float_start: "scan_num t = Some (JFloat t, []) \<Longrightarrow> \<exists>c s. t = c # s \<and> num_start c"
proof (cases t)
  case Nil
  assume "scan_num t = Some (JFloat t, [])"
  with Nil show ?thesis by (simp add: scan_num_def scan_int_def)
next
  case (Cons c s)
  assume "scan_num t = Some (JFloat t, [])"
  from scan_num_first [OF this Cons] Cons show ?thesis by (simp add: num_start_def)
qed

lemma num_start_not:
  assumes "num_start c"
  shows "c \<noteq> CHR 0x22" "c \<noteq> CHR ''{''" "c \<noteq> CHR ''[''" "c \<noteq> CHR ''n''" "c \<noteq> CHR ''t''" "c \<noteq> CHR ''f''"
    "\<not> is_ws c" "c \<noteq> CHR '']''" "c \<noteq> CHR ''}''"
proof -
  from assms consider "c = CHR ''-''" | "is_digit c" by (auto simp: num_start_def)
  then have "c \<noteq> CHR 0x22 \<and> c \<noteq> CHR ''{'' \<and> c \<noteq> CHR ''['' \<and> c \<noteq> CHR ''n'' \<and> c \<noteq> CHR ''t'' \<and> c \<noteq> CHR ''f'' \<and>
    \<not> is_ws c \<and> c \<noteq> CHR '']'' \<and> c \<noteq> CHR ''}''"
  proof cases
    case 1
    then show ?thesis by (simp add: is_ws_def)
  next
    case 2
    then show ?thesis by (intro conjI notI) (auto simp: is_ws_def)
  qed
  then show "c \<noteq> CHR 0x22" "c \<noteq> CHR ''{''" "c \<noteq> CHR ''[''" "c \<noteq> CHR ''n''" "c \<noteq> CHR ''t''" "c \<noteq> CHR ''f''"
    "\<not> is_ws c" "c \<noteq> CHR '']''" "c \<noteq> CHR ''}''" by simp_all
qed

lemma scan_val_num:
  assumes "t = c # s" "num_start c"
  shows "scan_val (Suc n) (t @ r) = scan_num (t @ r)"
  using num_start_not [OF assms(2)] by (simp add: assms(1) take_Cons')

lemma dumps_start: "json_wf j \<Longrightarrow> \<exists>c s. dumps j = c # s \<and> \<not> is_ws c \<and> c \<noteq> CHR '']'' \<and> c \<noteq> CHR ''}''"
proof (cases j)
  case (JInt i)
  obtain c s where "int_str i = c # s" "num_start c" using int_str_start by blast
  with JInt num_start_not show ?thesis by auto
next
  case (JFloat t)
  assume "json_wf j"
  with JFloat have "scan_num t = Some (JFloat t, [])" by simp
  then obtain c s where "t = c # s" "num_start c" using float_start by blast
  with JFloat num_start_not show ?thesis by auto
qed (simp_all add: is_ws_def dumps_str_def)

lemma skip_ws_dumps [simp]: "json_wf j \<Longrightarrow> skip_ws (dumps j @ r) = dumps j @ r"
  using dumps_start [of j] by (auto simp: skip_ws_def)

lemma take_append_lit: "take 4 (''null'' @ r) = ''null''" "take 4 (''true'' @ r) = ''true''" "take 5 (''false'' @ r) = ''false''"
  by (simp_all add: numeral_eq_Suc)

text \<open>The scanner on the text of a list of values, given that it reads each of them.\<close>

lemma scan_elems_dumps:
  assumes "\<And>x n r. x \<in> set xs \<Longrightarrow> json_cost x \<le> n \<Longrightarrow> delim r \<Longrightarrow> scan_val n (dumps x @ r) = Some (canon x, r)"
    and "\<And>x. x \<in> set xs \<Longrightarrow> json_wf x" and "xs \<noteq> []" and "(\<Sum>x \<leftarrow> xs. Suc (json_cost x)) \<le> n"
  shows "scan_elems n acc (join '','' (map dumps xs) @ CHR '']'' # r) = Some (JArr (acc @ map canon xs), r)"
  using assms
proof (induction xs arbitrary: n acc)
  case Nil
  then show ?case by simp
next
  case (Cons x xs)
  from Cons.prems(4) obtain m where n: "n = Suc m" by (cases n) auto
  have x: "scan_val m (dumps x @ q) = Some (canon x, q)" if "delim q" for q
    using Cons.prems(4) that by (intro Cons.prems(1)) (auto simp: n)
  show ?case
  proof (cases "xs = []")
    case True
    then show ?thesis by (simp add: n x)
  next
    case False
    have "scan_elems m (acc @ [canon x]) (join '','' (map dumps xs) @ CHR '']'' # r) =
        Some (JArr ((acc @ [canon x]) @ map canon xs), r)"
      using Cons.prems(4) False by (intro Cons.IH Cons.prems(1,2)) (auto simp: n)
    moreover have "skip_ws (join '','' (map dumps xs) @ q) = join '','' (map dumps xs) @ q" for q
    proof (cases xs)
      case (Cons y ys)
      with Cons.prems(2) [of y] show ?thesis by (cases ys) simp_all
    qed (use False in simp)
    ultimately show ?thesis using False by (simp add: n x join_Cons)
  qed
qed

text \<open>The text of one item of an object.\<close>

abbreviation member_text where "member_text \<equiv> (\<lambda>(k, t). dumps_str k @ '':'' @ t)"

lemma scan_members_dumps:
  assumes "\<And>k x n r. (k, x) \<in> set kvs \<Longrightarrow> json_cost x \<le> n \<Longrightarrow> delim r \<Longrightarrow> scan_val n (dumps x @ r) = Some (canon x, r)"
    and "\<And>k x. (k, x) \<in> set kvs \<Longrightarrow> json_wf x" and "kvs \<noteq> []" and "(\<Sum>(k, x) \<leftarrow> kvs. Suc (json_cost x)) \<le> n"
    and "distinct (map fst acc @ map fst kvs)"
  shows "scan_members n acc (join '','' (map member_text (map (\<lambda>(k, v). (k, dumps v)) kvs)) @ CHR ''}'' # r) =
     Some (JObj (acc @ map (\<lambda>(k, v). (k, canon v)) kvs), r)"
  using assms
proof (induction kvs arbitrary: n acc)
  case Nil
  then show ?case by simp
next
  case (Cons p kvs)
  obtain k x where p: "p = (k, x)" by fastforce
  from Cons.prems(4) p obtain m where n: "n = Suc m" by (cases n) auto
  have x: "scan_val m (dumps x @ q) = Some (canon x, q)" if "delim q" for q
    using Cons.prems(4) that by (intro Cons.prems(1)) (auto simp: n p)
  have str: "scan_str (List.concat (map esc_char k) @ CHR 0x22 # q) = Some (k, q)" for q
    by (rule scan_dumps_str)
  have wf: "json_wf x" using Cons.prems(2) p by auto
  have upd: "AList.update k v acc = acc @ [(k, v)]" for v
    using Cons.prems(5) p by (intro update_fresh) auto
  show ?case
  proof (cases "kvs = []")
    case True
    then show ?thesis by (simp add: n x p dumps_str_def str wf upd)
  next
    case False
    let ?rest = "join '','' (map member_text (map (\<lambda>(k, v). (k, dumps v)) kvs))"
    have tail: "\<And>k y n r. (k, y) \<in> set kvs \<Longrightarrow> json_cost y \<le> n \<Longrightarrow> delim r \<Longrightarrow> scan_val n (dumps y @ r) = Some (canon y, r)"
      "\<And>k y. (k, y) \<in> set kvs \<Longrightarrow> json_wf y"
      using Cons.prems(1,2) by (meson list.set_intros(2))+
    have "scan_members m (acc @ [(k, canon x)]) (?rest @ CHR ''}'' # r) =
        Some (JObj ((acc @ [(k, canon x)]) @ map (\<lambda>(k, v). (k, canon v)) kvs), r)"
      using Cons.prems(4,5) False by (intro Cons.IH tail) (auto simp: n p)
    moreover have "skip_ws (?rest @ q) = ?rest @ q" for q
      using False by (cases kvs; cases "tl kvs") (auto simp: dumps_str_def)
    ultimately show ?thesis using False
      by (simp add: n x p dumps_str_def str wf upd join_Cons)
  qed
qed

lemma scan_arr_dumps:
  assumes "\<And>x n r. x \<in> set xs \<Longrightarrow> json_wf x \<Longrightarrow> json_cost x \<le> n \<Longrightarrow> delim r \<Longrightarrow>
      scan_val n (dumps x @ r) = Some (canon x, r)"
    and "json_wf (JArr xs)" and "json_cost (JArr xs) \<le> n"
  shows "scan_val n (dumps (JArr xs) @ r) = Some (canon (JArr xs), r)"
proof -
  from assms(3) obtain m where n: "n = Suc m" by (cases n) auto
  show ?thesis
  proof (cases xs)
    case Nil
    then show ?thesis by (simp add: n)
  next
    case (Cons x ys)
    have wf: "json_wf x" "\<And>x. x \<in> set xs \<Longrightarrow> json_wf x" using assms(2) Cons by (auto simp: list_all_iff)
    obtain c s where x: "dumps x = c # s" "\<not> is_ws c" "c \<noteq> CHR '']''" using dumps_start [OF wf(1)] by blast
    obtain u where u: "join '','' (map dumps xs) = c # u" using x Cons by (cases ys) auto
    have "scan_elems m [] ((c # u) @ CHR '']'' # r) = Some (JArr ([] @ map canon xs), r)"
      unfolding u [symmetric] using assms wf Cons by (intro scan_elems_dumps) (auto simp: n)
    with x u show ?thesis by (simp add: n skip_ws_def)
  qed
qed

lemma scan_obj_dumps:
  assumes "\<And>k x n r. (k, x) \<in> set kvs \<Longrightarrow> json_wf x \<Longrightarrow> json_cost x \<le> n \<Longrightarrow> delim r \<Longrightarrow>
      scan_val n (dumps x @ r) = Some (canon x, r)"
    and "json_wf (JObj kvs)" and "json_cost (JObj kvs) \<le> n"
  shows "scan_val n (dumps (JObj kvs) @ r) = Some (canon (JObj kvs), r)"
proof -
  from assms(3) obtain m where n: "n = Suc m" by (cases n) auto
  let ?kvs = "sort_key fst kvs"
  have cost: "(\<Sum>(k, x) \<leftarrow> ?kvs. Suc (json_cost x)) \<le> m" using assms(3) by (simp add: n sum_list_sort_key)
  show ?thesis
  proof (cases kvs)
    case Nil
    then show ?thesis by (simp add: n)
  next
    case (Cons p ps)
    then have ne: "?kvs \<noteq> []" by (metis set_empty set_sort list.distinct(1))
    have wf: "\<And>k x. (k, x) \<in> set ?kvs \<Longrightarrow> json_wf x" using assms(2) by (auto simp: list_all_iff)
    have "scan_members m [] (join '','' (map member_text (map (\<lambda>(k, v). (k, dumps v)) ?kvs)) @ CHR ''}'' # r) =
        Some (JObj ([] @ map (\<lambda>(k, v). (k, canon v)) ?kvs), r)"
      using assms(2) wf ne cost by (intro scan_members_dumps) (auto intro!: assms(1) simp: distinct_map)
    moreover obtain u where u: "join '','' (map member_text (map (\<lambda>(k, v). (k, dumps v)) ?kvs)) = CHR 0x22 # u"
      using ne by (cases ?kvs; cases "tl ?kvs") (auto simp: dumps_str_def)
    ultimately show ?thesis by (simp add: n sort_key_map_snd)
  qed
qed

lemma scan_val_dumps:
  "json_wf j \<Longrightarrow> json_cost j \<le> n \<Longrightarrow> delim r \<Longrightarrow> scan_val n (dumps j @ r) = Some (canon j, r)"
proof (induction j arbitrary: n r)
  case JNull
  then show ?case by (cases n) (simp_all add: numeral_eq_Suc)
next
  case (JBool b)
  then show ?case by (cases n) (simp_all add: numeral_eq_Suc)
next
  case (JInt i)
  then obtain m where n: "n = Suc m" by (cases n) auto
  obtain c s where "int_str i = c # s" "num_start c" using int_str_start by blast
  then have "scan_val n (int_str i @ r) = scan_num (int_str i @ r)" unfolding n by (rule scan_val_num)
  then show ?case using JInt by (simp add: scan_num_delim [OF scan_num_int_str])
next
  case (JFloat t)
  then obtain m where n: "n = Suc m" by (cases n) auto
  from JFloat have t: "scan_num t = Some (JFloat t, [])" by simp
  obtain c s where "t = c # s" "num_start c" using float_start [OF t] by blast
  then have "scan_val n (t @ r) = scan_num (t @ r)" unfolding n by (rule scan_val_num)
  then show ?case using JFloat by (simp add: scan_num_delim [OF t])
next
  case (JStr s)
  then show ?case by (cases n) (simp_all add: dumps_str_def scan_dumps_str)
next
  case (JArr xs)
  show ?case by (rule scan_arr_dumps) (use JArr in auto)
next
  case (JObj kvs)
  show ?case by (rule scan_obj_dumps) (use JObj in \<open>auto intro: JObj.IH\<close>)
qed


section \<open>The round trip\<close>

lemma sum_list_le: "(\<And>x. x \<in> set xs \<Longrightarrow> f x \<le> g x) \<Longrightarrow> (\<Sum>x \<leftarrow> xs. f x) \<le> (\<Sum>x \<leftarrow> xs. g x :: nat)"
  by (induction xs) (auto simp: add_mono)

lemma length_join: "ss \<noteq> [] \<Longrightarrow> length (join sep ss) + length sep = (\<Sum>s \<leftarrow> ss. length s + length sep)"
  by (induction sep ss rule: join.induct) auto

lemma json_cost_le: "json_wf j \<Longrightarrow> json_cost j \<le> 2 * length (dumps j)"
proof (induction j)
  case (JInt i)
  then show ?case using int_str_start [of i] by auto
next
  case (JFloat t)
  then have "scan_num t = Some (JFloat t, [])" by simp
  then obtain c s where "t = c # s" using float_start by blast
  then show ?case by simp
next
  case (JArr xs)
  show ?case
  proof (cases "xs = []")
    case False
    have "(\<Sum>x \<leftarrow> xs. Suc (json_cost x)) \<le> (\<Sum>x \<leftarrow> xs. 2 * (length (dumps x) + 1))"
      using JArr by (intro sum_list_le) (fastforce simp: list_all_iff)
    also have "\<dots> = 2 * (\<Sum>x \<leftarrow> xs. length (dumps x) + 1)"
      by (rule sum_list_const_mult)
    also have "(\<Sum>x \<leftarrow> xs. length (dumps x) + 1) = length (join '','' (map dumps xs)) + 1"
      using length_join [of "map dumps xs" "'',''"] False by (simp add: o_def)
    finally show ?thesis by simp
  qed simp
next
  case (JObj kvs)
  show ?case
  proof (cases "kvs = []")
    case False
    let ?ts = "map member_text (map (\<lambda>(k, v). (k, dumps v)) (sort_key fst kvs))"
    have "(\<Sum>p \<leftarrow> kvs. Suc (json_cost (snd p))) \<le> (\<Sum>p \<leftarrow> kvs. 2 * (length (member_text (fst p, dumps (snd p))) + 1))"
      using JObj by (intro sum_list_le) (fastforce simp: list_all_iff)
    also have "\<dots> = 2 * (\<Sum>p \<leftarrow> kvs. length (member_text (fst p, dumps (snd p))) + 1)"
      by (rule sum_list_const_mult)
    also have "(\<Sum>p \<leftarrow> kvs. length (member_text (fst p, dumps (snd p))) + 1) =
       (\<Sum>p \<leftarrow> sort_key fst kvs. length (member_text (fst p, dumps (snd p))) + 1)"
      by (rule sum_list_sort_key [symmetric])
    also have "\<dots> = length (join '','' ?ts) + 1"
    proof -
      have "sort_key fst kvs \<noteq> []" using False by (metis set_empty set_sort)
      then show ?thesis using length_join [of ?ts "'',''"] by (simp add: o_def case_prod_unfold)
    qed
    finally have "(\<Sum>p \<leftarrow> kvs. Suc (json_cost (snd p))) \<le> 2 * (length (join '','' ?ts) + 1)" .
    moreover have "length (dumps (JObj kvs)) = length (join '','' ?ts) + 2"
      by (simp add: sort_key_map_snd)
    ultimately show ?thesis by (simp add: case_prod_unfold del: dumps.simps)
  qed simp
qed (simp_all add: dumps_str_def)

text \<open>What the store writes, \<open>json.loads\<close> reads back, with the keys in order.\<close>

lemma loads_dumps:
  assumes "json_wf j"
  shows "loads (dumps j) = Inr (canon j)"
proof -
  have "scan_val (2 * length (dumps j) + 2) (dumps j @ []) = Some (canon j, [])"
    using json_cost_le [OF assms] by (intro scan_val_dumps assms) auto
  moreover have "skip_ws (dumps j) = dumps j" using skip_ws_dumps [OF assms, of "[]"] by simp
  ultimately show ?thesis by (simp add: loads_def)
qed

lemma dumps_canon: "dumps (canon j) = dumps j"
proof (induction j rule: canon.induct)
  case (2 kvs)
  have "map (\<lambda>(k, v). (k, dumps v)) (map (\<lambda>(k, v). (k, canon v)) kvs) = map (\<lambda>(k, v). (k, dumps v)) kvs"
    using 2 by auto
  then show ?case
    by (simp add: sort_key_map_snd [symmetric] sort_key_id_if_sorted del: map_map)
qed (simp_all cong: map_cong)

text \<open>Equality as Python has it: the order of the keys of a dictionary does not count.\<close>

lemma dumps_eq_iff:
  assumes "json_wf a" and "json_wf b"
  shows "dumps a = dumps b \<longleftrightarrow> canon a = canon b"
  using loads_dumps [OF assms(1)] loads_dumps [OF assms(2)] dumps_canon [of a] dumps_canon [of b] by auto

end
