(* ===== verification/Topology.thy ===== *)
theory Topology
  imports Json
begin

text \<open>
  \<open>src/ai_ha/topology\<close> without its database part: the payload fetched from Home Assistant
  (\<open>TopologyPayload\<close> of \<open>snapshot_store.py\<close>), the entity cache (\<open>entity_index.py\<close>) and the orphan
  detector (\<open>orphan_detector.py\<close>). A registry entry is a Python dictionary of JSON values. The
  fields the code reads are strings or null in Home Assistant's registries, as the
  dataclasses annotate them; \<open>get_s\<close> reads such a field, and tells a missing key from a null
  only where the code does (\<open>has_key\<close>).

  The lemmas say what the loops compute: a lookup finds the last entry of the payload with
  that id, its area is the entity's own or else its device's, and the orphans are
  the enabled entities whose cached area is empty.
\<close>

section \<open>Payload\<close>

type_synonym entry = "(string \<times> json) list"

record payload =
  pl_areas :: "entry list"
  pl_devices :: "entry list"
  pl_entities :: "entry list"

definition get_s :: "entry \<Rightarrow> string \<Rightarrow> string option" where
  "get_s e k = (case map_of e k of Some (JStr s) \<Rightarrow> Some s | _ \<Rightarrow> None)"

definition has_key :: "entry \<Rightarrow> string \<Rightarrow> bool" where
  "has_key e k \<longleftrightarrow> k \<in> fst ` set e"

definition payload_json :: "payload \<Rightarrow> json" where
  "payload_json p = JObj [(''areas'', JArr (map JObj (pl_areas p))),
     (''devices'', JArr (map JObj (pl_devices p))),
     (''entities'', JArr (map JObj (pl_entities p)))]"

definition to_canonical_json :: "payload \<Rightarrow> string" where
  "to_canonical_json p = dumps (payload_json p)"

text \<open>\<open>hashlib.sha256\<close> is a parameter.\<close>

definition hash_hex :: "(string \<Rightarrow> string) \<Rightarrow> payload \<Rightarrow> string" where
  "hash_hex sha p = sha (to_canonical_json p)"

section \<open>Entity index\<close>

record entity_ref =
  rf_device_id :: "string option"
  rf_area_id :: "string option"
  rf_device_class :: "string option"
  rf_snapshot_id :: int

type_synonym entity_index = "(string \<times> entity_ref) list"

text \<open>\<open>{d["device_id"]: d.get("area_id") for d in payload.devices if "device_id" in d}\<close>\<close>

definition device_to_area :: "entry list \<Rightarrow> (string option \<times> string option) list" where
  "device_to_area devices =
     fold (\<lambda>d m. if has_key d ''device_id''
                 then AList.update (get_s d ''device_id'') (get_s d ''area_id'') m else m)
       devices []"

definition dict_get :: "('k \<times> 'v option) list \<Rightarrow> 'k \<Rightarrow> 'v option" where
  "dict_get m k = (case map_of m k of None \<Rightarrow> None | Some v \<Rightarrow> v)"

definition entity_ref_of :: "(string option \<times> string option) list \<Rightarrow> int \<Rightarrow> entry \<Rightarrow> entity_ref" where
  "entity_ref_of d2a snapshot_id e =
     (let dev_id = get_s e ''device_id'';
          area_id = py_or (get_s e ''area_id'') (dict_get d2a dev_id)
      in \<lparr>rf_device_id = dev_id, rf_area_id = area_id,
          rf_device_class = get_s e ''device_class'', rf_snapshot_id = snapshot_id\<rparr>)"

definition build_index :: "payload \<Rightarrow> int \<Rightarrow> entity_index" where
  "build_index p snapshot_id =
     (let d2a = device_to_area (pl_devices p) in
      fold (\<lambda>e out. case get_s e ''entity_id'' of
          None \<Rightarrow> out
        | Some eid \<Rightarrow> if eid = [] then out
                      else AList.update eid (entity_ref_of d2a snapshot_id e) out)
        (pl_entities p) [])"

definition lookup :: "entity_index \<Rightarrow> string \<Rightarrow> entity_ref option" where
  "lookup idx entity_id = map_of idx entity_id"

text \<open>\<open>rebuild_from_payload\<close> replaces the whole map.\<close>

definition rebuild_from_payload :: "payload \<Rightarrow> int \<Rightarrow> entity_index \<Rightarrow> entity_index" where
  "rebuild_from_payload p snapshot_id idx = build_index p snapshot_id"

definition new_index :: entity_index where
  "new_index = []"

definition build_from_payload :: "payload \<Rightarrow> int \<Rightarrow> entity_index" where
  "build_from_payload p snapshot_id = build_index p snapshot_id"

lemma build_is_rebuild: "build_from_payload p sid = rebuild_from_payload p sid new_index"
  by (simp add: build_from_payload_def rebuild_from_payload_def)

section \<open>Orphans\<close>

definition find_orphans :: "payload \<Rightarrow> string list" where
  "find_orphans p =
     (let d2a = device_to_area (pl_devices p) in
      fold (\<lambda>e orphans.
        if truthy (get_s e ''disabled_by'') then orphans
        else if truthy (get_s e ''area_id'') then orphans
        else if truthy (get_s e ''device_id'') \<and> truthy (dict_get d2a (get_s e ''device_id''))
          then orphans
        else (case get_s e ''entity_id'' of
                None \<Rightarrow> orphans
              | Some eid \<Rightarrow> if eid = [] then orphans else orphans @ [eid]))
        (pl_entities p) [])"

section \<open>What the loops compute\<close>

text \<open>A loop that stores the last value under each key.\<close>

lemma fold_update_last:
  "map_of (fold (\<lambda>x m. case key x of None \<Rightarrow> m | Some k \<Rightarrow> AList.update k (val x) m) xs m0) k =
     (case find (\<lambda>x. key x = Some k) (rev xs) of None \<Rightarrow> map_of m0 k | Some x \<Rightarrow> Some (val x))"
proof (induction xs rule: rev_induct)
  case Nil
  then show ?case by simp
next
  case (snoc x xs)
  then show ?case by (cases "key x") (auto simp: update_conv')
qed

definition device_key :: "entry \<Rightarrow> string option option" where
  "device_key d = (if has_key d ''device_id'' then Some (get_s d ''device_id'') else None)"

definition entity_key :: "entry \<Rightarrow> string option" where
  "entity_key e = (case get_s e ''entity_id'' of None \<Rightarrow> None
     | Some eid \<Rightarrow> if eid = [] then None else Some eid)"

text \<open>The area of a device, and of an entity: its own, or its device's.\<close>

definition device_area :: "payload \<Rightarrow> string option \<Rightarrow> string option" where
  "device_area p dev =
     (case find (\<lambda>d. device_key d = Some dev) (rev (pl_devices p)) of
        None \<Rightarrow> None | Some d \<Rightarrow> get_s d ''area_id'')"

definition entity_area :: "payload \<Rightarrow> entry \<Rightarrow> string option" where
  "entity_area p e = py_or (get_s e ''area_id'') (device_area p (get_s e ''device_id''))"

lemma device_to_area_spec: "dict_get (device_to_area (pl_devices p)) dev = device_area p dev"
proof -
  have "device_to_area ds =
      fold (\<lambda>d m. case device_key d of None \<Rightarrow> m | Some k \<Rightarrow> AList.update k (get_s d ''area_id'') m) ds []" for ds
    unfolding device_to_area_def
    by (rule fold_cong) (auto simp: device_key_def)
  then show ?thesis
    by (simp add: dict_get_def device_area_def fold_update_last split: option.split)
qed

lemma entity_ref_of_spec:
  "entity_ref_of (device_to_area (pl_devices p)) sid e =
     \<lparr>rf_device_id = get_s e ''device_id'', rf_area_id = entity_area p e,
      rf_device_class = get_s e ''device_class'', rf_snapshot_id = sid\<rparr>"
  by (simp add: entity_ref_of_def Let_def device_to_area_spec entity_area_def)

lemma lookup_build:
  "lookup (build_index p sid) i =
     map_option (entity_ref_of (device_to_area (pl_devices p)) sid)
       (find (\<lambda>e. entity_key e = Some i) (rev (pl_entities p)))"
proof -
  have "build_index p sid = fold (\<lambda>e out. case entity_key e of None \<Rightarrow> out
      | Some k \<Rightarrow> AList.update k (entity_ref_of (device_to_area (pl_devices p)) sid e) out) (pl_entities p) []"
    unfolding build_index_def Let_def
    by (rule fold_cong) (auto simp: entity_key_def split: option.split)
  then show ?thesis
    by (simp add: lookup_def fold_update_last split: option.split)
qed

lemma fold_append_filter:
  "fold (\<lambda>x acc. if P x then acc else case k x of None \<Rightarrow> acc | Some y \<Rightarrow> acc @ [y]) xs acc =
     acc @ List.map_filter k (filter (\<lambda>x. \<not> P x) xs)"
  by (induction xs arbitrary: acc) (auto simp: List.map_filter_def split: option.split)

text \<open>An entity is skipped when it is disabled or has an area of either kind.\<close>

definition placed :: "payload \<Rightarrow> entry \<Rightarrow> bool" where
  "placed p e \<longleftrightarrow> truthy (get_s e ''disabled_by'') \<or> truthy (get_s e ''area_id'') \<or>
     truthy (get_s e ''device_id'') \<and> truthy (device_area p (get_s e ''device_id''))"

lemma find_orphans_filter:
  "find_orphans p = List.map_filter entity_key (filter (\<lambda>e. \<not> placed p e) (pl_entities p))"
proof -
  have "find_orphans p = fold (\<lambda>e acc. if placed p e then acc
      else case entity_key e of None \<Rightarrow> acc | Some i \<Rightarrow> acc @ [i]) (pl_entities p) []"
    unfolding find_orphans_def Let_def device_to_area_spec placed_def
    by (intro fold_cong refl ext) (simp add: entity_key_def split: option.split)
  then show ?thesis by (simp only: fold_append_filter append_Nil)
qed

end
