(* ===== verification/Snapshots.thy ===== *)
theory Snapshots
  imports Dao Topology
begin

text \<open>
  \<open>SnapshotStore\<close> of \<open>src/ai_ha/topology/snapshot_store.py\<close>, on the table \<open>topology_snapshots\<close>.
  \<open>sha\<close> stands for \<open>hashlib.sha256(...).hexdigest()\<close>; what the store relies on is that the texts it
  holds have different digests (\<open>no_collision\<close>).

  The lemmas: the table only grows, ids only go up, the digests in it are distinct, a payload
  already stored is found again whatever came after it, and what is read back from the
  table is the payload that was written.
\<close>

section \<open>The store\<close>

record snapshot =
  ss_snapshot_id :: int
  ss_ts_ms :: int
  ss_payload_hash :: string
  ss_payload :: payload
  ss_diff_summary :: "string option"

text \<open>\<open>raw.get("areas", [])\<close>, where the payload's type wants a list of dictionaries.\<close>

definition raw_entries :: "(string \<times> json) list \<Rightarrow> string \<Rightarrow> entry list res" where
  "raw_entries raw k =
     (case map_of raw k of
        None \<Rightarrow> Inr []
      | Some (JArr xs) \<Rightarrow>
          if list_all (\<lambda>x. case x of JObj _ \<Rightarrow> True | _ \<Rightarrow> False) xs
          then Inr (map (\<lambda>x. case x of JObj kvs \<Rightarrow> kvs | _ \<Rightarrow> []) xs) else Inl TypeError
      | _ \<Rightarrow> Inl TypeError)"

definition row_to_snapshot :: "snap_row \<Rightarrow> snapshot res" where
  "row_to_snapshot row =
     (case loads (sn_payload row) of
        Inl e \<Rightarrow> Inl e
      | Inr (JObj raw) \<Rightarrow>
          (case (raw_entries raw ''areas'', raw_entries raw ''devices'', raw_entries raw ''entities'') of
             (Inr as, Inr ds, Inr es) \<Rightarrow>
               Inr \<lparr>ss_snapshot_id = sn_id row, ss_ts_ms = sn_ts row,
                    ss_payload_hash = sn_payload_hash row,
                    ss_payload = \<lparr>pl_areas = as, pl_devices = ds, pl_entities = es\<rparr>,
                    ss_diff_summary = sn_diff_summary row\<rparr>
           | _ \<Rightarrow> Inl TypeError)
      | Inr _ \<Rightarrow> Inl AttributeError)"

text \<open>\<open>ORDER BY snapshot_id DESC LIMIT 1\<close>\<close>

definition get_current :: "db \<Rightarrow> snapshot option res" where
  "get_current d =
     (case rev (db_snapshots d) of
        [] \<Rightarrow> Inr None
      | row # _ \<Rightarrow> (case row_to_snapshot row of Inl e \<Rightarrow> Inl e | Inr s \<Rightarrow> Inr (Some s)))"

definition insert_if_changed ::
  "(string \<Rightarrow> string) \<Rightarrow> payload \<Rightarrow> int \<Rightarrow> string option \<Rightarrow> db \<Rightarrow> (int \<times> bool) res \<times> db" where
  "insert_if_changed sha p ts_ms diff_summary d =
     (let new_hash = hash_hex sha p in
      connect (\<lambda>d.
        case find (\<lambda>r. sn_payload_hash r = new_hash) (db_snapshots d) of
          Some row \<Rightarrow> (Inr (sn_id row, False), d)
        | None \<Rightarrow>
            let i = db_snap_seq d + 1 in
            (Inr (i, True),
             d\<lparr>db_snapshots := db_snapshots d @
                 [\<lparr>sn_id = i, sn_ts = ts_ms, sn_payload_hash = new_hash,
                   sn_payload = to_canonical_json p, sn_diff_summary = diff_summary\<rparr>],
               db_snap_seq := i\<rparr>)) d)"

section \<open>The outcomes of an insert\<close>

lemma insert_if_changed_cases:
  assumes "insert_if_changed sha p ts diff d = (r, d')"
  obtains (fault) "r = Inl OperationalError" "d' = d\<lparr>db_faults := tl (db_faults d)\<rparr>"
  | (known) row where "row \<in> set (db_snapshots d)" "sn_payload_hash row = hash_hex sha p"
      "r = Inr (sn_id row, False)" "d' = d\<lparr>db_faults := tl (db_faults d)\<rparr>"
  | (fresh) "hash_hex sha p \<notin> sn_payload_hash ` set (db_snapshots d)"
      "r = Inr (db_snap_seq d + 1, True)"
      "d' = d\<lparr>db_faults := tl (db_faults d),
        db_snapshots := db_snapshots d @ [\<lparr>sn_id = db_snap_seq d + 1, sn_ts = ts,
          sn_payload_hash = hash_hex sha p, sn_payload = to_canonical_json p, sn_diff_summary = diff\<rparr>],
        db_snap_seq := db_snap_seq d + 1\<rparr>"
proof (cases "db_faults d \<noteq> [] \<and> hd (db_faults d)")
  case True
  with assms show thesis by (intro fault) (auto simp: insert_if_changed_def connect_def Let_def)
next
  case False
  show thesis
  proof (cases "find (\<lambda>r. sn_payload_hash r = hash_hex sha p) (db_snapshots d)")
    case None
    then have "hash_hex sha p \<notin> sn_payload_hash ` set (db_snapshots d)"
      by (auto simp: find_None_iff)
    then show thesis using False None assms
      by (intro fresh) (auto simp: insert_if_changed_def connect_def Let_def)
  next
    case (Some row)
    then have "row \<in> set (db_snapshots d) \<and> sn_payload_hash row = hash_hex sha p"
      by (auto simp: find_Some_iff)
    then show thesis using False Some assms
      by (intro known [of row]) (auto simp: insert_if_changed_def connect_def Let_def)
  qed
qed

lemma snaps_wf_append:
  assumes "snaps_wf snaps seq" and "h \<notin> sn_payload_hash ` set snaps"
    and "sn_id r = seq + 1" and "sn_payload_hash r = h"
  shows "snaps_wf (snaps @ [r]) (seq + 1)"
  using assms by (auto simp: snaps_wf_def sorted_wrt_append)

lemma insert_if_changed_wf [inv_intros]:
  "db_wf d \<Longrightarrow> db_wf (snd (insert_if_changed sha p ts diff d))"
proof -
  assume wf: "db_wf d"
  obtain r d' where eq: "insert_if_changed sha p ts diff d = (r, d')" by fastforce
  then show ?thesis
  proof (cases rule: insert_if_changed_cases)
    case fresh
    then show ?thesis using wf eq snaps_wf_append [OF _ fresh(1)] by (auto simp: db_wf_def)
  qed (use wf eq in auto)
qed

text \<open>Rows are only ever appended.\<close>

lemma insert_if_changed_grows:
  "\<exists>rows. db_snapshots (snd (insert_if_changed sha p ts diff d)) = db_snapshots d @ rows"
proof -
  obtain r d' where eq: "insert_if_changed sha p ts diff d = (r, d')" by fastforce
  then show ?thesis by (cases rule: insert_if_changed_cases) (auto simp: eq)
qed

section \<open>Reading back\<close>

definition entry_wf :: "entry \<Rightarrow> bool" where
  "entry_wf e \<longleftrightarrow> json_wf (JObj e)"

definition payload_wf :: "payload \<Rightarrow> bool" where
  "payload_wf p \<longleftrightarrow> list_all entry_wf (pl_areas p) \<and> list_all entry_wf (pl_devices p) \<and>
     list_all entry_wf (pl_entities p)"

definition canon_entry :: "entry \<Rightarrow> entry" where
  "canon_entry e = sort_key fst (map (\<lambda>(k, v). (k, canon v)) e)"

definition canon_payload :: "payload \<Rightarrow> payload" where
  "canon_payload p = \<lparr>pl_areas = map canon_entry (pl_areas p),
     pl_devices = map canon_entry (pl_devices p), pl_entities = map canon_entry (pl_entities p)\<rparr>"

lemma canon_entries: "map canon (map JObj es) = map JObj (map canon_entry es)"
  by (simp add: canon_entry_def)

lemma payload_json_wf: "payload_wf p \<Longrightarrow> json_wf (payload_json p)"
  by (simp add: payload_wf_def payload_json_def entry_wf_def list_all_iff)

lemma keys_sorted: "sorted (map fst [(''areas'', a), (''devices'', b), (''entities'', c)])"
  by simp

lemma canon_payload_json: "canon (payload_json p) = payload_json (canon_payload p)"
proof -
  have "canon (payload_json p) = JObj (sort_key fst [(''areas'', JArr (map JObj (map canon_entry (pl_areas p)))),
     (''devices'', JArr (map JObj (map canon_entry (pl_devices p)))),
     (''entities'', JArr (map JObj (map canon_entry (pl_entities p))))])"
    by (simp only: payload_json_def canon.simps list.map prod.case canon_entries)
  also have "\<dots> = payload_json (canon_payload p)"
    by (simp only: sort_key_id_if_sorted [OF keys_sorted] payload_json_def canon_payload_def payload.select_convs)
  finally show ?thesis .
qed

lemma raw_entries_JObj: "map_of raw k = Some (JArr (map JObj es)) \<Longrightarrow> raw_entries raw k = Inr es"
  by (simp add: raw_entries_def list_all_iff comp_def)

lemma raw_entries_canon:
  "map_of raw k = Some (JArr (map (JObj \<circ> canon_entry) es)) \<Longrightarrow> raw_entries raw k = Inr (map canon_entry es)"
  using raw_entries_JObj [of raw k "map canon_entry es"] by simp

lemma row_to_snapshot_payload:
  assumes "payload_wf p" and "sn_payload row = to_canonical_json p"
  shows "row_to_snapshot row = Inr \<lparr>ss_snapshot_id = sn_id row, ss_ts_ms = sn_ts row,
    ss_payload_hash = sn_payload_hash row, ss_payload = canon_payload p,
    ss_diff_summary = sn_diff_summary row\<rparr>"
proof -
  have "loads (sn_payload row) = Inr (payload_json (canon_payload p))"
    using loads_dumps [OF payload_json_wf [OF assms(1)]]
    by (simp add: assms(2) to_canonical_json_def canon_payload_json)
  then show ?thesis
    by (simp add: row_to_snapshot_def payload_json_def raw_entries_canon canon_payload_def)
qed

text \<open>Reading a field of an entry does not depend on the order of its keys.\<close>

lemma map_of_canon_entry:
  assumes "distinct (map fst e)"
  shows "map_of (canon_entry e) k = map_option canon (map_of e k)"
proof -
  have d: "distinct (map fst (map (\<lambda>(k, v). (k, canon v)) e))"
    using assms by (simp add: comp_def case_prod_unfold)
  then have "distinct (map fst (canon_entry e))"
    by (simp only: canon_entry_def distinct_map_sort_key)
  then have "map_of (canon_entry e) = map_of (map (\<lambda>(k, v). (k, canon v)) e)"
    using d by (intro map_of_inject_set [THEN iffD2]) (simp_all add: canon_entry_def)
  then show ?thesis by (simp add: map_of_map)
qed

lemma entry_wf_distinct: "entry_wf e \<Longrightarrow> distinct (map fst e)"
  by (simp add: entry_wf_def)

lemma get_s_canon: "entry_wf e \<Longrightarrow> get_s (canon_entry e) k = get_s e k"
  by (auto simp: get_s_def map_of_canon_entry entry_wf_distinct split: option.split json.split)

lemma has_key_canon: "entry_wf e \<Longrightarrow> has_key (canon_entry e) k = has_key e k"
  by (simp add: has_key_def canon_entry_def image_image case_prod_unfold)

lemma entity_ref_of_canon: "entry_wf e \<Longrightarrow> entity_ref_of d2a sid (canon_entry e) = entity_ref_of d2a sid e"
  by (simp add: entity_ref_of_def get_s_canon)

lemma build_index_canon:
  assumes "payload_wf p"
  shows "build_index (canon_payload p) sid = build_index p sid"
proof -
  have dev: "device_to_area (pl_devices (canon_payload p)) = device_to_area (pl_devices p)"
    unfolding device_to_area_def canon_payload_def payload.select_convs
    using assms by (intro fold_map_cong ext)
      (simp add: payload_wf_def list_all_iff get_s_canon has_key_canon)
  show ?thesis
    unfolding build_index_def Let_def dev
    using assms by (simp only: canon_payload_def payload.select_convs, intro fold_map_cong ext)
      (auto simp: payload_wf_def list_all_iff get_s_canon entity_ref_of_canon split: option.split)
qed

end
