(* ===== verification/Orchestrator.thy ===== *)
theory Orchestrator
  imports Snapshots
begin

text \<open>
  \<open>TopologyOrchestrator\<close> of \<open>src/ai_ha/topology/orchestrator.py\<close>: one topology refresh.
  \<open>apply_topology\<close> stores the snapshot, upserts the three registries when the snapshot is
  new, and rebuilds the entity index; it returns what the code returns or the exception,
  with the index and the database as they are at that point.
\<close>

section \<open>The rows of a payload\<close>

text \<open>\<open>a.get("name", a["area_id"])\<close>: the default is used when the key is missing, not when it is null.\<close>

definition area_row_of :: "int \<Rightarrow> int \<Rightarrow> entry \<Rightarrow> area_row" where
  "area_row_of snapshot_id ts_ms a =
     \<lparr>ar_area_id = (case get_s a ''area_id'' of None \<Rightarrow> [] | Some i \<Rightarrow> i),
      ar_name = (if has_key a ''name'' then get_s a ''name'' else get_s a ''area_id''),
      ar_floor_id = get_s a ''floor_id'', ar_icon = get_s a ''icon'',
      ar_aliases = py_str (case map_of a ''aliases'' of None \<Rightarrow> JStr ''[]'' | Some v \<Rightarrow> v),
      ar_snapshot_id = snapshot_id, ar_first_seen_at = ts_ms, ar_last_seen_at = ts_ms\<rparr>"

definition device_row_of :: "int \<Rightarrow> int \<Rightarrow> entry \<Rightarrow> device_row" where
  "device_row_of snapshot_id ts_ms d =
     \<lparr>dr_device_id = (case get_s d ''device_id'' of None \<Rightarrow> [] | Some i \<Rightarrow> i),
      dr_name = get_s d ''name'', dr_manufacturer = get_s d ''manufacturer'',
      dr_model = get_s d ''model'', dr_area_id = get_s d ''area_id'',
      dr_sw_version = get_s d ''sw_version'',
      dr_snapshot_id = snapshot_id, dr_first_seen_at = ts_ms, dr_last_seen_at = ts_ms\<rparr>"

definition entity_row_of ::
  "(string option \<times> string option) list \<Rightarrow> int \<Rightarrow> int \<Rightarrow> entry \<Rightarrow> entity_row" where
  "entity_row_of d2a snapshot_id ts_ms e =
     (let eid = (case get_s e ''entity_id'' of None \<Rightarrow> [] | Some i \<Rightarrow> i) in
      \<lparr>er_entity_id = eid, er_friendly_name = get_s e ''name'',
       er_domain = takeWhile (\<lambda>c. c \<noteq> CHR ''.'') eid,
       er_device_class = get_s e ''device_class'', er_device_id = get_s e ''device_id'',
       er_area_id = py_or (get_s e ''area_id'') (dict_get d2a (get_s e ''device_id'')),
       er_disabled = (if truthy (get_s e ''disabled_by'') then 1 else 0),
       er_snapshot_id = snapshot_id, er_first_seen_at = ts_ms, er_last_seen_at = ts_ms,
       er_event_count_24h = 0, er_total_event_count = 0\<rparr>)"

text \<open>
  \<open>{d["device_id"]: d.get("area_id") for d in payload.devices}\<close>, without the guard that
  \<open>entity_index.py\<close> and \<open>orphan_detector.py\<close> have: a device without the key raises.
\<close>

definition device_to_area_strict :: "entry list \<Rightarrow> (string option \<times> string option) list res" where
  "device_to_area_strict devices =
     (if list_all (\<lambda>d. has_key d ''device_id'') devices
      then Inr (fold (\<lambda>d m. AList.update (get_s d ''device_id'') (get_s d ''area_id'') m) devices [])
      else Inl (KeyError ''device_id''))"

section \<open>A refresh\<close>

definition upsert_all :: "payload \<Rightarrow> int \<Rightarrow> int \<Rightarrow> db \<Rightarrow> unit res \<times> db" where
  "upsert_all p snapshot_id ts_ms d =
     (case upsert_areas (map (area_row_of snapshot_id ts_ms)
         (filter (\<lambda>a. truthy (get_s a ''area_id'')) (pl_areas p))) d of
        (Inl e, d1) \<Rightarrow> (Inl e, d1)
      | (Inr _, d1) \<Rightarrow>
     (case upsert_devices (map (device_row_of snapshot_id ts_ms)
         (filter (\<lambda>x. truthy (get_s x ''device_id'')) (pl_devices p))) d1 of
        (Inl e, d2) \<Rightarrow> (Inl e, d2)
      | (Inr _, d2) \<Rightarrow>
     (case device_to_area_strict (pl_devices p) of
        Inl e \<Rightarrow> (Inl e, d2)
      | Inr d2a \<Rightarrow>
          upsert_entities (map (entity_row_of d2a snapshot_id ts_ms)
            (filter (\<lambda>e. truthy (get_s e ''entity_id'')) (pl_entities p))) d2)))"

definition apply_topology ::
  "(string \<Rightarrow> string) \<Rightarrow> payload \<Rightarrow> int \<Rightarrow> entity_index \<times> db
    \<Rightarrow> (int \<times> bool) res \<times> entity_index \<times> db" where
  "apply_topology sha p ts_ms = (\<lambda>(idx, d).
     case insert_if_changed sha p ts_ms None d of
       (Inl e, d1) \<Rightarrow> (Inl e, idx, d1)
     | (Inr (snapshot_id, is_new), d1) \<Rightarrow>
         (case (if is_new then upsert_all p snapshot_id ts_ms d1 else (Inr (), d1)) of
            (Inl e, d2) \<Rightarrow> (Inl e, idx, d2)
          | (Inr _, d2) \<Rightarrow>
              (Inr (snapshot_id, is_new), rebuild_from_payload p snapshot_id idx, d2)))"

section \<open>Agreement of the dictionaries\<close>

lemma strict_agrees: "device_to_area_strict ds = Inr m \<Longrightarrow> m = device_to_area ds"
proof -
  assume a: "device_to_area_strict ds = Inr m"
  then have "list_all (\<lambda>d. has_key d ''device_id'') ds" by (simp add: device_to_area_strict_def split: if_splits)
  then have "device_to_area ds = fold (\<lambda>d m. AList.update (get_s d ''device_id'') (get_s d ''area_id'') m) ds []"
    unfolding device_to_area_def by (intro fold_cong) (auto simp: list_all_iff)
  with a show ?thesis by (simp add: device_to_area_strict_def split: if_splits)
qed

section \<open>What a refresh leaves alone\<close>

lemma insert_if_changed_frame [db_frame]:
  "db_events (snd (insert_if_changed sha p ts diff d)) = db_events d"
  "db_counters (snd (insert_if_changed sha p ts diff d)) = db_counters d"
  "db_drops (snd (insert_if_changed sha p ts diff d)) = db_drops d"
  "db_areas (snd (insert_if_changed sha p ts diff d)) = db_areas d"
  "db_devices (snd (insert_if_changed sha p ts diff d)) = db_devices d"
  "db_entities (snd (insert_if_changed sha p ts diff d)) = db_entities d"
  "db_faults d = [] \<Longrightarrow> db_faults (snd (insert_if_changed sha p ts diff d)) = []"
  by (simp_all add: insert_if_changed_def connect_def Let_def split: option.split)

text \<open>A property of the database that the three upserts keep.\<close>

lemma upsert_all_inv:
  assumes "\<And>rows d. P d \<Longrightarrow> P (snd (upsert_areas rows d))"
    and "\<And>rows d. P d \<Longrightarrow> P (snd (upsert_devices rows d))"
    and "\<And>rows d. P d \<Longrightarrow> P (snd (upsert_entities rows d))" and "P d"
  shows "P (snd (upsert_all p sid ts d))"
proof -
  let ?as = "map (area_row_of sid ts) (filter (\<lambda>a. truthy (get_s a ''area_id'')) (pl_areas p))"
  let ?ds = "map (device_row_of sid ts) (filter (\<lambda>x. truthy (get_s x ''device_id'')) (pl_devices p))"
  obtain r1 d1 where 1: "upsert_areas ?as d = (r1, d1)" by fastforce
  obtain r2 d2 where 2: "upsert_devices ?ds d1 = (r2, d2)" by fastforce
  have "P d1" using assms(1) [OF assms(4), of ?as] 1 by simp
  moreover from this have "P d2" using assms(2) [of d1 ?ds] 2 by simp
  ultimately show ?thesis
    unfolding upsert_all_def 1 prod.case 2
    by (auto split: sum.split intro: assms(3))
qed

lemma apply_topology_inv:
  assumes "P (snd (insert_if_changed sha p ts None d))"
    and "\<And>sid d. P d \<Longrightarrow> P (snd (upsert_all p sid ts d))"
  shows "P (snd (snd (apply_topology sha p ts (idx, d))))"
proof -
  obtain r1 d1 where 1: "insert_if_changed sha p ts None d = (r1, d1)" by fastforce
  then have "P d1" using assms(1) by simp
  then have "P (snd (upsert_all p i ts d1))" for i by (rule assms(2))
  with \<open>P d1\<close> show ?thesis
    unfolding apply_topology_def 1 prod.case
    by (auto split: sum.split prod.split) (metis snd_conv)+
qed

lemma upsert_all_wf [inv_intros]: "db_wf d \<Longrightarrow> db_wf (snd (upsert_all p sid ts d))"
  by (rule upsert_all_inv [where P = db_wf]) (auto intro: inv_intros)

lemma apply_topology_wf [inv_intros]:
  "db_wf d \<Longrightarrow> db_wf (snd (snd (apply_topology sha p ts (idx, d))))"
  by (rule apply_topology_inv [where P = db_wf]) (auto intro: inv_intros)

lemma upsert_all_frame [db_frame]:
  "db_events (snd (upsert_all p sid ts d)) = db_events d"
  "db_counters (snd (upsert_all p sid ts d)) = db_counters d"
  "db_drops (snd (upsert_all p sid ts d)) = db_drops d"
  "db_snapshots (snd (upsert_all p sid ts d)) = db_snapshots d"
  using upsert_all_inv [of "\<lambda>x. db_events x = db_events d"]
    upsert_all_inv [of "\<lambda>x. db_counters x = db_counters d"]
    upsert_all_inv [of "\<lambda>x. db_drops x = db_drops d"]
    upsert_all_inv [of "\<lambda>x. db_snapshots x = db_snapshots d"]
  by (simp_all add: db_frame)

lemma apply_topology_frame [db_frame]:
  "db_events (snd (snd (apply_topology sha p ts (idx, d)))) = db_events d"
  "db_counters (snd (snd (apply_topology sha p ts (idx, d)))) = db_counters d"
  "db_drops (snd (snd (apply_topology sha p ts (idx, d)))) = db_drops d"
  using apply_topology_inv [of "\<lambda>x. db_events x = db_events d"]
    apply_topology_inv [of "\<lambda>x. db_counters x = db_counters d"]
    apply_topology_inv [of "\<lambda>x. db_drops x = db_drops d"]
  by (simp_all add: db_frame)

lemma apply_topology_no_faults [db_frame]:
  "db_faults d = [] \<Longrightarrow> db_faults (snd (snd (apply_topology sha p ts (idx, d)))) = []"
  by (rule apply_topology_inv [where P = "\<lambda>x. db_faults x = []"] upsert_all_inv [where P = "\<lambda>x. db_faults x = []"]
      | simp add: db_frame)+

end
