(* ===== verification/Regex.thy ===== *)
theory Regex
  imports Prelude
begin

text \<open>
  The part of Python's \<open>re\<close> that the program applies to its own, fixed patterns: regular
  expressions over character classes, matched by Brzozowski derivatives, with the language they
  denote as the specification. \<open>rx_match\<close> is \<open>fullmatch\<close>, \<open>rx_search\<close> is \<open>search\<close>. Patterns that a
  user supplies are compiled by \<open>re.compile\<close>, which stays a parameter of the model.
\<close>

datatype rx =
    RNone
  | REps
  | RSet "char \<Rightarrow> bool"
  | RSeq rx rx
  | RAlt rx rx
  | RStar rx

abbreviation RChr :: "char \<Rightarrow> rx" where
  "RChr c \<equiv> RSet (\<lambda>x. x = c)"

abbreviation RAny :: rx where
  "RAny \<equiv> RStar (RSet (\<lambda>_. True))"

text \<open>A sequence of expressions.\<close>

fun rseq :: "rx list \<Rightarrow> rx" where
  "rseq [] = REps"
| "rseq [r] = r"
| "rseq (r # s # rs) = RSeq r (rseq (s # rs))"

section \<open>The language\<close>

inductive in_rx :: "rx \<Rightarrow> string \<Rightarrow> bool" where
  eps: "in_rx REps []"
| set: "P c \<Longrightarrow> in_rx (RSet P) [c]"
| seq: "in_rx r u \<Longrightarrow> in_rx s v \<Longrightarrow> in_rx (RSeq r s) (u @ v)"
| alt1: "in_rx r u \<Longrightarrow> in_rx (RAlt r s) u"
| alt2: "in_rx s u \<Longrightarrow> in_rx (RAlt r s) u"
| star0: "in_rx (RStar r) []"
| star1: "in_rx r u \<Longrightarrow> in_rx (RStar r) v \<Longrightarrow> in_rx (RStar r) (u @ v)"

inductive_simps in_rx_none [simp]: "in_rx RNone u"
inductive_simps in_rx_eps [simp]: "in_rx REps u"
inductive_simps in_rx_set [simp]: "in_rx (RSet P) u"
inductive_simps in_rx_seq: "in_rx (RSeq r s) u"
inductive_simps in_rx_alt [simp]: "in_rx (RAlt r s) u"
inductive_cases in_rx_starE: "in_rx (RStar r) u"

section \<open>The matcher\<close>

fun nullable :: "rx \<Rightarrow> bool" where
  "nullable RNone = False"
| "nullable REps = True"
| "nullable (RSet P) = False"
| "nullable (RSeq r s) = (nullable r \<and> nullable s)"
| "nullable (RAlt r s) = (nullable r \<or> nullable s)"
| "nullable (RStar r) = True"

text \<open>Constructors that drop the trivial parts, to keep derivatives small.\<close>

fun mk_seq :: "rx \<Rightarrow> rx \<Rightarrow> rx" where
  "mk_seq RNone s = RNone"
| "mk_seq REps s = s"
| "mk_seq r s = RSeq r s"

fun mk_alt :: "rx \<Rightarrow> rx \<Rightarrow> rx" where
  "mk_alt RNone s = s"
| "mk_alt r RNone = r"
| "mk_alt r s = RAlt r s"

fun deriv :: "char \<Rightarrow> rx \<Rightarrow> rx" where
  "deriv c RNone = RNone"
| "deriv c REps = RNone"
| "deriv c (RSet P) = (if P c then REps else RNone)"
| "deriv c (RSeq r s) =
     (if nullable r then mk_alt (mk_seq (deriv c r) s) (deriv c s) else mk_seq (deriv c r) s)"
| "deriv c (RAlt r s) = mk_alt (deriv c r) (deriv c s)"
| "deriv c (RStar r) = mk_seq (deriv c r) (RStar r)"

fun rx_match :: "rx \<Rightarrow> string \<Rightarrow> bool" where
  "rx_match r [] = nullable r"
| "rx_match r (c # s) = rx_match (deriv c r) s"

definition rx_search :: "rx \<Rightarrow> string \<Rightarrow> bool" where
  "rx_search r s = rx_match (RSeq RAny (RSeq r RAny)) s"

section \<open>The matcher decides the language\<close>

lemma nullable_iff: "nullable r \<longleftrightarrow> in_rx r []"
  by (induction r) (auto simp: in_rx_seq intro: in_rx.intros)

lemma in_mk_seq [simp]: "in_rx (mk_seq r s) u \<longleftrightarrow> in_rx (RSeq r s) u"
  by (cases "(r, s)" rule: mk_seq.cases) (auto simp: in_rx_seq)

lemma in_mk_alt [simp]: "in_rx (mk_alt r s) u \<longleftrightarrow> in_rx r u \<or> in_rx s u"
  by (cases "(r, s)" rule: mk_alt.cases) auto

lemma star_Cons:
  "in_rx (RStar r) (c # w) \<longleftrightarrow> (\<exists>u v. w = u @ v \<and> in_rx r (c # u) \<and> in_rx (RStar r) v)"
proof
  assume "in_rx (RStar r) (c # w)"
  then show "\<exists>u v. w = u @ v \<and> in_rx r (c # u) \<and> in_rx (RStar r) v"
  proof (induction "RStar r" "c # w" rule: in_rx.induct)
    case (star1 u v)
    show ?case
    proof (cases u)
      case Nil
      with star1 show ?thesis by simp
    next
      case (Cons a u')
      with star1 show ?thesis by (auto simp: Cons_eq_append_conv)
    qed
  qed
next
  assume "\<exists>u v. w = u @ v \<and> in_rx r (c # u) \<and> in_rx (RStar r) v"
  then obtain u v where "w = u @ v" "in_rx r (c # u)" "in_rx (RStar r) v" by blast
  then have "in_rx (RStar r) ((c # u) @ v)" by (intro in_rx.star1)
  with \<open>w = u @ v\<close> show "in_rx (RStar r) (c # w)" by simp
qed

lemma in_deriv: "in_rx (deriv c r) w \<longleftrightarrow> in_rx r (c # w)"
proof (induction r arbitrary: w)
  case (RSeq r s)
  have "in_rx (RSeq r s) (c # w) \<longleftrightarrow>
      (in_rx r [] \<and> in_rx s (c # w)) \<or> (\<exists>u v. w = u @ v \<and> in_rx r (c # u) \<and> in_rx s v)"
    by (auto simp: in_rx_seq Cons_eq_append_conv)
  with RSeq show ?case by (auto simp: in_rx_seq nullable_iff)
next
  case (RStar r)
  then show ?case by (auto simp: star_Cons in_rx_seq)
qed auto

lemma rx_match_iff: "rx_match r s \<longleftrightarrow> in_rx r s"
  by (induction s arbitrary: r) (simp_all add: nullable_iff in_deriv)

section \<open>Common shapes\<close>

lemma in_star_set: "in_rx (RStar (RSet P)) u \<longleftrightarrow> (\<forall>c \<in> set u. P c)"
proof (induction u)
  case Nil
  then show ?case by (simp add: in_rx.star0)
next
  case (Cons c u)
  then show ?case by (auto simp: star_Cons)
qed

lemma in_seq_set: "in_rx (RSeq (RSet P) r) u \<longleftrightarrow> (\<exists>c v. u = c # v \<and> P c \<and> in_rx r v)"
proof
  assume "in_rx (RSeq (RSet P) r) u"
  then show "\<exists>c v. u = c # v \<and> P c \<and> in_rx r v" by (auto simp: in_rx_seq)
next
  assume "\<exists>c v. u = c # v \<and> P c \<and> in_rx r v"
  then obtain c v where "u = [c] @ v" "in_rx (RSet P) [c]" "in_rx r v" by auto
  then show "in_rx (RSeq (RSet P) r) u" by (auto intro!: in_rx.seq simp del: append_Cons)
qed

lemma rx_search_iff: "rx_search r s \<longleftrightarrow> (\<exists>a u b. s = a @ u @ b \<and> in_rx r u)"
  by (auto simp: rx_search_def rx_match_iff in_rx_seq in_star_set)

end
