(* ===== verification/Privacy.thy ===== *)
theory Privacy
  imports Regex
begin

text \<open>
  \<open>src/ai_ha/privacy/hide_matcher.py\<close>. \<open>compile\<close> stands for \<open>re.compile\<close> of a user's pattern: the
  \<open>fullmatch\<close> predicate of the compiled pattern, or \<open>None\<close> where it raises \<open>re.error\<close>. The guard
  \<open>_REDOS_RE\<close> is the program's own pattern and is modelled literally.
\<close>

section \<open>The complexity guard\<close>

text \<open>\<open>\s\<close> for the code points of the model.\<close>

definition py_space :: "char \<Rightarrow> bool" where
  "py_space c = (let n = of_char c :: nat in
     (9 \<le> n \<and> n \<le> 13) \<or> (28 \<le> n \<and> n \<le> 32) \<or> n = 133 \<or> n = 160)"

definition quantifier :: "char \<Rightarrow> bool" where
  "quantifier c \<longleftrightarrow> c = CHR ''+'' \<or> c = CHR ''*''"

definition not_close :: "char \<Rightarrow> bool" where
  "not_close c \<longleftrightarrow> c \<noteq> CHR '')''"

text \<open>The two alternatives: \<open>\([^)]*[+*][^)]*\)\s*[+*]\<close> and \<open>\(\.\*\)\s*[+*]\<close>.\<close>

definition redos_nested :: rx where
  "redos_nested = rseq [RChr (CHR ''(''), RStar (RSet not_close), RSet quantifier,
     RStar (RSet not_close), RChr (CHR '')''), RStar (RSet py_space), RSet quantifier]"

definition redos_dotstar :: rx where
  "redos_dotstar = rseq [RChr (CHR ''(''), RChr (CHR ''.''), RChr (CHR ''*''),
     RChr (CHR '')''), RStar (RSet py_space), RSet quantifier]"

definition redos_re :: rx where
  "redos_re = RAlt redos_nested redos_dotstar"

text \<open>The exceptions of the constructor.\<close>

datatype hide_error = PatternComplexityError string | ReError string

definition complexity_guard :: "string \<Rightarrow> hide_error + unit" where
  "complexity_guard pattern =
     (if rx_search redos_re pattern then Inl (PatternComplexityError pattern) else Inr ())"

section \<open>HideMatcher\<close>

record hide_matcher =
  hm_compiled :: "(string \<Rightarrow> bool) list"

fun compile_all ::
  "(string \<Rightarrow> (string \<Rightarrow> bool) option) \<Rightarrow> string list \<Rightarrow> hide_error + (string \<Rightarrow> bool) list" where
  "compile_all compile [] = Inr []"
| "compile_all compile (p # ps) =
     (case complexity_guard p of
        Inl e \<Rightarrow> Inl e
      | Inr _ \<Rightarrow>
          (case compile p of
             None \<Rightarrow> Inl (ReError p)
           | Some m \<Rightarrow>
               (case compile_all compile ps of Inl e \<Rightarrow> Inl e | Inr ms \<Rightarrow> Inr (m # ms))))"

definition make_hide_matcher ::
  "(string \<Rightarrow> (string \<Rightarrow> bool) option) \<Rightarrow> string list \<Rightarrow> hide_error + hide_matcher" where
  "make_hide_matcher compile patterns =
     (case compile_all compile patterns of
        Inl e \<Rightarrow> Inl e
      | Inr ms \<Rightarrow> Inr \<lparr>hm_compiled = ms\<rparr>)"

definition matches :: "hide_matcher \<Rightarrow> string \<Rightarrow> bool" where
  "matches m entity_id = list_ex (\<lambda>c. c entity_id) (hm_compiled m)"

section \<open>What the guard accepts\<close>

lemma in_char_seq: "in_rx (RSeq (RChr c) r) u \<longleftrightarrow> (\<exists>v. u = c # v \<and> in_rx r v)"
  by (simp add: in_seq_set)

lemma in_stars_seq:
  "in_rx (RSeq (RStar (RSet P)) r) u \<longleftrightarrow> (\<exists>a v. u = a @ v \<and> (\<forall>c \<in> set a. P c) \<and> in_rx r v)"
  by (simp add: in_rx_seq in_star_set)

lemma not_close_all: "(\<forall>c \<in> set u. not_close c) \<longleftrightarrow> CHR '')'' \<notin> set u"
  by (auto simp only: not_close_def)

lemma in_redos_nested:
  "in_rx redos_nested s \<longleftrightarrow>
     (\<exists>u q v w q'. s = CHR ''('' # u @ q # v @ CHR '')'' # w @ [q'] \<and>
        CHR '')'' \<notin> set u \<and> quantifier q \<and> CHR '')'' \<notin> set v \<and>
        (\<forall>c \<in> set w. py_space c) \<and> quantifier q')"
  unfolding redos_nested_def rseq.simps in_char_seq in_stars_seq not_close_all in_seq_set in_rx_set
  by (rule iffI; elim exE conjE; hypsubst; intro exI conjI; (rule refl | assumption))

lemma in_redos_dotstar:
  "in_rx redos_dotstar s \<longleftrightarrow>
     (\<exists>w q'. s = CHR ''('' # CHR ''.'' # CHR ''*'' # CHR '')'' # w @ [q'] \<and>
        (\<forall>c \<in> set w. py_space c) \<and> quantifier q')"
  unfolding redos_dotstar_def rseq.simps in_char_seq in_stars_seq in_rx_set
  by (rule iffI; elim exE conjE; hypsubst; intro exI conjI; (rule refl | assumption))

lemma redos_dotstar_nested:
  assumes "in_rx redos_dotstar s" shows "in_rx redos_nested s"
proof -
  from assms obtain w q' where
    s: "s = CHR ''('' # CHR ''.'' # CHR ''*'' # CHR '')'' # w @ [q']"
      and w: "\<forall>c \<in> set w. py_space c" and q': "quantifier q'"
    unfolding in_redos_dotstar by blast
  have eq: "s = CHR ''('' # [CHR ''.''] @ CHR ''*'' # [] @ CHR '')'' # w @ [q']"
    by (simp only: s append_Cons append_Nil)
  have dot: "CHR '')'' \<notin> set [CHR ''.'']" by simp
  have nil: "CHR '')'' \<notin> set []" by simp
  have star: "quantifier (CHR ''*'')" by (simp add: quantifier_def)
  show ?thesis
    unfolding in_redos_nested
    by (intro exI conjI) (rule eq dot star nil w q')+
qed

lemma in_redos: "in_rx redos_re s \<longleftrightarrow> in_rx redos_nested s"
  using redos_dotstar_nested by (auto simp: redos_re_def)

section \<open>What a matcher matches\<close>

lemma compile_all_ok_iff:
  "(\<exists>ms. compile_all compile ps = Inr ms) \<longleftrightarrow>
     (\<forall>p \<in> set ps. \<not> rx_search redos_re p \<and> compile p \<noteq> None)"
  by (induction ps) (auto simp: complexity_guard_def split: option.split sum.split)

lemma compile_all_Inr:
  "compile_all compile ps = Inr ms \<Longrightarrow> map Some ms = map compile ps"
  by (induction ps arbitrary: ms)
    (auto simp: complexity_guard_def split: if_splits option.splits sum.splits)

lemma list_ex_Some:
  "map Some ms = map f xs \<Longrightarrow> list_ex Q ms \<longleftrightarrow> (\<exists>x \<in> set xs. \<exists>m. f x = Some m \<and> Q m)"
proof (induction xs arbitrary: ms)
  case Nil
  then show ?case by simp
next
  case (Cons x xs)
  then obtain m ms' where "ms = m # ms'" "f x = Some m" "map Some ms' = map f xs"
    by (cases ms) auto
  with Cons.IH [of ms'] show ?case by auto
qed

lemma matches_patterns:
  assumes "make_hide_matcher compile ps = Inr m"
  shows "matches m eid \<longleftrightarrow> (\<exists>p \<in> set ps. \<exists>f. compile p = Some f \<and> f eid)"
proof -
  from assms have "map Some (hm_compiled m) = map compile ps"
    by (auto simp: make_hide_matcher_def split: sum.splits dest: compile_all_Inr)
  then show ?thesis unfolding matches_def by (rule list_ex_Some)
qed

section \<open>The contract of a matcher\<close>

text \<open>What the guard refuses: a group with a quantifier in it, followed by a quantifier.\<close>

definition nested_quantifier :: "string \<Rightarrow> bool" where
  "nested_quantifier p \<longleftrightarrow>
     (\<exists>a u q v w q' b. p = a @ CHR ''('' # u @ q # v @ CHR '')'' # w @ q' # b \<and>
        CHR '')'' \<notin> set u \<and> quantifier q \<and> CHR '')'' \<notin> set v \<and>
        (\<forall>c \<in> set w. py_space c) \<and> quantifier q')"

lemma search_redos: "rx_search redos_re p \<longleftrightarrow> nested_quantifier p"
proof
  assume "rx_search redos_re p"
  then obtain a s b where p: "p = a @ s @ b" and s: "in_rx redos_nested s"
    unfolding rx_search_iff in_redos by blast
  from s obtain u q v w q' where
    "s = CHR ''('' # u @ q # v @ CHR '')'' # w @ [q']" "CHR '')'' \<notin> set u" "quantifier q"
    "CHR '')'' \<notin> set v" "\<forall>c \<in> set w. py_space c" "quantifier q'"
    unfolding in_redos_nested by blast
  then show "nested_quantifier p"
    unfolding nested_quantifier_def p
    by (intro exI conjI) (simp only: append_assoc append_Cons append_Nil, assumption+)
next
  assume "nested_quantifier p"
  then obtain a u q v w q' b where
    p: "p = a @ CHR ''('' # u @ q # v @ CHR '')'' # w @ q' # b" and
    ok: "CHR '')'' \<notin> set u" "quantifier q" "CHR '')'' \<notin> set v" "\<forall>c \<in> set w. py_space c" "quantifier q'"
    unfolding nested_quantifier_def by blast
  have "in_rx redos_nested (CHR ''('' # u @ q # v @ CHR '')'' # w @ [q'])"
    unfolding in_redos_nested using ok by (intro exI conjI) (rule refl | assumption)+
  moreover have "p = a @ (CHR ''('' # u @ q # v @ CHR '')'' # w @ [q']) @ b"
    by (simp only: p append_assoc append_Cons append_Nil)
  ultimately show "rx_search redos_re p" unfolding rx_search_iff in_redos by blast
qed

lemma compile_all_Inl:
  "compile_all compile ps = Inl e \<Longrightarrow>
     \<exists>p \<in> set ps. e = PatternComplexityError p \<and> nested_quantifier p \<or>
       e = ReError p \<and> \<not> nested_quantifier p \<and> compile p = None"
  by (induction ps)
    (auto simp: complexity_guard_def search_redos split: if_splits option.splits sum.splits)

text \<open>
  C15. A matcher is built exactly when every pattern passes the guard and compiles; it matches
  an entity exactly when one of its patterns matches the whole id. The guard refuses a pattern
  exactly when it has a group with a quantifier in it that a quantifier follows, and a
  refusal names a pattern that offends.
\<close>

theorem hide_matcher_is_the_union:
  "(case make_hide_matcher compile ps of
      Inl e \<Rightarrow> \<exists>p \<in> set ps. e = PatternComplexityError p \<and> nested_quantifier p \<or>
        e = ReError p \<and> \<not> nested_quantifier p \<and> compile p = None
    | Inr m \<Rightarrow> (\<forall>p \<in> set ps. \<not> nested_quantifier p \<and> compile p \<noteq> None) \<and>
        (\<forall>eid. matches m eid \<longleftrightarrow> (\<exists>p \<in> set ps. \<exists>f. compile p = Some f \<and> f eid)))"
proof (cases "make_hide_matcher compile ps")
  case (Inl e)
  then have "compile_all compile ps = Inl e" by (simp add: make_hide_matcher_def split: sum.splits)
  with Inl compile_all_Inl show ?thesis by simp
next
  case (Inr m)
  then have "\<forall>p \<in> set ps. \<not> nested_quantifier p \<and> compile p \<noteq> None"
    using compile_all_ok_iff [of compile ps] by (auto simp: make_hide_matcher_def search_redos split: sum.splits)
  with Inr matches_patterns [OF Inr] show ?thesis by simp
qed

lemma hide_matcher_is_the_union_witness:
  "\<exists>p \<in> set [''lock'', ''(a+)+'']. nested_quantifier p"
proof -
  have "complexity_guard ''lock'' = Inr ()" "complexity_guard ''(a+)+'' = Inl (PatternComplexityError ''(a+)+'')"
    by code_simp+
  then have "make_hide_matcher (\<lambda>p. Some (\<lambda>eid. eid = p)) [''lock'', ''(a+)+''] = Inl (PatternComplexityError ''(a+)+'')"
    by (simp only: make_hide_matcher_def compile_all.simps sum.case option.case)
  with hide_matcher_is_the_union [where compile = "\<lambda>p. Some (\<lambda>eid. eid = p)" and ps = "[''lock'', ''(a+)+'']"]
  show ?thesis by (simp only: sum.case) blast
qed

text \<open>One more pair of parentheses hides the same repetition from the guard.\<close>

lemma guard_misses_inner_groups: "complexity_guard ''((a+))+'' = Inr ()"
  by code_simp

end
