(* ===== verification/Ingest.thy ===== *)
theory Ingest
  imports Batching Orchestrator Privacy
begin

text \<open>
  \<open>src/ai_ha/ingest\<close>: the hour buckets of \<open>counters.py\<close> and the pipeline of \<open>pipeline.py\<close>. Every
  operation that holds the lock is one atomic step; what it wrote before an exception
  stays in the state it returns. \<open>clock\<close> is what \<open>time.time\<close> and \<open>time.monotonic\<close> return during the
  step, in milliseconds.
\<close>

section \<open>Hour buckets\<close>

definition bucket_for :: "int \<Rightarrow> int" where
  "bucket_for ts_ms = ts_ms div 3600000"

record clock =
  ck_wall :: int
  ck_mono :: int

definition now_bucket :: "clock \<Rightarrow> int option \<Rightarrow> int" where
  "now_bucket ck now_ms = (case now_ms of None \<Rightarrow> ck_wall ck | Some t \<Rightarrow> t) div 3600000"

section \<open>The pipeline\<close>

record ha_event =
  he_ts_ms :: int
  he_entity_id :: string
  he_event_type :: string
  he_old_state :: "string option"
  he_new_state :: "string option"
  he_context_user_id :: "string option"
  he_context_parent_id :: "string option"

text \<open>The task of \<open>_periodic_flush\<close>: not created, running, returned, or ended by an exception.\<close>

datatype flush_task = NoTask | Running | Finished | Died err

record pipeline =
  pp_buffer :: "(ha_event \<times> int) list"
  pp_first_added :: "int option"
  pp_batch_size :: int
  pp_batch_interval :: int
  pp_hide :: hide_matcher
  pp_stop :: bool
  pp_task :: flush_task

definition new_pipeline :: "hide_matcher \<Rightarrow> int \<Rightarrow> int \<Rightarrow> pipeline" where
  "new_pipeline hide batch_size batch_interval_ms =
     \<lparr>pp_buffer = [], pp_first_added = None, pp_batch_size = batch_size,
      pp_batch_interval = batch_interval_ms, pp_hide = hide, pp_stop = False, pp_task = NoTask\<rparr>"

definition start :: "pipeline \<Rightarrow> pipeline" where
  "start pl = pl\<lparr>pp_task := Running\<rparr>"

subsection \<open>A commit\<close>

definition event_row_of :: "int \<Rightarrow> entity_index \<Rightarrow> ha_event \<times> int \<Rightarrow> event_row" where
  "event_row_of received_at idx = (\<lambda>(ev, sid).
     (let ref = lookup idx (he_entity_id ev) in
      \<lparr>ev_ts = he_ts_ms ev, ev_received_at = received_at, ev_entity_id = he_entity_id ev,
       ev_event_type = he_event_type ev, ev_old_state = he_old_state ev,
       ev_new_state = he_new_state ev, ev_context_user_id = he_context_user_id ev,
       ev_context_parent_id = he_context_parent_id ev,
       ev_area_id = (case ref of None \<Rightarrow> None | Some r \<Rightarrow> rf_area_id r),
       ev_device_id = (case ref of None \<Rightarrow> None | Some r \<Rightarrow> rf_device_id r),
       ev_device_class = (case ref of None \<Rightarrow> None | Some r \<Rightarrow> rf_device_class r),
       ev_snapshot_id = sid\<rparr>))"

text \<open>The loop over the buffer: the rows, \<open>per_area\<close> and \<open>per_entity_last\<close>.\<close>

type_synonym scan =
  "event_row list \<times> ((string \<times> int) \<times> int) list \<times> (string \<times> int) list"

definition scan_event :: "int \<Rightarrow> entity_index \<Rightarrow> ha_event \<times> int \<Rightarrow> scan \<Rightarrow> scan" where
  "scan_event received_at idx x = (\<lambda>(rows, per_area, per_entity_last).
     (let ev = fst x; r = event_row_of received_at idx x in
      (rows @ [r],
       (case ev_area_id r of
          None \<Rightarrow> per_area
        | Some a \<Rightarrow> if a = [] then per_area else dict_add (a, bucket_for (he_ts_ms ev)) 1 per_area),
       AList.update (he_entity_id ev) (he_ts_ms ev) per_entity_last)))"

definition commit_scan :: "int \<Rightarrow> entity_index \<Rightarrow> (ha_event \<times> int) list \<Rightarrow> scan" where
  "commit_scan received_at idx buf = fold (scan_event received_at idx) buf ([], [], [])"

text \<open>The writes of \<open>_commit_locked\<close>, in its order.\<close>

definition write_batch ::
  "int \<Rightarrow> entity_index \<Rightarrow> (ha_event \<times> int) list \<Rightarrow> db \<Rightarrow> unit res \<times> db" where
  "write_batch received_at idx buf d =
     (case commit_scan received_at idx buf of (rows, per_area, per_entity_last) \<Rightarrow>
      (case insert_events rows d of
         (Inl e, d1) \<Rightarrow> (Inl e, d1)
       | (Inr _, d1) \<Rightarrow>
      (case for_each (\<lambda>((aid, bucket), n). increment_counter aid bucket n) per_area d1 of
         (Inl e, d2) \<Rightarrow> (Inl e, d2)
       | (Inr _, d2) \<Rightarrow>
           for_each (\<lambda>(eid, last_ts). bump_entity_event_counts eid last_ts) per_entity_last d2)))"

definition commit_locked ::
  "clock \<Rightarrow> entity_index \<Rightarrow> pipeline \<times> db \<Rightarrow> unit res \<times> pipeline \<times> db" where
  "commit_locked ck idx = (\<lambda>(pl, d).
     if pp_buffer pl = [] then (Inr (), pl, d)
     else case write_batch (ck_wall ck) idx (pp_buffer pl) d of
        (Inl e, d') \<Rightarrow> (Inl e, pl, d')
      | (Inr _, d') \<Rightarrow> (Inr (), pl\<lparr>pp_buffer := [], pp_first_added := None\<rparr>, d'))"

subsection \<open>The operations\<close>

definition submit ::
  "clock \<Rightarrow> entity_index \<Rightarrow> ha_event \<Rightarrow> pipeline \<times> db \<Rightarrow> unit res \<times> pipeline \<times> db" where
  "submit ck idx event = (\<lambda>(pl, d).
     (let ref = lookup idx (he_entity_id event) in
      if ref \<noteq> None \<and> matches (pp_hide pl) (he_entity_id event) then
        (case increment_privacy_drop (now_bucket ck None) 1 d of (r, d') \<Rightarrow> (r, pl, d'))
      else if ref = None \<and> matches (pp_hide pl) (he_entity_id event) then
        (case increment_privacy_drop (now_bucket ck None) 1 d of (r, d') \<Rightarrow> (r, pl, d'))
      else
        (let snapshot_id = (case ref of None \<Rightarrow> 0 | Some r \<Rightarrow> rf_snapshot_id r);
             pl' = pl\<lparr>pp_buffer := pp_buffer pl @ [(event, snapshot_id)],
                      pp_first_added := (case pp_first_added pl of None \<Rightarrow> Some (ck_mono ck) | Some t \<Rightarrow> Some t)\<rparr>
         in if pp_batch_size pl' \<le> int (length (pp_buffer pl'))
            then commit_locked ck idx (pl', d) else (Inr (), pl', d))))"

definition flush ::
  "clock \<Rightarrow> entity_index \<Rightarrow> pipeline \<times> db \<Rightarrow> unit res \<times> pipeline \<times> db" where
  "flush ck idx s = commit_locked ck idx s"

text \<open>
  One turn of \<open>_periodic_flush\<close> after its wait of 100 ms: the loop ends when the stop event
  is set; an exception of the commit ends the task.
\<close>

definition periodic_tick ::
  "clock \<Rightarrow> entity_index \<Rightarrow> pipeline \<times> db \<Rightarrow> pipeline \<times> db" where
  "periodic_tick ck idx = (\<lambda>(pl, d).
     if pp_task pl \<noteq> Running then (pl, d)
     else if pp_stop pl then (pl\<lparr>pp_task := Finished\<rparr>, d)
     else case pp_first_added pl of
        None \<Rightarrow> (pl, d)
      | Some t \<Rightarrow>
          if pp_batch_interval pl \<le> ck_mono ck - t then
            (case commit_locked ck idx (pl, d) of
               (Inl e, pl', d') \<Rightarrow> (pl'\<lparr>pp_task := Died e\<rparr>, d')
             | (Inr _, pl', d') \<Rightarrow> (pl', d'))
          else (pl, d))"

text \<open>\<open>await self._flush_task\<close> raises what the task raised.\<close>

definition stop ::
  "clock \<Rightarrow> entity_index \<Rightarrow> pipeline \<times> db \<Rightarrow> unit res \<times> pipeline \<times> db" where
  "stop ck idx = (\<lambda>(pl, d).
     (case pp_task pl of
        Died e \<Rightarrow> (Inl e, pl\<lparr>pp_stop := True\<rparr>, d)
      | Running \<Rightarrow> flush ck idx (pl\<lparr>pp_stop := True, pp_task := Finished\<rparr>, d)
      | _ \<Rightarrow> flush ck idx (pl\<lparr>pp_stop := True\<rparr>, d)))"

section \<open>What the scan computes\<close>

text \<open>The rows of an area and hour, as the counters count them.\<close>

definition in_bucket :: "string \<times> int \<Rightarrow> event_row \<Rightarrow> bool" where
  "in_bucket k r \<longleftrightarrow> truthy (ev_area_id r) \<and> ev_area_id r = Some (fst k) \<and> bucket_for (ev_ts r) = snd k"

lemma event_row_of_fields [row_simps]:
  "ev_ts (event_row_of w idx x) = he_ts_ms (fst x)"
  "ev_entity_id (event_row_of w idx x) = he_entity_id (fst x)"
  "ev_event_type (event_row_of w idx x) = he_event_type (fst x)"
  "ev_old_state (event_row_of w idx x) = he_old_state (fst x)"
  "ev_new_state (event_row_of w idx x) = he_new_state (fst x)"
  "ev_context_user_id (event_row_of w idx x) = he_context_user_id (fst x)"
  "ev_context_parent_id (event_row_of w idx x) = he_context_parent_id (fst x)"
  "ev_area_id (event_row_of w idx x) =
     (case lookup idx (he_entity_id (fst x)) of None \<Rightarrow> None | Some r \<Rightarrow> rf_area_id r)"
  "ev_snapshot_id (event_row_of w idx x) = snd x"
  by (simp_all add: event_row_of_def case_prod_unfold Let_def)

lemma scan_rows:
  "fst (fold (scan_event w idx) buf (rows, pa, pl)) = rows @ map (event_row_of w idx) buf"
  by (induction buf arbitrary: rows pa pl) (simp_all add: scan_event_def Let_def)

definition scan_areas :: "int \<Rightarrow> entity_index \<Rightarrow> (ha_event \<times> int) list \<Rightarrow> ((string \<times> int) \<times> int) list" where
  "scan_areas w idx buf = fst (snd (commit_scan w idx buf))"

definition scan_last :: "int \<Rightarrow> entity_index \<Rightarrow> (ha_event \<times> int) list \<Rightarrow> (string \<times> int) list" where
  "scan_last w idx buf = snd (snd (commit_scan w idx buf))"

lemma commit_scan_eq:
  "commit_scan w idx buf = (map (event_row_of w idx) buf, scan_areas w idx buf, scan_last w idx buf)"
  using scan_rows [of w idx buf "[]" "[]" "[]"]
  by (simp add: scan_areas_def scan_last_def commit_scan_def prod_eq_iff)

lemma commit_scan_snoc:
  "commit_scan w idx (buf @ [x]) = scan_event w idx x (commit_scan w idx buf)"
  by (simp add: commit_scan_def)

lemma scan_areas_snoc:
  "scan_areas w idx (buf @ [x]) =
     (case ev_area_id (event_row_of w idx x) of
        None \<Rightarrow> scan_areas w idx buf
      | Some a \<Rightarrow> if a = [] then scan_areas w idx buf
                  else dict_add (a, bucket_for (he_ts_ms (fst x))) 1 (scan_areas w idx buf))"
  by (simp add: scan_areas_def commit_scan_snoc scan_event_def Let_def case_prod_unfold split: option.split)

lemma scan_last_snoc:
  "scan_last w idx (buf @ [x]) = AList.update (he_entity_id (fst x)) (he_ts_ms (fst x)) (scan_last w idx buf)"
  by (simp add: scan_last_def commit_scan_snoc scan_event_def Let_def case_prod_unfold)

lemma scan_Nil [simp]: "scan_areas w idx [] = []" "scan_last w idx [] = []"
  by (simp_all add: scan_areas_def scan_last_def commit_scan_def)

lemma scan_areas_num:
  "dict_num (scan_areas w idx buf) k = count_of (in_bucket k) (map (event_row_of w idx) buf)"
proof (induction buf rule: rev_induct)
  case Nil
  then show ?case by simp
next
  case (snoc x buf)
  then show ?case
    by (cases "ev_area_id (event_row_of w idx x)"; cases k)
      (auto simp: scan_areas_snoc in_bucket_def event_row_of_fields(1))
qed

lemma scan_areas_distinct: "distinct (map fst (scan_areas w idx buf))"
  by (induction buf rule: rev_induct) (auto simp: scan_areas_snoc split: option.split)

lemma scan_areas_pos: "(k, n) \<in> set (scan_areas w idx buf) \<Longrightarrow> 0 < n"
proof (induction buf arbitrary: k n rule: rev_induct)
  case Nil
  then show ?case by simp
next
  case (snoc x buf)
  have step: "0 < m" if "(k', m) \<in> set (dict_add q 1 (scan_areas w idx buf))" for k' m q
  proof -
    have d: "distinct (map fst (dict_add q 1 (scan_areas w idx buf)))"
      using scan_areas_distinct by (rule distinct_dict_add)
    have "dict_num (dict_add q 1 (scan_areas w idx buf)) k' = m"
      using map_of_is_SomeI [OF d that] by (simp add: dict_num_def)
    then have m: "m = dict_num (scan_areas w idx buf) k' + (if k' = q then 1 else 0)" by simp
    show ?thesis
    proof (cases "k' = q")
      case True
      with m show ?thesis by (simp add: scan_areas_num)
    next
      case False
      with that have "k' \<in> fst ` set (scan_areas w idx buf)"
        using set_dict_add [of q 1 "scan_areas w idx buf"] by (metis fst_conv image_eqI insertE)
      then obtain m' where mem: "(k', m') \<in> set (scan_areas w idx buf)" by auto
      then have "dict_num (scan_areas w idx buf) k' = m'"
        using map_of_is_SomeI [OF scan_areas_distinct mem] by (simp add: dict_num_def)
      with m False snoc.IH [OF mem] show ?thesis by simp
    qed
  qed
  from snoc.prems show ?case
    by (auto simp: scan_areas_snoc split: option.splits if_splits intro: snoc.IH step)
qed

lemma scan_last_distinct: "distinct (map fst (scan_last w idx buf))"
  by (induction buf rule: rev_induct) (auto simp: scan_last_snoc distinct_update)

lemma scan_last_keys: "fst ` set (scan_last w idx buf) = (he_entity_id \<circ> fst) ` set buf"
  by (induction buf rule: rev_induct) (auto simp: scan_last_snoc dom_update)

text \<open>The timestamp kept for an entity is the one of its last event in the buffer.\<close>

lemma scan_last_value:
  "map_of (scan_last w idx buf) e =
     map_option (he_ts_ms \<circ> fst) (find (\<lambda>x. he_entity_id (fst x) = e) (rev buf))"
  by (induction buf rule: rev_induct) (auto simp: scan_last_snoc update_conv')

section \<open>What the writes do\<close>

text \<open>The increments of a batch, on a database without faults.\<close>

lemma increments_counter:
  assumes "db_wf d" and "db_faults d = []" and "for_each (\<lambda>((a, b), n). increment_counter a b n) ks d = (r, d')"
  shows "r = Inr () \<and> db_wf d' \<and> db_faults d' = [] \<and>
    counter_of d' k = counter_of d k + (\<Sum>(q, n) \<leftarrow> ks. if q = k then n else 0)"
  using assms
proof (induction ks arbitrary: d)
  case Nil
  then show ?case by simp
next
  case (Cons x ks)
  obtain a b n where x: "x = ((a, b), n)" by (metis surj_pair)
  obtain d1 where 1: "increment_counter a b n d = (Inr (), d1)"
    by (simp add: increment_counter_def Cons.prems(2))
  have wf: "db_wf d1" using increment_counter_wf [OF Cons.prems(1), of a b n] 1 by simp
  have nf: "db_faults d1 = []" using no_faults_kept(5) [OF Cons.prems(2), of a b n] 1 by simp
  have c: "counter_of d1 k = counter_of d k + (if k = (a, b) then n else 0)"
    using counter_of_increment [OF Cons.prems(1,2), of a b n k] 1 by simp
  have "for_each (\<lambda>((a, b), n). increment_counter a b n) ks d1 = (r, d')"
    using Cons.prems(3) by (simp add: x 1)
  from Cons.IH [OF wf nf this] c show ?case by (auto simp: x)
qed

text \<open>On any database, with only positive amounts: never more than the sum.\<close>

lemma increment_counter_le:
  assumes "db_wf d" and "0 \<le> n"
  shows "counter_of d k \<le> counter_of (snd (increment_counter a h n d)) k \<and>
    counter_of (snd (increment_counter a h n d)) k \<le> counter_of d k + (if (a, h) = k then n else 0)"
proof -
  have "tbl_wf fst (db_counters d)" using assms(1) by (simp add: db_wf_def)
  then show ?thesis using assms(2)
    by (simp add: counter_of_def increment_counter_def counters.find_upsert count_update_def
        split: option.split)
qed

lemma increments_between:
  assumes "db_wf d" and "\<forall>(q, n) \<in> set ks. 0 \<le> n"
  shows "counter_of d k \<le> counter_of (snd (for_each (\<lambda>((a, b), n). increment_counter a b n) ks d)) k \<and>
    counter_of (snd (for_each (\<lambda>((a, b), n). increment_counter a b n) ks d)) k \<le>
      counter_of d k + (\<Sum>(q, n) \<leftarrow> ks. if q = k then n else 0)"
  using assms
proof (induction ks arbitrary: d)
  case Nil
  then show ?case by simp
next
  case (Cons x ks)
  obtain a b n where x: "x = ((a, b), n)" by (metis surj_pair)
  obtain r d1 where 1: "increment_counter a b n d = (r, d1)" by fastforce
  have n: "0 \<le> n" using Cons.prems(2) x by simp
  have wf: "db_wf d1" using increment_counter_wf [OF Cons.prems(1), of a b n] 1 by simp
  have c: "counter_of d k \<le> counter_of d1 k" "counter_of d1 k \<le> counter_of d k + (if (a, b) = k then n else 0)"
    using increment_counter_le [OF Cons.prems(1) n, of k a b] 1 by simp_all
  have rest: "0 \<le> (\<Sum>(q, n) \<leftarrow> ks. if q = k then n else 0)"
    using Cons.prems(2) by (intro sum_list_nonneg) auto
  show ?case
  proof (cases r)
    case (Inl e)
    with c rest show ?thesis by (simp add: x 1)
  next
    case (Inr u)
    with Cons.IH [OF wf] Cons.prems(2) c show ?thesis by (force simp: x 1)
  qed
qed

text \<open>Where a batch of writes can stop.\<close>

lemma write_batch_cases:
  assumes "write_batch w idx buf d = (r, d')"
  obtains (rows) e where "r = Inl e" "insert_events (map (event_row_of w idx) buf) d = (Inl e, d')"
  | (areas) e d1 where "r = Inl e" "insert_events (map (event_row_of w idx) buf) d = (Inr (), d1)"
      "for_each (\<lambda>((a, b), n). increment_counter a b n) (scan_areas w idx buf) d1 = (Inl e, d')"
  | (entities) d1 d2 where "insert_events (map (event_row_of w idx) buf) d = (Inr (), d1)"
      "for_each (\<lambda>((a, b), n). increment_counter a b n) (scan_areas w idx buf) d1 = (Inr (), d2)"
      "for_each (\<lambda>(e, t). bump_entity_event_counts e t) (scan_last w idx buf) d2 = (r, d')"
  using assms unfolding write_batch_def commit_scan_eq prod.case
  by (auto split: prod.splits sum.splits)

lemma insert_events_cases:
  assumes "insert_events rows d = (r, d')"
  shows "(r = Inl OperationalError \<and> d' = d\<lparr>db_faults := tl (db_faults d)\<rparr>) \<or>
    (r = Inr () \<and> db_events d' = db_events d @ insert_event_rows rows (db_event_seq d) \<and>
      db_event_seq d' = db_event_seq d + int (length rows))"
  using assms by (auto simp: insert_events_def split: if_splits)

lemma increments_frame [db_frame]:
  "db_events (snd (for_each (\<lambda>((a, b), n). increment_counter a b n) ks d)) = db_events d"
  "db_event_seq (snd (for_each (\<lambda>((a, b), n). increment_counter a b n) ks d)) = db_event_seq d"
  "db_entities (snd (for_each (\<lambda>((a, b), n). increment_counter a b n) ks d)) = db_entities d"
  "db_drops (snd (for_each (\<lambda>((a, b), n). increment_counter a b n) ks d)) = db_drops d"
  "db_areas (snd (for_each (\<lambda>((a, b), n). increment_counter a b n) ks d)) = db_areas d"
  "db_snapshots (snd (for_each (\<lambda>((a, b), n). increment_counter a b n) ks d)) = db_snapshots d"
  by (rule for_each_frame; clarsimp simp: db_frame)+

lemma bumps_frame [db_frame]:
  "db_events (snd (for_each (\<lambda>(e, t). bump_entity_event_counts e t) es d)) = db_events d"
  "db_event_seq (snd (for_each (\<lambda>(e, t). bump_entity_event_counts e t) es d)) = db_event_seq d"
  "db_counters (snd (for_each (\<lambda>(e, t). bump_entity_event_counts e t) es d)) = db_counters d"
  "db_drops (snd (for_each (\<lambda>(e, t). bump_entity_event_counts e t) es d)) = db_drops d"
  "db_areas (snd (for_each (\<lambda>(e, t). bump_entity_event_counts e t) es d)) = db_areas d"
  "db_snapshots (snd (for_each (\<lambda>(e, t). bump_entity_event_counts e t) es d)) = db_snapshots d"
  by (rule for_each_frame; clarsimp simp: db_frame)+

lemma increments_wf [inv_intros]:
  "db_wf d \<Longrightarrow> db_wf (snd (for_each (\<lambda>((a, b), n). increment_counter a b n) ks d))"
  by (rule for_each_inv) (auto intro: inv_intros)

lemma bumps_wf [inv_intros]:
  "db_wf d \<Longrightarrow> db_wf (snd (for_each (\<lambda>(e, t). bump_entity_event_counts e t) es d))"
  by (rule for_each_inv) (auto intro: inv_intros)

lemma write_batch_wf [inv_intros]:
  assumes "db_wf d" shows "db_wf (snd (write_batch w idx buf d))"
proof -
  obtain r d' where eq: "write_batch w idx buf d = (r, d')" by fastforce
  from eq have "db_wf d'"
  proof (cases rule: write_batch_cases)
    case (rows e)
    with insert_events_wf [OF assms, of "map (event_row_of w idx) buf"] show ?thesis by simp
  next
    case (areas e d1)
    have "db_wf d1" using insert_events_wf [OF assms, of "map (event_row_of w idx) buf"] areas by simp
    from increments_wf [OF this, of "scan_areas w idx buf"] areas show ?thesis by simp
  next
    case (entities d1 d2)
    have "db_wf d1" using insert_events_wf [OF assms, of "map (event_row_of w idx) buf"] entities by simp
    from increments_wf [OF this, of "scan_areas w idx buf"] entities have "db_wf d2" by simp
    from bumps_wf [OF this, of "scan_last w idx buf"] entities show ?thesis by simp
  qed
  with eq show ?thesis by simp
qed

text \<open>The event table after a batch: all its rows, or, only if the first write raised, none.\<close>

lemma write_batch_events:
  assumes "write_batch w idx buf d = (r, d')"
  shows "db_events d' = db_events d @ insert_event_rows (map (event_row_of w idx) buf) (db_event_seq d) \<or>
    isl r \<and> db_events d' = db_events d"
  using assms
proof (cases rule: write_batch_cases)
  case (rows e)
  with insert_events_cases [OF rows(2)] show ?thesis by auto
next
  case (areas e d1)
  have "db_events d' = db_events d1"
    using increments_frame(1) [of "scan_areas w idx buf" d1] areas(3) by simp
  with insert_events_cases [OF areas(2)] show ?thesis by auto
next
  case (entities d1 d2)
  have "db_events d2 = db_events d1"
    using increments_frame(1) [of "scan_areas w idx buf" d1] entities(2) by simp
  moreover have "db_events d' = db_events d2"
    using bumps_frame(1) [of "scan_last w idx buf" d2] entities(3) by simp
  ultimately show ?thesis using insert_events_cases [OF entities(1)] by auto
qed

text \<open>An update of \<open>entities\<close> keeps rows and sightings, and counts each entity of a batch at most once.\<close>

definition bump_row :: "int \<Rightarrow> entity_row \<Rightarrow> entity_row" where
  "bump_row t r = r\<lparr>er_event_count_24h := er_event_count_24h r + 1,
     er_total_event_count := er_total_event_count r + 1, er_last_seen_at := t\<rparr>"

lemma bump_row_key [simp]: "er_entity_id (bump_row t r) = er_entity_id r"
  by (simp add: bump_row_def)

lemma bumps_between:
  assumes "distinct (map fst es)" and "tbl_find er_entity_id i (db_entities d) = Some x"
  shows "\<exists>y. tbl_find er_entity_id i (db_entities (snd (for_each (\<lambda>(e, t). bump_entity_event_counts e t) es d))) = Some y \<and>
    er_first_seen_at y = er_first_seen_at x \<and> er_total_event_count x \<le> er_total_event_count y \<and>
    er_total_event_count y \<le> er_total_event_count x + (if i \<in> fst ` set es then 1 else 0)"
  using assms
proof (induction es arbitrary: d x)
  case (Cons p es)
  obtain e t where p: "p = (e, t)" by fastforce
  obtain r d1 where 1: "bump_entity_event_counts e t d = (r, d1)" by fastforce
  have "isl r \<and> db_entities d1 = db_entities d \<or>
      \<not> isl r \<and> db_entities d1 = tbl_update er_entity_id (bump_row t) e (db_entities d)"
    using 1 by (auto simp: bump_entity_event_counts_def bump_row_def [abs_def] split: if_splits)
  then show ?case
  proof
    assume "isl r \<and> db_entities d1 = db_entities d"
    then show ?case using Cons.prems(2) by (auto simp: p 1 isl_def)
  next
    assume u: "\<not> isl r \<and> db_entities d1 = tbl_update er_entity_id (bump_row t) e (db_entities d)"
    define x1 where "x1 = (if i = e then bump_row t x else x)"
    have "tbl_find er_entity_id i (db_entities d1) = Some x1"
      using u Cons.prems(2) by (auto simp: x1_def entities.find_update)
    from Cons.IH [OF _ this] Cons.prems(1) u show ?case
      by (fastforce simp: p 1 x1_def bump_row_def isl_def split: sum.split if_splits)
  qed
qed simp

text \<open>
  Whatever connections fail, a batch adds its rows to the events or none, counts no area's rows twice and no
  entity more often than it has rows, and takes nothing back.
\<close>

lemma write_batch_grows:
  assumes "db_wf d" and "write_batch w idx buf d = (r, d')"
  obtains rows where "rows = [] \<and> isl r \<or> rows = map (event_row_of w idx) buf"
    and "db_events d' = db_events d @ insert_event_rows rows (db_event_seq d)"
    and "\<And>k. counter_of d k \<le> counter_of d' k \<and> counter_of d' k \<le> counter_of d k + count_of (in_bucket k) rows"
    and "\<And>i x. tbl_find er_entity_id i (db_entities d) = Some x \<Longrightarrow>
      \<exists>y. tbl_find er_entity_id i (db_entities d') = Some y \<and> er_first_seen_at y = er_first_seen_at x \<and>
        er_total_event_count x \<le> er_total_event_count y \<and>
        er_total_event_count y \<le> er_total_event_count x + count_of (\<lambda>e. ev_entity_id e = i) rows"
proof -
  let ?rows = "map (event_row_of w idx) buf" and ?pa = "scan_areas w idx buf" and ?last = "scan_last w idx buf"
  have pos: "\<forall>(q, n) \<in> set ?pa. 0 \<le> n" using scan_areas_pos by fastforce
  have loop: "counter_of d1 k \<le> counter_of (snd (for_each (\<lambda>((a, b), n). increment_counter a b n) ?pa d1)) k \<and>
      counter_of (snd (for_each (\<lambda>((a, b), n). increment_counter a b n) ?pa d1)) k \<le>
        counter_of d1 k + count_of (in_bucket k) ?rows" if "db_wf d1" for k d1
    using increments_between [OF that pos, of k] sum_list_dict_num [OF scan_areas_distinct, of k w idx buf]
    by (simp add: scan_areas_num)
  have ins: "db_wf d1 \<and> db_entities d1 = db_entities d \<and> db_counters d1 = db_counters d \<and>
      db_events d1 = db_events d @ insert_event_rows ?rows (db_event_seq d)" if "insert_events ?rows d = (Inr (), d1)" for d1
    using insert_events_frame [of ?rows d] insert_events_wf [OF assms(1), of ?rows] insert_events_cases [OF that] that
    by auto
  have seen: "1 \<le> count_of (\<lambda>e. ev_entity_id e = i) ?rows" if "i \<in> fst ` set ?last" for i
  proof -
    from that have "count_of (\<lambda>e. ev_entity_id e = i) ?rows \<noteq> 0"
      by (auto simp: scan_last_keys count_of_zero_iff row_simps)
    then show ?thesis using count_of_nonneg [of "\<lambda>e. ev_entity_id e = i" ?rows] by linarith
  qed
  from assms(2) show ?thesis
  proof (cases rule: write_batch_cases)
    case (rows e)
    with insert_events_cases [OF rows(2)] insert_events_frame [of ?rows d] show ?thesis
      by (intro that [of "[]"]) (auto simp: counter_of_def)
  next
    case (areas e d1)
    note i = ins [OF areas(2)]
    from areas(3) have "db_events d' = db_events d1" "db_entities d' = db_entities d1"
      using increments_frame(1,3) [of ?pa d1] by simp_all
    with i loop [of d1] areas(3) show ?thesis
      by (intro that [of ?rows]) (auto simp: counter_of_def)
  next
    case (entities d1 d2)
    note i = ins [OF entities(1)]
    from entities(2) have d2: "db_events d2 = db_events d1" "db_entities d2 = db_entities d1"
      using increments_frame(1,3) [of ?pa d1] by simp_all
    have d': "db_events d' = db_events d2" "db_counters d' = db_counters d2"
      using bumps_frame(1,3) [of ?last d2] entities(3) by simp_all
    show ?thesis
    proof (rule that [of ?rows])
      fix k show "counter_of d k \<le> counter_of d' k \<and> counter_of d' k \<le> counter_of d k + count_of (in_bucket k) ?rows"
        using loop [of d1 k] i entities(2) d' by (simp add: counter_of_def)
    next
      fix j x assume "tbl_find er_entity_id j (db_entities d) = Some x"
      then have "tbl_find er_entity_id j (db_entities d2) = Some x" by (simp add: d2 i)
      from bumps_between [OF scan_last_distinct this, of w idx buf] entities(3) seen [of j]
      show "\<exists>y. tbl_find er_entity_id j (db_entities d') = Some y \<and> er_first_seen_at y = er_first_seen_at x \<and>
          er_total_event_count x \<le> er_total_event_count y \<and>
          er_total_event_count y \<le> er_total_event_count x + count_of (\<lambda>e. ev_entity_id e = j) ?rows"
        by (fastforce split: if_splits)
    qed (use i d2 d' in simp_all)
  qed
qed

text \<open>Without faults a batch returns, with every row, count and increment in place.\<close>

lemma bump_ok:
  "db_faults d = [] \<Longrightarrow> bump_entity_event_counts e t d =
     (Inr (), d\<lparr>db_entities := tbl_update er_entity_id (bump_row t) e (db_entities d)\<rparr>)"
  by (simp add: bump_entity_event_counts_def bump_row_def [abs_def])

lemma bumps_ok:
  assumes "db_faults d = []" and "distinct (map fst es)"
  shows "\<exists>d'. for_each (\<lambda>(e, t). bump_entity_event_counts e t) es d = (Inr (), d') \<and> db_faults d' = [] \<and>
    (\<forall>e. tbl_find er_entity_id e (db_entities d') =
       (case map_of es e of
          None \<Rightarrow> tbl_find er_entity_id e (db_entities d)
        | Some t \<Rightarrow> map_option (bump_row t) (tbl_find er_entity_id e (db_entities d))))"
  using assms
proof (induction es arbitrary: d)
  case Nil
  then show ?case by simp
next
  case (Cons x es)
  obtain e t where x: "x = (e, t)" by fastforce
  define d1 where "d1 = d\<lparr>db_entities := tbl_update er_entity_id (bump_row t) e (db_entities d)\<rparr>"
  have 1: "bump_entity_event_counts e t d = (Inr (), d1)"
    using bump_ok [OF Cons.prems(1)] by (simp add: d1_def)
  have nf: "db_faults d1 = []" by (simp add: d1_def Cons.prems(1))
  have e: "map_of es e = None" using Cons.prems(2) by (simp add: x map_of_eq_None_iff)
  have fnd: "tbl_find er_entity_id e' (db_entities d1) =
      (if e' = e then map_option (bump_row t) (tbl_find er_entity_id e' (db_entities d))
       else tbl_find er_entity_id e' (db_entities d))" for e'
    by (simp add: d1_def entities.find_update)
  from Cons.IH [OF nf] Cons.prems(2) obtain d' where
    "for_each (\<lambda>(e, t). bump_entity_event_counts e t) es d1 = (Inr (), d')" "db_faults d' = []"
    "\<And>e. tbl_find er_entity_id e (db_entities d') =
       (case map_of es e of
          None \<Rightarrow> tbl_find er_entity_id e (db_entities d1)
        | Some t \<Rightarrow> map_option (bump_row t) (tbl_find er_entity_id e (db_entities d1)))"
    by auto
  then show ?case by (intro exI [of _ d']) (auto simp: x 1 fnd e split: option.split)
qed

lemma write_batch_ok:
  assumes "db_wf d" and "db_faults d = []"
  obtains d' where "write_batch w idx buf d = (Inr (), d')" "db_faults d' = []"
    "db_events d' = db_events d @ insert_event_rows (map (event_row_of w idx) buf) (db_event_seq d)"
    "\<And>k. counter_of d' k = counter_of d k + count_of (in_bucket k) (map (event_row_of w idx) buf)"
    "\<And>e. tbl_find er_entity_id e (db_entities d') =
       (case map_of (scan_last w idx buf) e of
          None \<Rightarrow> tbl_find er_entity_id e (db_entities d)
        | Some t \<Rightarrow> map_option (bump_row t) (tbl_find er_entity_id e (db_entities d)))"
proof -
  define d1 where "d1 = snd (insert_events (map (event_row_of w idx) buf) d)"
  have 1: "insert_events (map (event_row_of w idx) buf) d = (Inr (), d1)"
    by (simp add: d1_def insert_events_ok [OF assms(2)])
  have nf1: "db_faults d1 = []" by (simp add: d1_def insert_events_ok [OF assms(2)] assms(2))
  have wf1: "db_wf d1" using insert_events_wf [OF assms(1)] by (simp add: d1_def)
  have c1: "counter_of d1 k = counter_of d k" for k
    by (simp add: d1_def counter_of_def db_frame)
  have e1: "db_entities d1 = db_entities d" by (simp add: d1_def db_frame)
  obtain r2 d2 where 2: "for_each (\<lambda>((a, b), n). increment_counter a b n) (scan_areas w idx buf) d1 = (r2, d2)"
    by fastforce
  note inc = increments_counter [OF wf1 nf1 2]
  have c2: "counter_of d2 k = counter_of d k + count_of (in_bucket k) (map (event_row_of w idx) buf)" for k
    using inc [of k] sum_list_dict_num [OF scan_areas_distinct, of k w idx buf]
    by (simp add: c1 scan_areas_num)
  have e2: "db_entities d2 = db_entities d" and v2: "db_events d2 = db_events d1"
    using increments_frame(1,3) [of "scan_areas w idx buf" d1] 2 e1 by simp_all
  from bumps_ok [of d2, OF _ scan_last_distinct] inc obtain d' where
    3: "for_each (\<lambda>(e, t). bump_entity_event_counts e t) (scan_last w idx buf) d2 = (Inr (), d')"
      "db_faults d' = []"
      "\<forall>e. tbl_find er_entity_id e (db_entities d') =
       (case map_of (scan_last w idx buf) e of
          None \<Rightarrow> tbl_find er_entity_id e (db_entities d2)
        | Some t \<Rightarrow> map_option (bump_row t) (tbl_find er_entity_id e (db_entities d2)))"
    by blast
  have v3: "db_events d' = db_events d1" and c3: "db_counters d' = db_counters d2"
    using bumps_frame(1,3) [of "scan_last w idx buf" d2] 3(1) v2 by simp_all
  show thesis
  proof (rule that)
    show "write_batch w idx buf d = (Inr (), d')"
      using inc 2 by (simp add: write_batch_def commit_scan_eq 1 3(1))
    show "db_events d' = db_events d @ insert_event_rows (map (event_row_of w idx) buf) (db_event_seq d)"
      by (simp add: v3 d1_def insert_events_ok [OF assms(2)])
    show "counter_of d' k = counter_of d k + count_of (in_bucket k) (map (event_row_of w idx) buf)" for k
      using c2 [of k] by (simp add: counter_of_def c3)
    show "tbl_find er_entity_id e (db_entities d') =
       (case map_of (scan_last w idx buf) e of
          None \<Rightarrow> tbl_find er_entity_id e (db_entities d)
        | Some t \<Rightarrow> map_option (bump_row t) (tbl_find er_entity_id e (db_entities d)))" for e
      using 3(3) by (simp only: e2)
  qed (rule 3(2))
qed

end
