(* ===== verification/IngestSystem.thy ===== *)
theory IngestSystem
  imports Ingest
begin

text \<open>
  The pipeline at work: its operations, the topology refresh that replaces the entity index
  (\<open>orchestrator.py\<close>) and the reload of the privacy patterns (\<open>on_cfg_change\<close> of \<open>main.py\<close> assigns
  \<open>pipeline._hide\<close>), in any order, on one database whose connections may fail. \<open>write_batch\<close> is
  interpreted as a sink, commit and submit are shown to be the batcher's operations, and the
  invariants of every run follow from the contract.
\<close>

section \<open>Runs\<close>

datatype op =
    Start
  | Submit clock ha_event
  | Flush clock
  | Tick clock
  | Stop clock
  | ApplyTopology payload int
  | SetHide hide_matcher

record isys =
  is_pipe :: pipeline
  is_idx :: entity_index
  is_db :: db

text \<open>An operation returns or raises; either way the system goes on in the state it left.\<close>

definition istep :: "(string \<Rightarrow> string) \<Rightarrow> op \<Rightarrow> isys \<Rightarrow> unit res \<times> isys" where
  "istep sha op s =
     (let upd = (\<lambda>(r, pl, d). (r, s\<lparr>is_pipe := pl, is_db := d\<rparr>)) in
      case op of
        Start \<Rightarrow> (Inr (), s\<lparr>is_pipe := start (is_pipe s)\<rparr>)
      | Submit ck ev \<Rightarrow> upd (submit ck (is_idx s) ev (is_pipe s, is_db s))
      | Flush ck \<Rightarrow> upd (flush ck (is_idx s) (is_pipe s, is_db s))
      | Tick ck \<Rightarrow> upd (Inr (), periodic_tick ck (is_idx s) (is_pipe s, is_db s))
      | Stop ck \<Rightarrow> upd (stop ck (is_idx s) (is_pipe s, is_db s))
      | ApplyTopology p ts \<Rightarrow>
          (case apply_topology sha p ts (is_idx s, is_db s) of
             (Inl e, idx, d) \<Rightarrow> (Inl e, s\<lparr>is_idx := idx, is_db := d\<rparr>)
           | (Inr _, idx, d) \<Rightarrow> (Inr (), s\<lparr>is_idx := idx, is_db := d\<rparr>))
      | SetHide m \<Rightarrow> (Inr (), s\<lparr>is_pipe := (is_pipe s)\<lparr>pp_hide := m\<rparr>\<rparr>))"

fun irun :: "(string \<Rightarrow> string) \<Rightarrow> op list \<Rightarrow> isys \<Rightarrow> isys" where
  "irun sha [] s = s"
| "irun sha (x # xs) s = irun sha xs (snd (istep sha x s))"

definition new_isys :: "hide_matcher \<Rightarrow> int \<Rightarrow> int \<Rightarrow> bool list \<Rightarrow> isys" where
  "new_isys hide batch_size batch_interval_ms faults =
     \<lparr>is_pipe = new_pipeline hide batch_size batch_interval_ms, is_idx = [],
      is_db = empty_db\<lparr>db_faults := faults\<rparr>\<rparr>"

text \<open>Inputs of the examples.\<close>

definition state_change :: "int \<Rightarrow> string \<Rightarrow> ha_event" where
  "state_change ts eid = \<lparr>he_ts_ms = ts, he_entity_id = eid, he_event_type = ''state_changed'',
     he_old_state = None, he_new_state = None, he_context_user_id = None, he_context_parent_id = None\<rparr>"

lemma state_change_fields [row_simps]:
  "he_ts_ms (state_change ts eid) = ts" "he_entity_id (state_change ts eid) = eid"
  by (simp_all add: state_change_def)

definition at :: "int \<Rightarrow> clock" where
  "at ms = \<lparr>ck_wall = ms, ck_mono = ms\<rparr>"

section \<open>The log of the pipeline\<close>

text \<open>What a stored row keeps of the submitted event, with the snapshot id of the submission.\<close>

definition event_core :: "event_row \<Rightarrow> ha_event \<times> int" where
  "event_core r = (\<lparr>he_ts_ms = ev_ts r, he_entity_id = ev_entity_id r, he_event_type = ev_event_type r,
     he_old_state = ev_old_state r, he_new_state = ev_new_state r,
     he_context_user_id = ev_context_user_id r, he_context_parent_id = ev_context_parent_id r\<rparr>,
     ev_snapshot_id r)"

lemma event_core_row [simp]: "event_core (event_row_of w idx x) = x"
  by (cases x; cases "fst x") (simp add: event_core_def row_simps)

definition persisted :: "db \<Rightarrow> (ha_event \<times> int) list" where
  "persisted d = map (event_core \<circ> snd) (db_events d)"

definition pending :: "isys \<Rightarrow> (ha_event \<times> int) list" where
  "pending s = pp_buffer (is_pipe s)"

definition hidden :: "pipeline \<Rightarrow> ha_event \<Rightarrow> bool" where
  "hidden pl ev \<longleftrightarrow> matches (pp_hide pl) (he_entity_id ev)"

text \<open>The event with the snapshot id that \<open>submit\<close> stores beside it.\<close>

definition tagged :: "entity_index \<Rightarrow> ha_event \<Rightarrow> ha_event \<times> int" where
  "tagged idx ev = (ev, case lookup idx (he_entity_id ev) of None \<Rightarrow> 0 | Some r \<Rightarrow> rf_snapshot_id r)"

definition accepted_by :: "op \<Rightarrow> isys \<Rightarrow> (ha_event \<times> int) list" where
  "accepted_by op s =
     (case op of
        Submit ck ev \<Rightarrow> if hidden (is_pipe s) ev then [] else [tagged (is_idx s) ev]
      | _ \<Rightarrow> [])"

fun accepted :: "(string \<Rightarrow> string) \<Rightarrow> op list \<Rightarrow> isys \<Rightarrow> (ha_event \<times> int) list" where
  "accepted sha [] s = []"
| "accepted sha (x # xs) s = accepted_by x s @ accepted sha xs (snd (istep sha x s))"

text \<open>The submissions the privacy patterns drop.\<close>

definition dropped_by :: "op \<Rightarrow> isys \<Rightarrow> int" where
  "dropped_by op s = (case op of Submit ck ev \<Rightarrow> if hidden (is_pipe s) ev then 1 else 0 | _ \<Rightarrow> 0)"

fun dropped :: "(string \<Rightarrow> string) \<Rightarrow> op list \<Rightarrow> isys \<Rightarrow> int" where
  "dropped sha [] s = 0"
| "dropped sha (x # xs) s = dropped_by x s + dropped sha xs (snd (istep sha x s))"

section \<open>The writes of a commit are a sink\<close>

lemma persisted_append:
  "db_events d' = db_events d @ insert_event_rows (map (event_row_of w idx) buf) n \<Longrightarrow>
     persisted d' = persisted d @ buf"
proof -
  have "map (event_core \<circ> snd) (insert_event_rows (map (event_row_of w idx) buf) n) =
      map event_core (map snd (insert_event_rows (map (event_row_of w idx) buf) n))"
    by (simp only: list.map_comp)
  also have "\<dots> = buf" by (simp only: insert_event_rows_snd list.map_comp) (simp add: comp_def)
  finally show "db_events d' = db_events d @ insert_event_rows (map (event_row_of w idx) buf) n \<Longrightarrow> ?thesis"
    by (simp add: persisted_def)
qed

interpretation sink: batch_sink "write_batch w idx" persisted "\<lambda>x. x" "\<lambda>d. db_wf d \<and> db_faults d = []"
  for w idx
proof
  fix xs d u d'
  assume "write_batch w idx xs d = (Inr u, d')"
  from write_batch_events [OF this] show "persisted d' = persisted d @ map (\<lambda>x. x) xs"
    using persisted_append by auto
next
  fix xs d e d'
  assume "write_batch w idx xs d = (Inl e, d')"
  from write_batch_events [OF this]
  have "persisted d' = persisted d @ xs \<or> persisted d' = persisted d @ []"
    using persisted_append by (auto simp: persisted_def)
  then show "\<exists>ys. persisted d' = persisted d @ ys \<and> set ys \<subseteq> (\<lambda>x. x) ` set xs"
    by fastforce
next
  fix xs d
  assume "db_wf d \<and> db_faults d = []"
  then obtain d' where "write_batch w idx xs d = (Inr (), d')" "db_faults d' = []"
    by (metis write_batch_ok)
  then show "\<exists>d'. write_batch w idx xs d = (Inr (), d') \<and> db_wf d' \<and> db_faults d' = []"
    using write_batch_wf [of d w idx xs] \<open>db_wf d \<and> db_faults d = []\<close> by auto
qed

section \<open>The pipeline is a batcher\<close>

text \<open>What the batcher sees of the pipeline: its buffer and its sink.\<close>

definition view :: "unit res \<times> pipeline \<times> db \<Rightarrow> unit res \<times> (ha_event \<times> int) list \<times> db" where
  "view = (\<lambda>(r, pl, d). (r, pp_buffer pl, d))"

lemma commit_view:
  "view (commit_locked ck idx (pl, d)) = batch_commit (write_batch (ck_wall ck) idx) (pp_buffer pl, d)"
  by (auto simp: view_def commit_locked_def batch_commit_def split: prod.split sum.split)

lemma submit_hidden:
  "hidden pl ev \<Longrightarrow> submit ck idx ev (pl, d) =
     (case increment_privacy_drop (now_bucket ck None) 1 d of (r, d') \<Rightarrow> (r, pl, d'))"
  by (auto simp: submit_def hidden_def Let_def)

lemma submit_view:
  "\<not> hidden pl ev \<Longrightarrow> view (submit ck idx ev (pl, d)) =
     batch_push (write_batch (ck_wall ck) idx) (pp_batch_size pl) (tagged idx ev) (pp_buffer pl, d)"
  by (simp add: submit_def hidden_def Let_def tagged_def batch_push_def commit_view [unfolded view_def] view_def)

section \<open>Steps\<close>

lemma persisted_cong: "db_events d' = db_events d \<Longrightarrow> persisted d' = persisted d"
  by (simp add: persisted_def)

text \<open>The batcher's view of one step.\<close>

definition iheld :: "isys \<Rightarrow> (ha_event \<times> int) list" where
  "iheld s = persisted (is_db s) @ pending s"

lemma iheld_sink: "iheld s = sink.held (pp_buffer (is_pipe s), is_db s)"
  by (simp add: iheld_def sink.held_def pending_def)

lemma viewD: "view (r, pl, d) = (r', b, e) \<Longrightarrow> r' = r \<and> b = pp_buffer pl \<and> e = d"
  by (simp add: view_def)

text \<open>A tick and a stop either do nothing to the buffer and the database or commit.\<close>

lemma tick_cases:
  assumes "periodic_tick ck idx (pl, d) = (pl', d')"
  shows "(pp_buffer pl' = pp_buffer pl \<and> d' = d) \<or>
    (\<exists>r. view (commit_locked ck idx (pl, d)) = (r, pp_buffer pl', d'))"
  using assms by (auto simp: periodic_tick_def view_def split: if_splits option.splits sum.splits prod.splits)

lemma commit_view_cong:
  "pp_buffer pl = pp_buffer pl' \<Longrightarrow> view (commit_locked ck idx (pl, d)) = view (commit_locked ck idx (pl', d))"
  by (simp add: commit_view)

lemma stop_cases:
  assumes "stop ck idx (pl, d) = (r, pl', d')"
  shows "(isl r \<and> pp_buffer pl' = pp_buffer pl \<and> d' = d) \<or>
    view (commit_locked ck idx (pl, d)) = (r, pp_buffer pl', d')"
proof (cases "pp_task pl")
  case (Died e)
  with assms show ?thesis by (auto simp: stop_def)
next
  case Running
  with assms have "commit_locked ck idx (pl\<lparr>pp_stop := True, pp_task := Finished\<rparr>, d) = (r, pl', d')"
    by (simp add: stop_def flush_def)
  then show ?thesis
    using commit_view_cong [of pl "pl\<lparr>pp_stop := True, pp_task := Finished\<rparr>"] by (simp add: view_def)
next
  case NoTask
  with assms have "commit_locked ck idx (pl\<lparr>pp_stop := True\<rparr>, d) = (r, pl', d')"
    by (simp add: stop_def flush_def)
  then show ?thesis
    using commit_view_cong [of pl "pl\<lparr>pp_stop := True\<rparr>"] by (simp add: view_def)
next
  case Finished
  with assms have "commit_locked ck idx (pl\<lparr>pp_stop := True\<rparr>, d) = (r, pl', d')"
    by (simp add: stop_def flush_def)
  then show ?thesis
    using commit_view_cong [of pl "pl\<lparr>pp_stop := True\<rparr>"] by (simp add: view_def)
qed

text \<open>
  What a step can be: nothing for the batcher (\<open>persisted\<close> and the buffer stay),
  a commit of the buffer, or a push of an accepted event.
\<close>

text \<open>An operation that accepts nothing leaves buffer and table alone, or commits.\<close>

lemma maybe_commit:
  assumes "s' = s\<lparr>is_pipe := pl, is_db := d\<rparr>"
    and "(pp_buffer pl = pp_buffer (is_pipe s) \<and> d = is_db s) \<or>
      (\<exists>r. view (commit_locked ck (is_idx s) (is_pipe s, is_db s)) = (r, pp_buffer pl, d))"
  obtains "persisted (is_db s') = persisted (is_db s)" "pending s' = pending s"
  | r where "batch_commit (write_batch (ck_wall ck) (is_idx s)) (pending s, is_db s) = (r, pending s', is_db s')"
  using assms by (auto simp: commit_view pending_def)

lemma istep_cases:
  assumes "istep sha op s = (r, s')"
  obtains (frame) "accepted_by op s = []" "persisted (is_db s') = persisted (is_db s)" "pending s' = pending s"
  | (commit) w r' where "accepted_by op s = []"
      "batch_commit (write_batch w (is_idx s)) (pending s, is_db s) = (r', pending s', is_db s')"
  | (push) w n x r' where "accepted_by op s = [x]"
      "batch_push (write_batch w (is_idx s)) n x (pending s, is_db s) = (r', pending s', is_db s')"
proof (cases op)
  case (Submit ck ev)
  obtain r1 pl d where eq: "submit ck (is_idx s) ev (is_pipe s, is_db s) = (r1, pl, d)" by (metis surj_pair)
  show thesis
  proof (cases "hidden (is_pipe s) ev")
    case True
    have "pl = is_pipe s \<and> d = snd (increment_privacy_drop (now_bucket ck None) 1 (is_db s))"
      using eq by (simp add: submit_hidden [OF True] case_prod_unfold)
    then show thesis using True Submit assms eq
      by (intro frame) (auto simp: istep_def accepted_by_def pending_def db_frame intro!: persisted_cong)
  next
    case False
    from submit_view [OF False, of ck "is_idx s" "is_db s"] show thesis using False Submit assms eq
      by (intro push [of "tagged (is_idx s) ev" "ck_wall ck" "pp_batch_size (is_pipe s)" r1])
        (auto simp: istep_def accepted_by_def pending_def view_def)
  qed
next
  case (Flush ck)
  obtain r1 pl d where eq: "flush ck (is_idx s) (is_pipe s, is_db s) = (r1, pl, d)" by (metis surj_pair)
  show thesis
  proof (rule maybe_commit [where s = s and s' = s' and pl = pl and d = d and ck = ck])
    show "s' = s\<lparr>is_pipe := pl, is_db := d\<rparr>" using Flush assms eq by (simp add: istep_def)
    show "(pp_buffer pl = pp_buffer (is_pipe s) \<and> d = is_db s) \<or>
        (\<exists>r. view (commit_locked ck (is_idx s) (is_pipe s, is_db s)) = (r, pp_buffer pl, d))"
      using eq by (simp add: flush_def view_def)
  qed (use Flush in \<open>auto simp: accepted_by_def intro: frame commit\<close>)
next
  case (Tick ck)
  obtain pl d where eq: "periodic_tick ck (is_idx s) (is_pipe s, is_db s) = (pl, d)" by (metis surj_pair)
  show thesis
  proof (rule maybe_commit [where s = s and s' = s' and pl = pl and d = d and ck = ck])
    show "s' = s\<lparr>is_pipe := pl, is_db := d\<rparr>" using Tick assms eq by (simp add: istep_def)
  qed (use Tick tick_cases [OF eq] in \<open>auto simp: accepted_by_def intro: frame commit\<close>)
next
  case (Stop ck)
  obtain r1 pl d where eq: "stop ck (is_idx s) (is_pipe s, is_db s) = (r1, pl, d)" by (metis surj_pair)
  show thesis
  proof (rule maybe_commit [where s = s and s' = s' and pl = pl and d = d and ck = ck])
    show "s' = s\<lparr>is_pipe := pl, is_db := d\<rparr>" using Stop assms eq by (simp add: istep_def)
  qed (use Stop stop_cases [OF eq] in \<open>auto simp: accepted_by_def intro: frame commit\<close>)
next
  case (ApplyTopology p ts)
  obtain r1 idx d where eq: "apply_topology sha p ts (is_idx s, is_db s) = (r1, idx, d)" by (metis surj_pair)
  then have "db_events d = db_events (is_db s)"
    using apply_topology_frame(1) [of sha p ts "is_idx s" "is_db s"] by simp
  then show thesis using ApplyTopology assms eq
    by (intro frame) (auto simp: istep_def accepted_by_def pending_def intro!: persisted_cong split: sum.splits)
qed (use assms in \<open>auto simp: istep_def accepted_by_def pending_def start_def intro!: frame\<close>)

section \<open>Invariants of the database along a run\<close>

lemma commit_locked_inv:
  assumes "\<And>w buf. P (snd (write_batch w idx buf d))" and "P d"
  shows "P (snd (snd (commit_locked ck idx (pl, d))))"
proof -
  have "P d'" if "write_batch (ck_wall ck) idx (pp_buffer pl) d = (r, d')" for r d'
    using assms(1) [of "ck_wall ck" "pp_buffer pl"] that by simp
  with assms(2) show ?thesis
    by (auto simp: commit_locked_def split: prod.split sum.split)
qed

lemma istep_db_inv:
  assumes "\<And>w idx buf d. P d \<Longrightarrow> P (snd (write_batch w idx buf d))"
    and "\<And>h d. P d \<Longrightarrow> P (snd (increment_privacy_drop h 1 d))"
    and "\<And>p ts idx d. P d \<Longrightarrow> P (snd (snd (apply_topology sha p ts (idx, d))))"
    and "P (is_db s)"
  shows "P (is_db (snd (istep sha op s)))"
proof -
  have c: "P (snd (snd (commit_locked ck idx (pl, is_db s))))" for ck idx pl
    by (rule commit_locked_inv) (use assms in auto)
  show ?thesis
  proof (cases op)
    case (Submit ck ev)
    show ?thesis
    proof (cases "hidden (is_pipe s) ev")
      case True
      then show ?thesis using assms(2) [OF assms(4)]
        by (auto simp: Submit istep_def submit_hidden case_prod_unfold Let_def)
    next
      case False
      then show ?thesis using c assms(4)
        by (auto simp: Submit istep_def submit_def hidden_def case_prod_unfold Let_def)
    qed
  next
    case (Flush ck)
    then show ?thesis using c by (simp add: istep_def flush_def case_prod_unfold)
  next
    case (Tick ck)
    then show ?thesis using c assms(4)
      by (auto simp: istep_def periodic_tick_def case_prod_unfold split: option.split sum.split)
  next
    case (Stop ck)
    then show ?thesis using c assms(4)
      by (auto simp: istep_def stop_def flush_def case_prod_unfold split: flush_task.split)
  next
    case (ApplyTopology p ts)
    then show ?thesis using assms(3) [OF assms(4)]
      by (auto simp: istep_def case_prod_unfold split: sum.split)
  qed (use assms(4) in \<open>auto simp: istep_def\<close>)
qed

lemma istep_wf [inv_intros]: "db_wf (is_db s) \<Longrightarrow> db_wf (is_db (snd (istep sha op s)))"
  by (rule istep_db_inv) (auto intro: inv_intros)

definition healthy :: "db \<Rightarrow> bool" where
  "healthy d \<longleftrightarrow> db_wf d \<and> db_faults d = []"

lemma healthy_empty [simp]: "healthy empty_db"
  by (simp add: healthy_def db_wf_empty)

lemma write_batch_healthy: "healthy d \<Longrightarrow> healthy (snd (write_batch w idx buf d))"
  unfolding healthy_def using write_batch_wf write_batch_ok [of d w idx buf] by (metis snd_conv)

lemma istep_healthy: "healthy (is_db s) \<Longrightarrow> healthy (is_db (snd (istep sha op s)))"
  by (rule istep_db_inv [where P = healthy])
    (simp_all add: write_batch_healthy, auto simp: healthy_def db_frame intro: inv_intros)

lemma irun_inv:
  assumes "\<And>op s. P s \<Longrightarrow> P (snd (istep sha op s))" and "P s"
  shows "P (irun sha ops s)"
  using assms(2) by (induction ops arbitrary: s) (auto intro: assms(1))

lemma irun_wf: "db_wf (is_db s) \<Longrightarrow> db_wf (is_db (irun sha ops s))"
  by (rule irun_inv [where P = "\<lambda>s. db_wf (is_db s)"]) (auto intro: inv_intros)

lemma irun_healthy: "healthy (is_db s) \<Longrightarrow> healthy (is_db (irun sha ops s))"
  by (rule irun_inv [where P = "\<lambda>s. healthy (is_db s)"]) (auto intro: istep_healthy)

section \<open>What a run keeps of the accepted events\<close>

lemma held_eq: "sink.held (pending s, is_db s) = iheld s"
  by (simp add: iheld_def sink.held_def)

lemma istep_healthy_held:
  assumes "healthy (is_db s)"
  shows "iheld (snd (istep sha op s)) = iheld s @ accepted_by op s"
proof -
  obtain r s' where eq: "istep sha op s = (r, s')" by fastforce
  have h: "db_wf (is_db s) \<and> db_faults (is_db s) = []" using assms by (simp add: healthy_def)
  from eq have "iheld s' = iheld s @ accepted_by op s"
  proof (cases rule: istep_cases)
    case frame
    then show ?thesis by (simp add: iheld_def)
  next
    case (commit w r')
    from sink.commit_healthy [OF h, of w "is_idx s" "pending s"] commit show ?thesis
      by (auto simp: iheld_def)
  next
    case (push w n x r')
    from sink.push_healthy [OF h, of w "is_idx s" n x "pending s"] push show ?thesis
      by (auto simp: iheld_def sink.held_def)
  qed
  with eq show ?thesis by simp
qed

lemma istep_keeps: "set (iheld (snd (istep sha op s))) = set (iheld s @ accepted_by op s)"
proof -
  obtain r s' where eq: "istep sha op s = (r, s')" by fastforce
  from eq have "set (iheld s') = set (iheld s @ accepted_by op s)"
  proof (cases rule: istep_cases)
    case frame
    then show ?thesis by (simp add: iheld_def)
  next
    case (commit w r')
    from sink.commit_keeps [OF commit(2)] show ?thesis by (simp add: commit(1) held_eq)
  next
    case (push w n x r')
    from sink.push_keeps [OF push(2)] show ?thesis by (simp add: push(1) held_eq)
  qed
  with eq show ?thesis by simp
qed

lemma irun_held:
  "healthy (is_db s) \<Longrightarrow> iheld (irun sha ops s) = iheld s @ accepted sha ops s"
  by (induction ops arbitrary: s) (simp_all add: istep_healthy istep_healthy_held)

lemma irun_keeps: "set (iheld (irun sha ops s)) = set (iheld s @ accepted sha ops s)"
  by (induction ops arbitrary: s) (auto simp: istep_keeps)

section \<open>Privacy drops\<close>

lemma drops_frame_commit: "db_drops (snd (write_batch w idx buf d)) = db_drops d"
proof -
  obtain r d' where eq: "write_batch w idx buf d = (r, d')" by fastforce
  let ?rows = "map (event_row_of w idx) buf"
  from eq have "db_drops d' = db_drops d"
  proof (cases rule: write_batch_cases)
    case (rows e)
    with insert_events_frame(4) [of ?rows d] show ?thesis by simp
  next
    case (areas e d1)
    with insert_events_frame(4) [of ?rows d] increments_frame(4) [of "scan_areas w idx buf" d1]
    show ?thesis by simp
  next
    case (entities d1 d2)
    with insert_events_frame(4) [of ?rows d] increments_frame(4) [of "scan_areas w idx buf" d1]
      bumps_frame(4) [of "scan_last w idx buf" d2]
    show ?thesis by simp
  qed
  with eq show ?thesis by simp
qed

lemma commit_locked_drops: "db_drops (snd (snd (commit_locked ck idx (pl, d)))) = db_drops d"
  by (rule commit_locked_inv [where P = "\<lambda>x. db_drops x = db_drops d"]) (simp_all add: drops_frame_commit)

lemma istep_drops:
  assumes "healthy (is_db s)"
  shows "drop_total (is_db (snd (istep sha op s))) = drop_total (is_db s) + dropped_by op s"
proof -
  have c: "drop_total (snd (snd (commit_locked ck idx (pl, is_db s)))) = drop_total (is_db s)" for ck idx pl
    by (simp add: drop_total_def commit_locked_drops)
  show ?thesis
  proof (cases op)
    case (Submit ck ev)
    show ?thesis
    proof (cases "hidden (is_pipe s) ev")
      case True
      then show ?thesis using assms drop_total_increment [of "is_db s" "now_bucket ck None" 1]
        by (simp add: Submit istep_def submit_hidden case_prod_unfold dropped_by_def healthy_def)
    next
      case False
      then show ?thesis using c
        by (auto simp: Submit istep_def submit_def hidden_def case_prod_unfold Let_def dropped_by_def)
    qed
  next
    case (Flush ck)
    then show ?thesis using c by (simp add: istep_def flush_def case_prod_unfold dropped_by_def)
  next
    case (Tick ck)
    then show ?thesis using c
      by (auto simp: istep_def periodic_tick_def case_prod_unfold dropped_by_def split: option.split sum.split)
  next
    case (Stop ck)
    then show ?thesis using c
      by (auto simp: istep_def stop_def flush_def case_prod_unfold dropped_by_def split: flush_task.split)
  next
    case (ApplyTopology p ts)
    then show ?thesis
      by (auto simp: istep_def case_prod_unfold dropped_by_def drop_total_def db_frame split: sum.split)
  qed (auto simp: istep_def dropped_by_def)
qed

lemma irun_drops:
  "healthy (is_db s) \<Longrightarrow> drop_total (is_db (irun sha ops s)) = drop_total (is_db s) + dropped sha ops s"
  by (induction ops arbitrary: s) (simp_all add: istep_healthy istep_drops)

section \<open>Counters\<close>

text \<open>The rows of the event table in an area and hour.\<close>

definition events_in :: "string \<times> int \<Rightarrow> db \<Rightarrow> int" where
  "events_in k d = count_of (in_bucket k) (map snd (db_events d))"

lemma events_in_append:
  "db_events d' = db_events d @ insert_event_rows rows n \<Longrightarrow>
     events_in k d' = events_in k d + count_of (in_bucket k) rows"
  by (simp add: events_in_def)

definition counters_exact :: "db \<Rightarrow> bool" where
  "counters_exact d \<longleftrightarrow> (\<forall>k. counter_of d k = events_in k d)"

definition counters_below :: "db \<Rightarrow> bool" where
  "counters_below d \<longleftrightarrow> (\<forall>k. counter_of d k \<le> events_in k d)"

lemma write_batch_exact:
  assumes "healthy d" and "counters_exact d"
  shows "counters_exact (snd (write_batch w idx buf d))"
proof -
  from assms(1) have "db_wf d" "db_faults d = []" by (simp_all add: healthy_def)
  then obtain d' where "write_batch w idx buf d = (Inr (), d')"
    "db_events d' = db_events d @ insert_event_rows (map (event_row_of w idx) buf) (db_event_seq d)"
    "\<And>k. counter_of d' k = counter_of d k + count_of (in_bucket k) (map (event_row_of w idx) buf)"
    by (metis write_batch_ok)
  with assms(2) show ?thesis by (simp add: counters_exact_def events_in_append)
qed

lemma write_batch_below:
  assumes "db_wf d" and "counters_below d"
  shows "counters_below (snd (write_batch w idx buf d))"
proof -
  obtain r d' where eq: "write_batch w idx buf d = (r, d')" by fastforce
  from write_batch_grows [OF assms(1) this] obtain rows where
    "db_events d' = db_events d @ insert_event_rows rows (db_event_seq d)"
    "\<And>k. counter_of d' k \<le> counter_of d k + count_of (in_bucket k) rows" by metis
  moreover have "counter_of d k \<le> events_in k d" for k using assms(2) unfolding counters_below_def by blast
  ultimately show ?thesis by (simp add: counters_below_def events_in_append eq) (meson add_right_mono order_trans)
qed

lemma counters_cong:
  assumes "db_events d' = db_events d" and "db_counters d' = db_counters d"
  shows "counters_exact d' = counters_exact d" and "counters_below d' = counters_below d"
  using assms by (simp_all add: counters_exact_def counters_below_def counter_of_def events_in_def)

lemma irun_counters_exact:
  assumes "healthy (is_db s)" and "counters_exact (is_db s)"
  shows "counters_exact (is_db (irun sha ops s))"
proof -
  have "healthy (is_db (irun sha ops s)) \<and> counters_exact (is_db (irun sha ops s))"
  proof (rule irun_inv [where P = "\<lambda>s. healthy (is_db s) \<and> counters_exact (is_db s)"])
    fix op and s :: isys assume "healthy (is_db s) \<and> counters_exact (is_db s)"
    then show "healthy (is_db (snd (istep sha op s))) \<and> counters_exact (is_db (snd (istep sha op s)))"
      by (intro istep_db_inv [where P = "\<lambda>d. healthy d \<and> counters_exact d"])
        (simp_all add: write_batch_healthy write_batch_exact,
         auto simp: healthy_def db_frame counters_cong(1) [OF drop_frame(3) drop_frame(5)]
           counters_cong(1) [OF apply_topology_frame(1,2)] intro: inv_intros)
  qed (use assms in simp)
  then show ?thesis by simp
qed

lemma irun_counters_below:
  assumes "db_wf (is_db s)" and "counters_below (is_db s)"
  shows "counters_below (is_db (irun sha ops s))"
proof -
  have "db_wf (is_db (irun sha ops s)) \<and> counters_below (is_db (irun sha ops s))"
  proof (rule irun_inv [where P = "\<lambda>s. db_wf (is_db s) \<and> counters_below (is_db s)"])
    fix op and s :: isys assume "db_wf (is_db s) \<and> counters_below (is_db s)"
    then show "db_wf (is_db (snd (istep sha op s))) \<and> counters_below (is_db (snd (istep sha op s)))"
      by (intro istep_db_inv [where P = "\<lambda>d. db_wf d \<and> counters_below d"])
        (simp_all add: write_batch_below, auto simp: counters_cong(2) [OF drop_frame(3) drop_frame(5)]
           counters_cong(2) [OF apply_topology_frame(1,2)] intro: inv_intros)
  qed (use assms in simp)
  then show ?thesis by simp
qed

end
