(* ===== verification/Tasks.thy ===== *)
theory Tasks
  imports IngestSystem
begin

text \<open>
  The pipeline under \<open>asyncio\<close>. \<open>Ingest\<close> takes an operation that holds the lock as one step; here a task
  can be suspended at every \<open>await\<close>: while it waits for the lock, between two database calls of
  \<open>_commit_locked\<close>, and between the calls of a topology refresh, of which several may run at once
  (\<open>initial_sync\<close> and the handler of registry messages). \<open>asyncio.Lock\<close> serves its waiters in order of
  arrival; one database call is one transaction.
\<close>

section \<open>State\<close>

datatype request =
    RSubmit "ha_event \<times> int"
  | RFlush
  | RTick

text \<open>Where the holder of the lock is in \<open>_commit_locked\<close>, and whether it is the flush task.\<close>

datatype holder =
    Free
  | Inserting bool "event_row list" "((string \<times> int) \<times> int) list" "(string \<times> int) list"
  | Counting bool "((string \<times> int) \<times> int) list" "(string \<times> int) list"
  | Bumping bool "(string \<times> int) list"

text \<open>Where a refresh is in \<open>TopologyOrchestrator.apply\<close>: payload, time or snapshot id and time.\<close>

datatype refresh =
    RSelect payload int
  | RInsert payload int
  | RAreas payload int int
  | RDevices payload int int
  | REntities payload int int
  | RSwap payload int

record csys =
  cs_pipe :: pipeline
  cs_idx :: entity_index
  cs_db :: db
  cs_queue :: "request list"
  cs_holder :: holder
  cs_refreshes :: "refresh list"

definition new_csys :: "hide_matcher \<Rightarrow> int \<Rightarrow> int \<Rightarrow> csys" where
  "new_csys hide batch_size batch_interval_ms =
     \<lparr>cs_pipe = start (new_pipeline hide batch_size batch_interval_ms), cs_idx = [], cs_db = empty_db,
      cs_queue = [], cs_holder = Free, cs_refreshes = []\<rparr>"

section \<open>The holder of the lock\<close>

text \<open>\<open>_commit_locked\<close> up to its first \<open>await\<close>: the scan of the buffer.\<close>

definition begin_commit :: "bool \<Rightarrow> clock \<Rightarrow> csys \<Rightarrow> csys" where
  "begin_commit by_tick ck s =
     (if pp_buffer (cs_pipe s) = [] then s
      else case commit_scan (ck_wall ck) (cs_idx s) (pp_buffer (cs_pipe s)) of
        (rows, per_area, per_entity_last) \<Rightarrow>
          s\<lparr>cs_holder := Inserting by_tick rows per_area per_entity_last\<rparr>)"

text \<open>The lock is free and goes to the first waiter.\<close>

definition grant :: "clock \<Rightarrow> csys \<Rightarrow> csys" where
  "grant ck s =
     (case cs_queue s of
        [] \<Rightarrow> s
      | RSubmit x # q \<Rightarrow>
          (let pl = cs_pipe s;
               pl' = pl\<lparr>pp_buffer := pp_buffer pl @ [x],
                        pp_first_added := (case pp_first_added pl of None \<Rightarrow> Some (ck_mono ck) | Some t \<Rightarrow> Some t)\<rparr>;
               s' = s\<lparr>cs_pipe := pl', cs_queue := q\<rparr>
           in if pp_batch_size pl' \<le> int (length (pp_buffer pl')) then begin_commit False ck s' else s')
      | RFlush # q \<Rightarrow> begin_commit False ck (s\<lparr>cs_queue := q\<rparr>)
      | RTick # q \<Rightarrow>
          (case pp_first_added (cs_pipe s) of
             None \<Rightarrow> s\<lparr>cs_queue := q\<rparr>
           | Some t \<Rightarrow>
               if pp_batch_interval (cs_pipe s) \<le> ck_mono ck - t then begin_commit True ck (s\<lparr>cs_queue := q\<rparr>)
               else s\<lparr>cs_queue := q\<rparr>))"

text \<open>An exception releases the lock and goes to the caller; it ends the flush task.\<close>

definition release_failed :: "bool \<Rightarrow> err \<Rightarrow> csys \<Rightarrow> csys" where
  "release_failed by_tick e s =
     s\<lparr>cs_holder := Free, cs_pipe := (if by_tick then (cs_pipe s)\<lparr>pp_task := Died e\<rparr> else cs_pipe s)\<rparr>"

definition after :: "bool \<Rightarrow> unit res \<times> db \<Rightarrow> holder \<Rightarrow> csys \<Rightarrow> csys" where
  "after by_tick rd next s =
     (case rd of
        (Inl e, d) \<Rightarrow> release_failed by_tick e (s\<lparr>cs_db := d\<rparr>)
      | (Inr _, d) \<Rightarrow> s\<lparr>cs_db := d, cs_holder := next\<rparr>)"

text \<open>The next database call of the holder, or the end of its commit.\<close>

fun work :: "holder \<Rightarrow> csys \<Rightarrow> csys" where
  "work Free s = s"
| "work (Inserting b rows pa pl) s = after b (insert_events rows (cs_db s)) (Counting b pa pl) s"
| "work (Counting b (((aid, bucket), n) # pa) pl) s =
     after b (increment_counter aid bucket n (cs_db s)) (Counting b pa pl) s"
| "work (Counting b [] pl) s = s\<lparr>cs_holder := Bumping b pl\<rparr>"
| "work (Bumping b ((eid, last_ts) # pl)) s =
     after b (bump_entity_event_counts eid last_ts (cs_db s)) (Bumping b pl) s"
| "work (Bumping b []) s =
     s\<lparr>cs_holder := Free, cs_pipe := (cs_pipe s)\<lparr>pp_buffer := [], pp_first_added := None\<rparr>\<rparr>"

definition work_on :: "csys \<Rightarrow> csys" where
  "work_on s = work (cs_holder s) s"

text \<open>The exception of the holder's next database call.\<close>

fun call_error :: "holder \<Rightarrow> db \<Rightarrow> err option" where
  "call_error (Inserting b rows pa pl) d = (case fst (insert_events rows d) of Inl e \<Rightarrow> Some e | Inr _ \<Rightarrow> None)"
| "call_error (Counting b (((aid, bucket), n) # pa) pl) d =
     (case fst (increment_counter aid bucket n d) of Inl e \<Rightarrow> Some e | Inr _ \<Rightarrow> None)"
| "call_error (Bumping b ((eid, last_ts) # pl)) d =
     (case fst (bump_entity_event_counts eid last_ts d) of Inl e \<Rightarrow> Some e | Inr _ \<Rightarrow> None)"
| "call_error h d = None"

section \<open>A refresh\<close>

text \<open>
  \<open>insert_if_changed\<close> reads and writes in two statements; a payload that another refresh has stored
  in between meets the \<open>UNIQUE\<close> constraint of the table.
\<close>

definition insert_snapshot :: "(string \<Rightarrow> string) \<Rightarrow> payload \<Rightarrow> int \<Rightarrow> db \<Rightarrow> int res \<times> db" where
  "insert_snapshot sha p ts_ms d =
     (if hash_hex sha p \<in> sn_payload_hash ` set (db_snapshots d)
      then (Inl (IntegrityConstraint ''topology_snapshots.payload_hash''), d)
      else let i = db_snap_seq d + 1 in
        (Inr i, d\<lparr>db_snapshots := db_snapshots d @
            [\<lparr>sn_id = i, sn_ts = ts_ms, sn_payload_hash = hash_hex sha p,
              sn_payload = to_canonical_json p, sn_diff_summary = None\<rparr>],
          db_snap_seq := i\<rparr>))"

text \<open>The next step of a refresh: it goes on, or it has returned or raised (\<open>None\<close>).\<close>

fun refresh_step ::
  "(string \<Rightarrow> string) \<Rightarrow> refresh \<Rightarrow> entity_index \<times> db \<Rightarrow> refresh option \<times> entity_index \<times> db" where
  "refresh_step sha (RSelect p ts) (idx, d) =
     (case connect (\<lambda>d. (Inr (find (\<lambda>r. sn_payload_hash r = hash_hex sha p) (db_snapshots d)), d)) d of
        (Inl e, d) \<Rightarrow> (None, idx, d)
      | (Inr None, d) \<Rightarrow> (Some (RInsert p ts), idx, d)
      | (Inr (Some row), d) \<Rightarrow> (Some (RSwap p (sn_id row)), idx, d))"
| "refresh_step sha (RInsert p ts) (idx, d) =
     (case insert_snapshot sha p ts d of
        (Inl e, d) \<Rightarrow> (None, idx, d)
      | (Inr sid, d) \<Rightarrow> (Some (RAreas p sid ts), idx, d))"
| "refresh_step sha (RAreas p sid ts) (idx, d) =
     (case upsert_areas (map (area_row_of sid ts) (filter (\<lambda>a. truthy (get_s a ''area_id'')) (pl_areas p))) d of
        (Inl e, d) \<Rightarrow> (None, idx, d)
      | (Inr _, d) \<Rightarrow> (Some (RDevices p sid ts), idx, d))"
| "refresh_step sha (RDevices p sid ts) (idx, d) =
     (case upsert_devices (map (device_row_of sid ts) (filter (\<lambda>x. truthy (get_s x ''device_id'')) (pl_devices p))) d of
        (Inl e, d) \<Rightarrow> (None, idx, d)
      | (Inr _, d) \<Rightarrow> (Some (REntities p sid ts), idx, d))"
| "refresh_step sha (REntities p sid ts) (idx, d) =
     (case device_to_area_strict (pl_devices p) of
        Inl e \<Rightarrow> (None, idx, d)
      | Inr d2a \<Rightarrow>
          (case upsert_entities (map (entity_row_of d2a sid ts)
              (filter (\<lambda>e. truthy (get_s e ''entity_id'')) (pl_entities p))) d of
             (Inl e, d) \<Rightarrow> (None, idx, d)
           | (Inr _, d) \<Rightarrow> (Some (RSwap p sid), idx, d)))"
| "refresh_step sha (RSwap p sid) (idx, d) = (None, rebuild_from_payload p sid idx, d)"

definition put_refresh :: "nat \<Rightarrow> refresh option \<Rightarrow> refresh list \<Rightarrow> refresh list" where
  "put_refresh i r rs = (case r of None \<Rightarrow> take i rs @ drop (Suc i) rs | Some r \<Rightarrow> rs[i := r])"

section \<open>Steps and runs\<close>

text \<open>
  A step that leaves the lock to its holder, with the event that a submission puts in the queue. The flush task may still
  ask for the lock after the flag was set: its timeout can expire together with it.
\<close>

inductive estep :: "(string \<Rightarrow> string) \<Rightarrow> csys \<Rightarrow> (ha_event \<times> int) list \<Rightarrow> csys \<Rightarrow> bool" for sha where
  drop_hidden: "hidden (cs_pipe s) ev \<Longrightarrow>
    increment_privacy_drop (now_bucket ck None) 1 (cs_db s) = (r, d) \<Longrightarrow> estep sha s [] (s\<lparr>cs_db := d\<rparr>)"
| ask_submit: "\<not> hidden (cs_pipe s) ev \<Longrightarrow>
    estep sha s [tagged (cs_idx s) ev] (s\<lparr>cs_queue := cs_queue s @ [RSubmit (tagged (cs_idx s) ev)]\<rparr>)"
| ask_flush: "estep sha s [] (s\<lparr>cs_queue := cs_queue s @ [RFlush]\<rparr>)"
| ask_tick: "pp_task (cs_pipe s) = Running \<Longrightarrow> estep sha s [] (s\<lparr>cs_queue := cs_queue s @ [RTick]\<rparr>)"
| begin_refresh: "estep sha s [] (s\<lparr>cs_refreshes := cs_refreshes s @ [RSelect p ts]\<rparr>)"
| refresh: "i < length (cs_refreshes s) \<Longrightarrow>
    refresh_step sha (cs_refreshes s ! i) (cs_idx s, cs_db s) = (r, idx, d) \<Longrightarrow>
    estep sha s [] (s\<lparr>cs_idx := idx, cs_db := d, cs_refreshes := put_refresh i r (cs_refreshes s)\<rparr>)"
| set_hide: "estep sha s [] (s\<lparr>cs_pipe := (cs_pipe s)\<lparr>pp_hide := m\<rparr>\<rparr>)"

text \<open>The flush task neither waits for the lock nor holds it: it sleeps, or looks at the flag.\<close>

fun held_by_task :: "holder \<Rightarrow> bool" where
  "held_by_task Free \<longleftrightarrow> False"
| "held_by_task (Inserting b rows pa pl) \<longleftrightarrow> b"
| "held_by_task (Counting b pa pl) \<longleftrightarrow> b"
| "held_by_task (Bumping b pl) \<longleftrightarrow> b"

definition task_idle :: "csys \<Rightarrow> bool" where
  "task_idle s \<longleftrightarrow> RTick \<notin> set (cs_queue s) \<and> \<not> held_by_task (cs_holder s)"

text \<open>A step of any task; the lock goes to its first waiter, its holder goes on, the stop flag is set, or the flush task sees it.\<close>

inductive cstep :: "(string \<Rightarrow> string) \<Rightarrow> csys \<Rightarrow> (ha_event \<times> int) list \<Rightarrow> csys \<Rightarrow> bool" for sha where
  env: "estep sha s xs s' \<Longrightarrow> cstep sha s xs s'"
| lock: "cs_holder s = Free \<Longrightarrow> cs_queue s \<noteq> [] \<Longrightarrow> cstep sha s [] (grant ck s)"
| go_on: "cs_holder s \<noteq> Free \<Longrightarrow> cstep sha s [] (work_on s)"
| set_stop: "cstep sha s [] (s\<lparr>cs_pipe := (cs_pipe s)\<lparr>pp_stop := True\<rparr>\<rparr>)"
| task_ends: "pp_task (cs_pipe s) = Running \<Longrightarrow> pp_stop (cs_pipe s) \<Longrightarrow> task_idle s \<Longrightarrow>
    cstep sha s [] (s\<lparr>cs_pipe := (cs_pipe s)\<lparr>pp_task := Finished\<rparr>\<rparr>)"

text \<open>A run, with the events submitted along it.\<close>

inductive cruns :: "(string \<Rightarrow> string) \<Rightarrow> csys \<Rightarrow> (ha_event \<times> int) list \<Rightarrow> csys \<Rightarrow> bool" for sha where
  here: "cruns sha s [] s"
| more: "cruns sha s tr s' \<Longrightarrow> cstep sha s' xs s'' \<Longrightarrow> cruns sha s (tr @ xs) s''"

end
