(* ===== verification/Interleaving.thy ===== *)
theory Interleaving
  imports Tasks
begin

text \<open>
  The log of the pipeline and its counters in every interleaving of \<open>Tasks\<close>: with a database that answers, with
  connections that fail, and what two refreshes at once can do.
\<close>

section \<open>What the environment of the holder leaves alone\<close>

lemma insert_snapshot_facts:
  "db_events (snd (insert_snapshot sha p ts d)) = db_events d"
  "db_counters (snd (insert_snapshot sha p ts d)) = db_counters d"
  "db_faults (snd (insert_snapshot sha p ts d)) = db_faults d"
  by (simp_all add: insert_snapshot_def Let_def)

text \<open>Reading and inserting without a step in between is \<open>insert_if_changed\<close>.\<close>

lemma insert_if_changed_steps:
  "insert_if_changed sha p ts None d =
     (case connect (\<lambda>d. (Inr (find (\<lambda>r. sn_payload_hash r = hash_hex sha p) (db_snapshots d)), d)) d of
        (Inl e, d) \<Rightarrow> (Inl e, d)
      | (Inr (Some row), d) \<Rightarrow> (Inr (sn_id row, False), d)
      | (Inr None, d) \<Rightarrow> (case insert_snapshot sha p ts d of
          (Inl e, d) \<Rightarrow> (Inl e, d) | (Inr sid, d) \<Rightarrow> (Inr (sid, True), d)))"
proof (cases "find (\<lambda>r. sn_payload_hash r = hash_hex sha p) (db_snapshots d)")
  case None
  then have "hash_hex sha p \<notin> sn_payload_hash ` set (db_snapshots d)"
    by (auto simp: find_None_iff image_iff)
  with None show ?thesis by (simp add: insert_if_changed_def insert_snapshot_def connect_def Let_def)
qed (simp add: insert_if_changed_def connect_def Let_def)

lemma insert_snapshot_wf [inv_intros]:
  assumes "db_wf d" shows "db_wf (snd (insert_snapshot sha p ts d))"
proof (cases "hash_hex sha p \<in> sn_payload_hash ` set (db_snapshots d)")
  case True
  then show ?thesis using assms by (simp add: insert_snapshot_def)
next
  case False
  then have none: "find (\<lambda>r. sn_payload_hash r = hash_hex sha p) (db_snapshots d) = None"
    by (auto simp: find_None_iff image_iff)
  let ?d = "d\<lparr>db_faults := False # db_faults d\<rparr>"
  have "insert_if_changed sha p ts None ?d =
      (case insert_snapshot sha p ts d of (Inl e, d) \<Rightarrow> (Inl e, d) | (Inr sid, d) \<Rightarrow> (Inr (sid, True), d))"
    unfolding insert_if_changed_steps by (simp add: connect_def Let_def none)
  then have "snd (insert_if_changed sha p ts None ?d) = snd (insert_snapshot sha p ts d)"
    by (simp add: insert_snapshot_def Let_def False)
  moreover have "db_wf ?d" using assms by (simp add: db_wf_def)
  ultimately show ?thesis using insert_if_changed_wf by metis
qed

lemma refresh_step_facts:
  assumes "refresh_step sha r (idx, d) = (r', idx', d')"
  shows "db_events d' = db_events d \<and> db_counters d' = db_counters d"
    and "healthy d \<Longrightarrow> healthy d'"
proof -
  have db: "d' = d \<or> d' = d\<lparr>db_faults := tl (db_faults d)\<rparr> \<or> (\<exists>p ts. d' = snd (insert_snapshot sha p ts d)) \<or>
      (\<exists>rows. d' = snd (upsert_areas rows d)) \<or> (\<exists>rows. d' = snd (upsert_devices rows d)) \<or>
      (\<exists>rows. d' = snd (upsert_entities rows d))"
    using assms
    by (cases "(sha, r, idx, d)" rule: refresh_step.cases)
      (auto simp: connect_def Let_def split: prod.splits sum.splits option.splits if_splits; metis snd_conv)+
  then show "db_events d' = db_events d \<and> db_counters d' = db_counters d"
    by (elim disjE exE) (simp_all add: db_frame insert_snapshot_facts)
  show "healthy d'" if "healthy d"
    using db that unfolding healthy_def
    by (elim disjE exE) (auto simp: db_frame insert_snapshot_facts db_wf_def [of "d\<lparr>db_faults := tl (db_faults d)\<rparr>"]
        intro: inv_intros)
qed

section \<open>The log and the counters at every moment\<close>

text \<open>Events that wait for the lock, and those of the buffer that are not stored yet.\<close>

fun submitted :: "request list \<Rightarrow> (ha_event \<times> int) list" where
  "submitted [] = []"
| "submitted (RSubmit x # q) = x # submitted q"
| "submitted (r # q) = submitted q"

lemma submitted_append [simp]: "submitted (p @ q) = submitted p @ submitted q"
  by (induction p rule: submitted.induct) simp_all

definition waiting :: "csys \<Rightarrow> (ha_event \<times> int) list" where
  "waiting s = submitted (cs_queue s)"

definition unstored :: "csys \<Rightarrow> (ha_event \<times> int) list" where
  "unstored s = (case cs_holder s of
     Counting _ _ _ \<Rightarrow> [] | Bumping _ _ \<Rightarrow> [] | _ \<Rightarrow> pp_buffer (cs_pipe s))"

definition clog :: "csys \<Rightarrow> (ha_event \<times> int) list" where
  "clog s = persisted (cs_db s) @ unstored s @ waiting s"

text \<open>What the running commit still has to add to a counter.\<close>

definition owed :: "csys \<Rightarrow> string \<times> int \<Rightarrow> int" where
  "owed s k = (case cs_holder s of Counting _ pa _ \<Rightarrow> dict_num pa k | _ \<Rightarrow> 0)"

text \<open>The holder's plan is the scan of the buffer; counters and events differ by what is owed.\<close>

definition plan_ok :: "csys \<Rightarrow> bool" where
  "plan_ok s = (case cs_holder s of
     Inserting b rows pa pl \<Rightarrow> \<exists>w idx. rows = map (event_row_of w idx) (pp_buffer (cs_pipe s)) \<and>
       pa = scan_areas w idx (pp_buffer (cs_pipe s))
   | Counting b pa pl \<Rightarrow> distinct (map fst pa) \<and> (\<forall>(k, n) \<in> set pa. 0 < n)
   | _ \<Rightarrow> True)"

definition balanced :: "csys \<Rightarrow> bool" where
  "balanced s \<longleftrightarrow> healthy (cs_db s) \<and> plan_ok s \<and>
     (\<forall>k. counter_of (cs_db s) k + owed s k = events_in k (cs_db s))"

text \<open>A step that leaves holder, buffer, event table and counters alone.\<close>

lemma balanced_frame:
  assumes "balanced s" and "cs_holder s' = cs_holder s" and "pp_buffer (cs_pipe s') = pp_buffer (cs_pipe s)"
    and "db_events (cs_db s') = db_events (cs_db s)" and "db_counters (cs_db s') = db_counters (cs_db s)"
    and "healthy (cs_db s')"
  shows "balanced s' \<and> persisted (cs_db s') @ unstored s' = persisted (cs_db s) @ unstored s"
  using assms
  by (cases "cs_holder s")
    (simp_all add: balanced_def plan_ok_def owed_def unstored_def counter_of_def events_in_def persisted_def)

lemma begin_commit_balanced:
  assumes "balanced s" and "cs_holder s = Free"
  shows "balanced (begin_commit b ck s) \<and> clog (begin_commit b ck s) = clog s"
  using assms by (auto simp: begin_commit_def balanced_def plan_ok_def owed_def clog_def unstored_def waiting_def
      commit_scan_eq)

text \<open>What \<open>grant\<close> does before a commit may begin.\<close>

lemma grant_balanced:
  assumes "balanced s" and "cs_holder s = Free" and "cs_queue s = r # q"
  shows "balanced (grant ck s) \<and> clog (grant ck s) = clog s"
proof (cases r)
  case (RSubmit x)
  let ?pl = "(cs_pipe s)\<lparr>pp_buffer := pp_buffer (cs_pipe s) @ [x],
    pp_first_added := (case pp_first_added (cs_pipe s) of None \<Rightarrow> Some (ck_mono ck) | Some t \<Rightarrow> Some t)\<rparr>"
  let ?s = "s\<lparr>cs_pipe := ?pl, cs_queue := q\<rparr>"
  have f: "balanced ?s" "cs_holder ?s = Free"
    using assms by (simp_all add: balanced_def plan_ok_def owed_def)
  have c: "clog ?s = clog s"
    using assms(2,3) RSubmit by (simp add: clog_def unstored_def waiting_def)
  have "grant ck s = ?s \<or> grant ck s = begin_commit False ck ?s"
    using assms(3) RSubmit by (simp add: grant_def Let_def)
  with begin_commit_balanced [OF f] f c show ?thesis by auto
next
  case RFlush
  let ?s = "s\<lparr>cs_queue := q\<rparr>"
  have f: "balanced ?s" "cs_holder ?s = Free"
    using assms by (simp_all add: balanced_def plan_ok_def owed_def)
  have c: "clog ?s = clog s"
    using assms(2,3) RFlush by (simp add: clog_def unstored_def waiting_def)
  have "grant ck s = begin_commit False ck ?s"
    using assms(3) RFlush by (simp add: grant_def)
  with begin_commit_balanced [OF f] c show ?thesis by auto
next
  case RTick
  let ?s = "s\<lparr>cs_queue := q\<rparr>"
  have f: "balanced ?s" "cs_holder ?s = Free"
    using assms by (simp_all add: balanced_def plan_ok_def owed_def)
  have c: "clog ?s = clog s"
    using assms(2,3) RTick by (simp add: clog_def unstored_def waiting_def)
  have "grant ck s = ?s \<or> grant ck s = begin_commit True ck ?s"
    using assms(3) RTick by (simp add: grant_def split: option.split)
  with begin_commit_balanced [OF f] f c show ?thesis by auto
qed

lemma dict_num_Cons: "distinct (map fst ((k, n) # pa)) \<Longrightarrow> dict_num ((k, n) # pa) k' = (if k' = k then n else 0) + dict_num pa k'"
  using map_of_eq_None_iff [of pa k] by (auto simp: dict_num_def)

lemmas balance_defs = balanced_def plan_ok_def owed_def clog_def unstored_def waiting_def

lemma work_inserting:
  assumes "balanced s" and holder: "cs_holder s = Inserting b rows pa pl"
  shows "balanced (work_on s) \<and> clog (work_on s) = clog s"
proof -
  obtain w idx where p: "rows = map (event_row_of w idx) (pp_buffer (cs_pipe s))"
    "pa = scan_areas w idx (pp_buffer (cs_pipe s))"
    using assms by (auto simp: balanced_def plan_ok_def)
  have h: "db_faults (cs_db s) = []" using assms(1) by (simp add: balanced_def healthy_def)
  define d where "d = snd (insert_events rows (cs_db s))"
  have eq: "insert_events rows (cs_db s) = (Inr (), d)"
    using h by (simp add: d_def insert_events_def connect_def)
  note ins = insert_events_cases [OF eq, simplified]
  have hd: "healthy d" using assms(1) by (auto simp: balanced_def healthy_def d_def db_frame intro: inv_intros)
  have s': "work_on s = s\<lparr>cs_db := d, cs_holder := Counting b pa pl\<rparr>"
    by (simp add: work_on_def holder eq after_def)
  have ev: "persisted d = persisted (cs_db s) @ pp_buffer (cs_pipe s)"
    using ins p(1) persisted_append by simp
  have pos: "\<forall>(k, n) \<in> set (scan_areas w idx buf). 0 < n" for buf using scan_areas_pos by fastforce
  have num: "dict_num pa k = count_of (in_bucket k) rows" for k by (simp only: p scan_areas_num)
  have "counter_of d k + dict_num pa k = events_in k d" for k
  proof -
    have "counter_of d k = counter_of (cs_db s) k" by (simp add: d_def counter_of_def db_frame)
    moreover have "events_in k d = events_in k (cs_db s) + count_of (in_bucket k) rows"
      using ins events_in_append by simp
    moreover have "counter_of (cs_db s) k = events_in k (cs_db s)"
      using assms(1) holder unfolding balanced_def owed_def by (cases k) simp
    ultimately show ?thesis using num [of k] by simp
  qed
  then show ?thesis
    unfolding s' using hd ev holder
    by (simp add: balance_defs p(2) scan_areas_distinct pos)
qed

lemma work_counting:
  assumes "balanced s" and holder: "cs_holder s = Counting b pa pl"
  shows "balanced (work_on s) \<and> clog (work_on s) = clog s"
proof -
  show ?thesis
  proof (cases pa)
    case Nil
    with assms holder show ?thesis
      by (simp add: work_on_def balance_defs)
  next
    case (Cons x rest)
    obtain a h n where x: "x = ((a, h), n)" by (metis surj_pair)
    have hl: "db_wf (cs_db s)" "db_faults (cs_db s) = []" using assms(1) by (simp_all add: balanced_def healthy_def)
    define d where "d = snd (increment_counter a h n (cs_db s))"
    have eq: "increment_counter a h n (cs_db s) = (Inr (), d)"
      using hl by (simp add: d_def increment_counter_def connect_def)
    have hd: "healthy d" using hl by (auto simp: healthy_def d_def db_frame intro: inv_intros)
    have s': "work_on s = s\<lparr>cs_db := d, cs_holder := Counting b rest pl\<rparr>"
      by (simp add: work_on_def holder Cons x eq after_def)
    have dist: "distinct (map fst (((a, h), n) # rest))" "\<forall>(k, n) \<in> set rest. 0 < n"
      using assms(1) holder Cons x by (simp_all add: balanced_def plan_ok_def)
    have "counter_of d k + dict_num rest k = events_in k d" for k
    proof -
      have "counter_of d k = counter_of (cs_db s) k + (if k = (a, h) then n else 0)"
        unfolding d_def by (rule counter_of_increment [OF hl])
      moreover have "events_in k d = events_in k (cs_db s)" by (simp add: events_in_def d_def db_frame)
      moreover have "counter_of (cs_db s) k + dict_num (((a, h), n) # rest) k = events_in k (cs_db s)"
        using assms(1) holder Cons x unfolding balanced_def owed_def by (cases k) simp
      ultimately show ?thesis using dict_num_Cons [OF dist(1), of k] by simp
    qed
    moreover have "persisted d = persisted (cs_db s)" by (rule persisted_cong) (simp add: d_def db_frame)
    ultimately show ?thesis
      unfolding s' using hd dist holder
      by (simp add: balance_defs)
  qed
qed

lemma work_bumping:
  assumes "balanced s" and holder: "cs_holder s = Bumping b pl"
  shows "balanced (work_on s) \<and> clog (work_on s) = clog s"
proof -
  show ?thesis
  proof (cases pl)
    case Nil
    with assms holder show ?thesis
      by (simp add: work_on_def balance_defs)
  next
    case (Cons x rest)
    obtain e t where x: "x = (e, t)" by fastforce
    have hl: "db_wf (cs_db s)" "db_faults (cs_db s) = []" using assms(1) by (simp_all add: balanced_def healthy_def)
    define d where "d = snd (bump_entity_event_counts e t (cs_db s))"
    have eq: "bump_entity_event_counts e t (cs_db s) = (Inr (), d)"
      using hl by (simp add: d_def bump_entity_event_counts_def connect_def)
    have hd: "healthy d" using hl by (auto simp: healthy_def d_def db_frame intro: inv_intros)
    have s': "work_on s = s\<lparr>cs_db := d, cs_holder := Bumping b rest\<rparr>"
      by (simp add: work_on_def holder Cons x eq after_def)
    have "db_events d = db_events (cs_db s)" "db_counters d = db_counters (cs_db s)"
      by (simp_all add: d_def db_frame)
    then show ?thesis
      unfolding s' using hd assms holder
      by (simp add: balance_defs persisted_def
          counter_of_def events_in_def)
  qed
qed

lemma work_balanced:
  assumes "balanced s"
  shows "balanced (work_on s) \<and> clog (work_on s) = clog s"
proof (cases "cs_holder s")
  case Free
  with assms show ?thesis by (simp add: work_on_def)
qed (rule work_inserting work_counting work_bumping; use assms in simp)+

text \<open>What a step that leaves the lock to its holder keeps.\<close>

lemma estep_frame:
  assumes "estep sha s xs s'"
  shows "cs_holder s' = cs_holder s" "pp_buffer (cs_pipe s') = pp_buffer (cs_pipe s)"
    "pp_task (cs_pipe s') = pp_task (cs_pipe s)" "pp_stop (cs_pipe s') = pp_stop (cs_pipe s)"
    "\<exists>rs. cs_queue s' = cs_queue s @ rs \<and> submitted rs = xs"
  using assms by (cases rule: estep.cases; simp)+

lemma estep_db:
  assumes "estep sha s xs s'"
  shows "db_events (cs_db s') = db_events (cs_db s)" "db_counters (cs_db s') = db_counters (cs_db s)"
    "healthy (cs_db s) \<Longrightarrow> healthy (cs_db s')"
proof (atomize (full), use assms in \<open>cases rule: estep.cases\<close>)
  case (drop_hidden ev ck r d)
  then have d: "d = snd (increment_privacy_drop (now_bucket ck None) 1 (cs_db s))" by simp
  have "healthy (cs_db s) \<longrightarrow> healthy d" by (auto simp: d healthy_def db_frame intro: inv_intros)
  then show "db_events (cs_db s') = db_events (cs_db s) \<and> db_counters (cs_db s') = db_counters (cs_db s) \<and>
      (healthy (cs_db s) \<longrightarrow> healthy (cs_db s'))"
    by (simp add: drop_hidden(2)) (simp add: d db_frame)
next
  case (refresh i r idx d)
  with refresh_step_facts [OF refresh(4)] show "db_events (cs_db s') = db_events (cs_db s) \<and>
      db_counters (cs_db s') = db_counters (cs_db s) \<and> (healthy (cs_db s) \<longrightarrow> healthy (cs_db s'))"
    by simp
qed simp_all

lemma estep_balanced:
  assumes "estep sha s xs s'" and "balanced s"
  shows "balanced s' \<and> clog s' = clog s @ xs"
proof -
  note f = estep_frame [OF assms(1)]
  note d = estep_db [OF assms(1)]
  obtain rs where "cs_queue s' = cs_queue s @ rs" "submitted rs = xs" using f(5) by blast
  then have "waiting s' = waiting s @ xs" by (simp add: waiting_def)
  moreover have "healthy (cs_db s')" using d(3) assms(2) by (simp add: balanced_def)
  ultimately show ?thesis using balanced_frame [OF assms(2) f(1,2) d(1,2)] by (simp add: clog_def flip: append_assoc)
qed

lemma cstep_balanced:
  assumes "cstep sha s xs s'" and "balanced s"
  shows "balanced s' \<and> clog s' = clog s @ xs"
  using assms(1)
proof (cases rule: cstep.cases)
  case env
  then show ?thesis using estep_balanced [OF _ assms(2)] by simp
next
  case (lock ck)
  then show ?thesis using grant_balanced [OF assms(2)] by (cases "cs_queue s") auto
next
  case go_on
  then show ?thesis using work_balanced [OF assms(2)] by simp
next
  case set_stop
  then show ?thesis using assms(2)
    by (cases "cs_holder s") (simp_all add: balance_defs)
next
  case task_ends
  then show ?thesis using assms(2)
    by (cases "cs_holder s") (simp_all add: balance_defs)
qed

lemma cruns_balanced: "cruns sha s tr s' \<Longrightarrow> balanced s \<Longrightarrow> balanced s' \<and> clog s' = clog s @ tr"
  by (induction rule: cruns.induct) (auto dest: cstep_balanced)

text \<open>One event submitted, let in, and its batch of one sent to the database, which may fail.\<close>

definition one_event :: "ha_event \<times> int" where
  "one_event = (state_change 5 ''light.a'', 0)"

definition after_insert :: "bool list \<Rightarrow> csys" where
  "after_insert faults =
     work_on (grant (at 5) ((new_csys \<lparr>hm_compiled = []\<rparr> 1 1000)\<lparr>cs_db := empty_db\<lparr>db_faults := faults\<rparr>,
       cs_queue := [RSubmit one_event]\<rparr>))"

lemma one_event_run:
  "cruns sha ((new_csys \<lparr>hm_compiled = []\<rparr> 1 1000)\<lparr>cs_db := empty_db\<lparr>db_faults := faults\<rparr>\<rparr>) [one_event]
     (after_insert faults)"
proof -
  let ?s0 = "(new_csys \<lparr>hm_compiled = []\<rparr> 1 1000)\<lparr>cs_db := empty_db\<lparr>db_faults := faults\<rparr>\<rparr>"
  let ?s1 = "?s0\<lparr>cs_queue := [RSubmit one_event]\<rparr>"
  have t: "tagged (cs_idx ?s0) (state_change 5 ''light.a'') = one_event"
    by (simp add: new_csys_def tagged_def lookup_def one_event_def)
  have "\<not> hidden (cs_pipe ?s0) (state_change 5 ''light.a'')"
    by (simp add: new_csys_def hidden_def start_def new_pipeline_def matches_def)
  from cstep.env [OF estep.ask_submit [OF this]] have 1: "cstep sha ?s0 [one_event] ?s1"
    unfolding t by (simp add: new_csys_def)
  have "cruns sha ?s0 ([] @ [one_event]) ?s1" by (rule cruns.more [OF cruns.here 1])
  moreover have "cstep sha ?s1 [] (grant (at 5) ?s1)" by (rule cstep.lock) (simp_all add: new_csys_def)
  ultimately have "cruns sha ?s0 (([] @ [one_event]) @ []) (grant (at 5) ?s1)" by (rule cruns.more)
  moreover have "cs_holder (grant (at 5) ?s1) \<noteq> Free"
    by (simp add: grant_def new_csys_def start_def new_pipeline_def begin_commit_def commit_scan_eq)
  from cstep.go_on [OF this] have "cstep sha (grant (at 5) ?s1) [] (after_insert faults)"
    by (simp add: after_insert_def)
  ultimately have "cruns sha ?s0 ((([] @ [one_event]) @ []) @ []) (after_insert faults)" by (rule cruns.more)
  then show ?thesis by simp
qed

lemma no_faults_new: "(new_csys m n t)\<lparr>cs_db := empty_db\<lparr>db_faults := []\<rparr>\<rparr> = new_csys m n t"
  by (simp add: new_csys_def empty_db_def)

lemma balanced_new: "balanced (new_csys m n t)" and clog_new: "clog (new_csys m n t) = []"
  by (simp_all add: balanced_def new_csys_def plan_ok_def owed_def clog_def unstored_def waiting_def
      start_def new_pipeline_def persisted_def)
    (simp_all add: counter_of_def events_in_def empty_db_def)

text \<open>
  C1. The log under interleaving: from a fresh database all of whose connections succeed, however the tasks of the process
  interleave at their \<open>await\<close>s, the database holds, together with what is buffered and what waits for the lock, exactly the
  accepted events, each once and in the order of their submission.
\<close>

theorem interleaved_log:
  assumes "cruns sha (new_csys m n t) tr s"
  shows "persisted (cs_db s) @ unstored s @ waiting s = tr"
  using cruns_balanced [OF assms balanced_new] by (simp add: clog_def clog_new [unfolded clog_def])

lemma interleaved_log_witness:
  "persisted (cs_db (after_insert [])) @ unstored (after_insert []) @ waiting (after_insert []) = [one_event]"
  by (rule interleaved_log) (rule one_event_run [where faults = "[]", unfolded no_faults_new])

text \<open>
  C2. The counters under interleaving: from a fresh database all of whose connections succeed, at every moment of every
  interleaving the counter of an area and hour, plus what the running commit has not added yet, is the number of stored
  events of that area and hour; between commits they are equal.
\<close>

theorem interleaved_counters:
  assumes "cruns sha (new_csys m n t) tr s"
  shows "counter_of (cs_db s) k + owed s k = events_in k (cs_db s) \<and>
    (cs_holder s = Free \<longrightarrow> counter_of (cs_db s) k = events_in k (cs_db s)) \<and> 0 \<le> owed s k"
proof -
  have b: "balanced s" using cruns_balanced [OF assms balanced_new] by simp
  then have "counter_of (cs_db s) k + owed s k = events_in k (cs_db s)" by (cases k) (simp add: balanced_def)
  moreover have "0 \<le> owed s k"
    using b by (auto simp: balanced_def plan_ok_def owed_def dict_num_def split: holder.splits option.splits
        dest!: map_of_SomeD)
  ultimately show ?thesis by (auto simp: owed_def)
qed

lemma interleaved_counters_witness:
  "counter_of (cs_db (after_insert [])) (''hall'', 0) + owed (after_insert []) (''hall'', 0) =
    events_in (''hall'', 0) (cs_db (after_insert []))"
  using interleaved_counters [OF one_event_run [where faults = "[]", unfolded no_faults_new], of "(''hall'', 0)"]
  by simp

section \<open>Connections that fail\<close>

text \<open>Without any assumption on the connections: nothing is lost, though events may be stored twice.\<close>

definition covered :: "csys \<Rightarrow> bool" where
  "covered s = (case cs_holder s of
     Inserting b rows pa pl \<Rightarrow> \<exists>w idx. rows = map (event_row_of w idx) (pp_buffer (cs_pipe s))
   | Free \<Rightarrow> True
   | _ \<Rightarrow> set (pp_buffer (cs_pipe s)) \<subseteq> set (persisted (cs_db s)))"

definition kept :: "csys \<Rightarrow> (ha_event \<times> int) set" where
  "kept s = set (persisted (cs_db s)) \<union> set (pp_buffer (cs_pipe s)) \<union> set (waiting s)"

text \<open>A step of the holder stores the buffer, clears a buffer that is stored, or touches neither.\<close>

definition advances :: "csys \<Rightarrow> csys \<Rightarrow> bool" where
  "advances c c' \<longleftrightarrow> covered c' \<and> waiting c' = waiting c \<and>
     (persisted (cs_db c') = persisted (cs_db c) \<and> pp_buffer (cs_pipe c') = pp_buffer (cs_pipe c) \<and>
        (cs_holder c' = Free \<longrightarrow> cs_holder c = Free \<or> call_error (cs_holder c) (cs_db c) \<noteq> None) \<or>
      persisted (cs_db c') = persisted (cs_db c) @ pp_buffer (cs_pipe c) \<and>
        pp_buffer (cs_pipe c') = pp_buffer (cs_pipe c) \<and> cs_holder c' \<noteq> Free \<or>
      cs_db c' = cs_db c \<and> pp_buffer (cs_pipe c') = [] \<and> set (pp_buffer (cs_pipe c)) \<subseteq> set (persisted (cs_db c)))"

lemmas advance_simps = advances_def covered_def waiting_def after_def release_failed_def

lemma inserting_advances:
  assumes "covered c" and "cs_holder c = Inserting b rows pa pl"
  shows "advances c (work_on c)"
proof -
  have "\<exists>w idx. rows = map (event_row_of w idx) (pp_buffer (cs_pipe c))"
    using assms by (simp add: covered_def)
  then obtain w idx where p: "rows = map (event_row_of w idx) (pp_buffer (cs_pipe c))" by blast
  obtain r d where eq: "insert_events rows (cs_db c) = (r, d)" by fastforce
  show ?thesis
  proof (cases r)
    case (Inl e)
    with insert_events_cases [OF eq] have "persisted d = persisted (cs_db c)" by (auto simp: persisted_def)
    with Inl eq assms(2) show ?thesis by (simp add: work_on_def advance_simps)
  next
    case (Inr u)
    with insert_events_cases [OF eq] p have "persisted d = persisted (cs_db c) @ pp_buffer (cs_pipe c)"
      using persisted_append by auto
    with Inr eq assms(2) show ?thesis by (simp add: work_on_def advance_simps)
  qed
qed

text \<open>A database call that leaves the event table alone.\<close>

lemma after_advances:
  assumes "set (pp_buffer (cs_pipe c)) \<subseteq> set (persisted (cs_db c))" and "persisted (snd rd) = persisted (cs_db c)"
    and "call_error (cs_holder c) (cs_db c) = (case fst rd of Inl e \<Rightarrow> Some e | Inr _ \<Rightarrow> None)"
    and "next = Counting b pa pl \<or> next = Bumping b pl"
  shows "advances c (after b rd next c)"
  using assms by (auto simp: advance_simps split: prod.split sum.split)

lemma work_advances:
  assumes "covered c"
  shows "advances c (work_on c)"
proof (cases "cs_holder c")
  case Free
  then show ?thesis by (simp add: work_on_def advance_simps)
next
  case Inserting
  then show ?thesis using inserting_advances assms by simp
next
  case (Counting b pa pl)
  with assms have sub: "set (pp_buffer (cs_pipe c)) \<subseteq> set (persisted (cs_db c))" by (simp add: covered_def)
  show ?thesis
  proof (cases pa)
    case (Cons x rest)
    obtain a h n where x: "x = ((a, h), n)" by (metis surj_pair)
    show ?thesis using after_advances [OF sub, of "increment_counter a h n (cs_db c)" "Counting b rest pl" b rest pl]
      by (simp add: work_on_def Counting Cons x persisted_def db_frame)
  qed (use Counting sub in \<open>simp add: work_on_def advance_simps\<close>)
next
  case (Bumping b pl)
  with assms have sub: "set (pp_buffer (cs_pipe c)) \<subseteq> set (persisted (cs_db c))" by (simp add: covered_def)
  show ?thesis
  proof (cases pl)
    case (Cons x rest)
    obtain e t where x: "x = (e, t)" by fastforce
    show ?thesis using after_advances [OF sub, of "bump_entity_event_counts e t (cs_db c)" "Bumping b rest" b "[]" rest]
      by (simp add: work_on_def Bumping Cons x persisted_def db_frame)
  qed (use Bumping sub in \<open>simp add: work_on_def advance_simps\<close>)
qed

lemma work_covered:
  assumes "covered s"
  shows "covered (work_on s) \<and> kept (work_on s) = kept s"
  using work_advances [OF assms] by (auto simp: advances_def kept_def)

lemma begin_commit_covered:
  "cs_holder s = Free \<Longrightarrow> covered (begin_commit b ck s) \<and> kept (begin_commit b ck s) = kept s"
  by (auto simp: begin_commit_def covered_def kept_def waiting_def commit_scan_eq)

lemma grant_covered:
  assumes "cs_holder s = Free"
  shows "covered (grant ck s) \<and> kept (grant ck s) = kept s"
proof (cases "cs_queue s")
  case Nil
  with assms show ?thesis by (simp add: grant_def covered_def)
next
  case (Cons r q)
  define s1 where "s1 = (case r of
      RSubmit x \<Rightarrow> s\<lparr>cs_pipe := (cs_pipe s)\<lparr>pp_buffer := pp_buffer (cs_pipe s) @ [x],
        pp_first_added := (case pp_first_added (cs_pipe s) of None \<Rightarrow> Some (ck_mono ck) | Some t \<Rightarrow> Some t)\<rparr>, cs_queue := q\<rparr>
    | _ \<Rightarrow> s\<lparr>cs_queue := q\<rparr>)"
  have s1: "cs_holder s1 = Free" using assms by (simp add: s1_def split: request.split)
  have k: "kept s1 = kept s"
    using Cons by (auto simp: s1_def kept_def waiting_def split: request.split)
  have "grant ck s = s1 \<or> grant ck s = begin_commit False ck s1 \<or> grant ck s = begin_commit True ck s1"
    using Cons by (cases r) (simp_all add: grant_def s1_def Let_def split: option.split)
  then show ?thesis
  proof (elim disjE)
    assume "grant ck s = s1"
    with s1 k show ?thesis by (simp add: covered_def)
  qed (simp_all only: begin_commit_covered [OF s1] k simp_thms)
qed

lemma estep_covered:
  assumes "estep sha s xs s'" and "covered s"
  shows "covered s' \<and> kept s' = kept s \<union> set xs"
proof -
  note f = estep_frame [OF assms(1)]
  have "persisted (cs_db s') = persisted (cs_db s)" by (rule persisted_cong) (rule estep_db(1) [OF assms(1)])
  with f(1,2,5) assms(2) show ?thesis by (cases "cs_holder s") (auto simp: covered_def kept_def waiting_def)
qed

lemma cstep_covered:
  assumes "cstep sha s xs s'" and "covered s"
  shows "covered s' \<and> kept s' = kept s \<union> set xs"
  using assms(1)
proof (cases rule: cstep.cases)
  case env
  then show ?thesis using estep_covered [OF _ assms(2)] by simp
next
  case (lock ck)
  then show ?thesis using grant_covered [of s ck] by simp
next
  case go_on
  then show ?thesis using work_covered [OF assms(2)] by simp
next
  case set_stop
  then show ?thesis using assms(2) by (cases "cs_holder s") (simp_all add: covered_def kept_def waiting_def)
next
  case task_ends
  then show ?thesis using assms(2) by (cases "cs_holder s") (simp_all add: covered_def kept_def waiting_def)
qed

lemma cruns_covered: "cruns sha s tr s' \<Longrightarrow> covered s \<Longrightarrow> covered s' \<and> kept s' = kept s \<union> set tr"
  by (induction rule: cruns.induct) (auto dest: cstep_covered)

lemma covered_new:
  fixes m n t faults
  defines "s \<equiv> (new_csys m n t)\<lparr>cs_db := empty_db\<lparr>db_faults := faults\<rparr>\<rparr>"
  shows "covered s" and "kept s = {}"
  unfolding s_def
  by (simp_all add: covered_def kept_def new_csys_def waiting_def start_def new_pipeline_def persisted_def)
    (simp add: empty_db_def)

text \<open>
  C3. Nothing is lost under interleaving: however the tasks interleave and whatever connections fail, the
  events that are stored, buffered or waiting for the lock are, as a set, exactly those accepted.
\<close>

theorem interleaved_at_least_once:
  assumes "cruns sha ((new_csys m n t)\<lparr>cs_db := empty_db\<lparr>db_faults := faults\<rparr>\<rparr>) tr s"
  shows "set (persisted (cs_db s)) \<union> set (pp_buffer (cs_pipe s)) \<union> set (waiting s) = set tr"
  using cruns_covered [OF assms covered_new(1)] by (simp add: covered_new(2)) (simp add: kept_def)

lemma interleaved_at_least_once_witness:
  "set (persisted (cs_db (after_insert [True]))) \<union> set (pp_buffer (cs_pipe (after_insert [True]))) \<union>
    set (waiting (after_insert [True])) = {one_event}"
  using interleaved_at_least_once [OF one_event_run [where faults = "[True]"]] by simp

section \<open>Two refreshes at once\<close>

text \<open>Refreshes that take turns: the numbers say which of them makes its next step.\<close>

definition refresh_on :: "(string \<Rightarrow> string) \<Rightarrow> nat \<Rightarrow> csys \<Rightarrow> csys" where
  "refresh_on sha i s =
     (if i < length (cs_refreshes s)
      then case refresh_step sha (cs_refreshes s ! i) (cs_idx s, cs_db s) of
        (r, idx, d) \<Rightarrow> s\<lparr>cs_idx := idx, cs_db := d, cs_refreshes := put_refresh i r (cs_refreshes s)\<rparr>
      else s)"

lemma refresh_on_runs: "cruns sha s0 tr s \<Longrightarrow> cruns sha s0 tr (fold (refresh_on sha) is s)"
proof (induction "is" arbitrary: s)
  case Nil
  then show ?case by simp
next
  case (Cons i "is")
  have "cruns sha s0 tr (refresh_on sha i s)"
  proof (cases "i < length (cs_refreshes s)")
    case True
    obtain r idx d where eq: "refresh_step sha (cs_refreshes s ! i) (cs_idx s, cs_db s) = (r, idx, d)"
      by (metis surj_pair)
    from cruns.more [OF Cons.prems cstep.env [OF estep.refresh [OF True eq]]] True eq show ?thesis by (simp add: refresh_on_def)
  next
    case False
    with Cons.prems show ?thesis by (simp add: refresh_on_def)
  qed
  from Cons.IH [OF this] show ?case by simp
qed

definition in_area :: "string \<Rightarrow> payload" where
  "in_area a = \<lparr>pl_areas = [], pl_devices = [],
     pl_entities = [[(''entity_id'', JStr ''light.a''), (''area_id'', JStr a)]]\<rparr>"

definition two_refreshes :: csys where
  "two_refreshes = fold (refresh_on (\<lambda>x. x)) [0, 0, 0, 0, 0, 1, 1, 1, 1, 1, 1, 0]
     ((new_csys \<lparr>hm_compiled = []\<rparr> 100 1000)\<lparr>cs_refreshes := [RSelect (in_area ''old'') 1, RSelect (in_area ''new'') 2]\<rparr>)"

lemma two_refreshes_run: "cruns (\<lambda>x. x) (new_csys \<lparr>hm_compiled = []\<rparr> 100 1000) [] two_refreshes"
proof -
  let ?s = "new_csys \<lparr>hm_compiled = []\<rparr> 100 1000"
  have "cruns (\<lambda>x. x) ?s ([] @ []) (?s\<lparr>cs_refreshes := [RSelect (in_area ''old'') 1]\<rparr>)"
    using cruns.more [OF cruns.here cstep.env [OF estep.begin_refresh [of _ ?s "in_area ''old''" 1]]] by (simp add: new_csys_def)
  from cruns.more [OF this cstep.env [OF estep.begin_refresh [where p = "in_area ''new''" and ts = 2]]]
  have "cruns (\<lambda>x. x) ?s [] (?s\<lparr>cs_refreshes := [RSelect (in_area ''old'') 1, RSelect (in_area ''new'') 2]\<rparr>)" by simp
  from refresh_on_runs [OF this] show ?thesis unfolding two_refreshes_def .
qed

text \<open>
  C27. Two refreshes that overlap (the first sync and one that a registry message asks for) can end with the
  index of the older payload and the rows of the newer one, without any failure: where a refresh alone makes table and
  index agree, the two disagree about the area of an entity when both have returned.
\<close>

theorem overlapping_refreshes_disagree:
  "\<exists>s r row. cruns (\<lambda>x. x) (new_csys \<lparr>hm_compiled = []\<rparr> 100 1000) [] s \<and> cs_refreshes s = [] \<and>
     lookup (cs_idx s) ''light.a'' = Some r \<and> rf_area_id r = Some ''old'' \<and>
     tbl_find er_entity_id ''light.a'' (db_entities (cs_db s)) = Some row \<and> er_area_id row = Some ''new''"
proof -
  have "cs_refreshes two_refreshes = [] \<and> map_option rf_area_id (lookup (cs_idx two_refreshes) ''light.a'') = Some (Some ''old'') \<and>
    map_option er_area_id (tbl_find er_entity_id ''light.a'' (db_entities (cs_db two_refreshes))) = Some (Some ''new'')"
    by code_simp
  with two_refreshes_run show ?thesis by (intro exI [of _ two_refreshes]) auto
qed

end
