(* ===== verification/LockLive.thy ===== *)
theory LockLive
  imports Interleaving
begin

text \<open>
  The steps of \<open>Tasks\<close> against the atomic operations of \<open>Ingest\<close> and \<open>Orchestrator\<close>, which are the runs that nothing
  interrupts, and the liveness of the lock.
\<close>

section \<open>The uninterrupted runs\<close>

text \<open>How a commit ends: what \<open>commit_locked\<close> returns, with the flush task ended by an exception of its own.\<close>

definition committed :: "bool \<Rightarrow> unit res \<times> pipeline \<times> db \<Rightarrow> csys \<Rightarrow> csys" where
  "committed by_tick r s =
     (case r of
        (Inl e, pl, d) \<Rightarrow> s\<lparr>cs_holder := Free, cs_pipe := (if by_tick then pl\<lparr>pp_task := Died e\<rparr> else pl), cs_db := d\<rparr>
      | (Inr _, pl, d) \<Rightarrow> s\<lparr>cs_holder := Free, cs_pipe := pl, cs_db := d\<rparr>)"

definition cleared :: "pipeline \<Rightarrow> pipeline" where
  "cleared pl = pl\<lparr>pp_buffer := [], pp_first_added := None\<rparr>"

definition ended :: "bool \<Rightarrow> unit res \<times> db \<Rightarrow> csys \<Rightarrow> csys" where
  "ended by_tick rd s =
     (case rd of
        (Inl e, d) \<Rightarrow> release_failed by_tick e (s\<lparr>cs_db := d\<rparr>)
      | (Inr _, d) \<Rightarrow> s\<lparr>cs_holder := Free, cs_db := d, cs_pipe := cleared (cs_pipe s)\<rparr>)"

lemma work_on_Free: "cs_holder s = Free \<Longrightarrow> work_on s = s"
  by (simp add: work_on_def)

lemma works_Free: "cs_holder s = Free \<Longrightarrow> (work_on ^^ n) s = s"
  by (induction n) (simp_all add: work_on_Free)

lemma ended_holder [simp]: "ended b rd (s\<lparr>cs_holder := h\<rparr>) = ended b rd s"
  by (auto simp: ended_def release_failed_def split: prod.split sum.split)

lemma ended_db [simp]: "ended b rd (s\<lparr>cs_db := d\<rparr>) = ended b rd s"
  by (auto simp: ended_def release_failed_def split: prod.split sum.split)

text \<open>One call, then the rest of the commit.\<close>

lemma work_then:
  assumes "work_on s = after b (f (cs_db s)) h s"
    and "\<And>d. (work_on ^^ n) (s\<lparr>cs_db := d, cs_holder := h\<rparr>) = ended b (rest d) s"
  shows "(work_on ^^ Suc n) s =
    ended b (case f (cs_db s) of (Inl e, d) \<Rightarrow> (Inl e, d) | (Inr _, d) \<Rightarrow> rest d) s"
proof -
  obtain r d where f: "f (cs_db s) = (r, d)" by fastforce
  have "(work_on ^^ Suc n) s = (work_on ^^ n) (after b (r, d) h s)"
    by (simp add: funpow_Suc_right assms(1) f del: funpow.simps)
  also have "\<dots> = ended b (case (r, d) of (Inl e, d) \<Rightarrow> (Inl e, d) | (Inr _, d) \<Rightarrow> rest d) s"
  proof (cases r)
    case (Inl e)
    then have "cs_holder (after b (r, d) h s) = Free" by (simp add: after_def release_failed_def)
    from works_Free [OF this] Inl show ?thesis by (simp add: after_def ended_def)
  next
    case (Inr u)
    with assms(2) show ?thesis by (simp add: after_def)
  qed
  finally show ?thesis by (simp add: f)
qed

lemma bumping_run:
  "cs_holder s = Bumping b pl \<Longrightarrow> (work_on ^^ Suc (length pl)) s =
     ended b (for_each (\<lambda>(eid, last_ts). bump_entity_event_counts eid last_ts) pl (cs_db s)) s"
proof (induction pl arbitrary: s)
  case Nil
  then show ?case by (simp add: work_on_def ended_def cleared_def)
next
  case (Cons x pl)
  obtain e t where x: "x = (e, t)" by fastforce
  have w: "work_on s = after b (bump_entity_event_counts e t (cs_db s)) (Bumping b pl) s"
    using Cons.prems by (simp add: work_on_def x)
  have "(work_on ^^ Suc (length pl)) (s\<lparr>cs_db := d, cs_holder := Bumping b pl\<rparr>) =
      ended b (for_each (\<lambda>(eid, last_ts). bump_entity_event_counts eid last_ts) pl d) s" for d
    using Cons.IH [of "s\<lparr>cs_db := d, cs_holder := Bumping b pl\<rparr>"] by simp
  from work_then [where f = "bump_entity_event_counts e t", OF w this] show ?case
    by (simp add: x del: funpow.simps)
qed

lemma counting_run:
  "cs_holder s = Counting b pa pl \<Longrightarrow> (work_on ^^ (length pa + 1 + Suc (length pl))) s =
     ended b (case for_each (\<lambda>((aid, bucket), n). increment_counter aid bucket n) pa (cs_db s) of
         (Inl e, d) \<Rightarrow> (Inl e, d)
       | (Inr _, d) \<Rightarrow> for_each (\<lambda>(eid, last_ts). bump_entity_event_counts eid last_ts) pl d) s"
proof (induction pa arbitrary: s)
  case Nil
  then have "work_on s = s\<lparr>cs_holder := Bumping b pl\<rparr>" by (simp add: work_on_def)
  with bumping_run [of "s\<lparr>cs_holder := Bumping b pl\<rparr>" b pl] show ?case
    by (simp add: funpow_Suc_right del: funpow.simps)
next
  case (Cons x pa)
  obtain a h n where x: "x = ((a, h), n)" by (metis surj_pair)
  have w: "work_on s = after b (increment_counter a h n (cs_db s)) (Counting b pa pl) s"
    using Cons.prems by (simp add: work_on_def x)
  let ?rest = "\<lambda>d. case for_each (\<lambda>((aid, bucket), n). increment_counter aid bucket n) pa d of
         (Inl e, d) \<Rightarrow> (Inl e, d)
       | (Inr _, d) \<Rightarrow> for_each (\<lambda>(eid, last_ts). bump_entity_event_counts eid last_ts) pl d"
  have "(work_on ^^ (length pa + 1 + Suc (length pl))) (s\<lparr>cs_db := d, cs_holder := Counting b pa pl\<rparr>) =
      ended b (?rest d) s" for d
    using Cons.IH [of "s\<lparr>cs_db := d, cs_holder := Counting b pa pl\<rparr>"] by simp
  from work_then [where f = "increment_counter a h n" and rest = ?rest, OF w this] show ?case
    by (auto simp: x simp del: funpow.simps split: prod.split sum.split)
qed

lemma inserting_run:
  assumes "cs_holder s = Inserting b rows pa pl"
  shows "(work_on ^^ Suc (length pa + 1 + Suc (length pl))) s =
     ended b (case insert_events rows (cs_db s) of
         (Inl e, d) \<Rightarrow> (Inl e, d)
       | (Inr _, d) \<Rightarrow>
           (case for_each (\<lambda>((aid, bucket), n). increment_counter aid bucket n) pa d of
              (Inl e, d) \<Rightarrow> (Inl e, d)
            | (Inr _, d) \<Rightarrow> for_each (\<lambda>(eid, last_ts). bump_entity_event_counts eid last_ts) pl d)) s"
proof -
  have w: "work_on s = after b (insert_events rows (cs_db s)) (Counting b pa pl) s"
    using assms by (simp add: work_on_def)
  let ?rest = "\<lambda>d. case for_each (\<lambda>((aid, bucket), n). increment_counter aid bucket n) pa d of
         (Inl e, d) \<Rightarrow> (Inl e, d)
       | (Inr _, d) \<Rightarrow> for_each (\<lambda>(eid, last_ts). bump_entity_event_counts eid last_ts) pl d"
  have "(work_on ^^ (length pa + 1 + Suc (length pl))) (s\<lparr>cs_db := d, cs_holder := Counting b pa pl\<rparr>) =
      ended b (?rest d) s" for d
    using counting_run [of "s\<lparr>cs_db := d, cs_holder := Counting b pa pl\<rparr>"] by simp
  from work_then [where f = "insert_events rows" and rest = ?rest, OF w this] show ?thesis .
qed

text \<open>
  The steps of a commit that nothing interrupts end, and they do what the atomic operation of the
  pipeline does: with the same database and buffer, and with the same exception for the flush task.
\<close>

theorem commit_is_its_steps:
  assumes "cs_holder s = Free"
  shows "\<exists>n. (work_on ^^ n) (begin_commit by_tick ck s) =
    committed by_tick (commit_locked ck (cs_idx s) (cs_pipe s, cs_db s)) s"
proof (cases "pp_buffer (cs_pipe s) = []")
  case True
  then have "(work_on ^^ 0) (begin_commit by_tick ck s) = committed by_tick (commit_locked ck (cs_idx s) (cs_pipe s, cs_db s)) s"
    using assms by (simp add: begin_commit_def committed_def commit_locked_def)
  then show ?thesis by blast
next
  case False
  obtain rows pa pl where scan: "commit_scan (ck_wall ck) (cs_idx s) (pp_buffer (cs_pipe s)) = (rows, pa, pl)"
    by (metis surj_pair)
  let ?s = "s\<lparr>cs_holder := Inserting by_tick rows pa pl\<rparr>"
  have b: "begin_commit by_tick ck s = ?s" using False scan by (simp add: begin_commit_def)
  have "(work_on ^^ Suc (length pa + 1 + Suc (length pl))) ?s =
      ended by_tick (write_batch (ck_wall ck) (cs_idx s) (pp_buffer (cs_pipe s)) (cs_db s)) s"
    using inserting_run [of ?s] by (simp add: write_batch_def scan del: funpow.simps)
  also have "\<dots> = committed by_tick (commit_locked ck (cs_idx s) (cs_pipe s, cs_db s)) s"
    using False assms
    by (auto simp: commit_locked_def committed_def ended_def release_failed_def cleared_def split: prod.split sum.split)
  finally show ?thesis using b by metis
qed

lemma commit_is_its_steps_witness:
  "let s = (new_csys \<lparr>hm_compiled = []\<rparr> 100 1000)\<lparr>cs_pipe := (new_pipeline \<lparr>hm_compiled = []\<rparr> 100 1000)\<lparr>pp_buffer := [one_event]\<rparr>\<rparr> in
   \<exists>n. (work_on ^^ n) (begin_commit True (at 5) s) =
     committed True (commit_locked (at 5) (cs_idx s) (cs_pipe s, cs_db s)) s"
  unfolding Let_def by (rule commit_is_its_steps) (simp add: new_csys_def)

text \<open>The same for a refresh: six steps, and the result of \<open>apply_topology\<close>.\<close>

fun refresh_run ::
  "(string \<Rightarrow> string) \<Rightarrow> nat \<Rightarrow> refresh \<Rightarrow> entity_index \<times> db \<Rightarrow> refresh option \<times> entity_index \<times> db" where
  "refresh_run sha 0 r (idx, d) = (Some r, idx, d)"
| "refresh_run sha (Suc n) r (idx, d) =
     (case refresh_step sha r (idx, d) of
        (None, idx, d) \<Rightarrow> (None, idx, d)
      | (Some r, idx, d) \<Rightarrow> refresh_run sha n r (idx, d))"

lemma upserts_run:
  "refresh_run sha 4 (RAreas p sid ts) (idx, d) =
     (case upsert_all p sid ts d of
        (Inl e, d) \<Rightarrow> (None, idx, d)
      | (Inr _, d) \<Rightarrow> (None, rebuild_from_payload p sid idx, d))"
  by (simp add: numeral_eq_Suc upsert_all_def split: prod.split sum.split)

lemma refresh_is_its_steps:
  "refresh_run sha 6 (RSelect p ts) (idx, d) = (None, snd (apply_topology sha p ts (idx, d)))"
proof -
  let ?find = "\<lambda>d. (Inr (find (\<lambda>r. sn_payload_hash r = hash_hex sha p) (db_snapshots d)), d)"
  have six: "refresh_run sha 6 r x = refresh_run sha (Suc (Suc 4)) r x" for r x by simp
  have four: "refresh_run sha 5 r x = refresh_run sha (Suc 4) r x" for r x by simp
  obtain q d1 where c: "connect ?find d = (q, d1)" by fastforce
  have first: "refresh_run sha 6 (RSelect p ts) (idx, d) =
      (case (q, d1) of (Inl e, d) \<Rightarrow> (None, idx, d)
       | (Inr None, d) \<Rightarrow> refresh_run sha (Suc 4) (RInsert p ts) (idx, d)
       | (Inr (Some row), d) \<Rightarrow> refresh_run sha (Suc 4) (RSwap p (sn_id row)) (idx, d))"
    unfolding six refresh_run.simps(2) [of sha "Suc 4"] refresh_step.simps c by (simp split: sum.split option.split)
  note ins = insert_if_changed_steps [of sha p ts d, unfolded c]
  show ?thesis
  proof (cases q)
    case (Inl e)
    then show ?thesis unfolding first apply_topology_def by (simp add: ins)
  next
    case (Inr f)
    show ?thesis
    proof (cases f)
      case None
      obtain z d2 where i: "insert_snapshot sha p ts d1 = (z, d2)" by fastforce
      with None Inr show ?thesis
        unfolding first refresh_run.simps(2) [of sha 4] refresh_step.simps apply_topology_def
        by (cases z) (auto simp: ins upserts_run split: prod.split sum.split)
    next
      case (Some row)
      with Inr show ?thesis
        unfolding first refresh_run.simps(2) [of sha 4] refresh_step.simps apply_topology_def
        by (simp add: ins)
    qed
  qed
qed

section \<open>The lock is live\<close>

text \<open>Steps of the lock and its holder only.\<close>

inductive lruns :: "csys \<Rightarrow> csys \<Rightarrow> bool" where
  rest: "lruns s s"
| granted: "lruns s s' \<Longrightarrow> cs_holder s' = Free \<Longrightarrow> cs_queue s' \<noteq> [] \<Longrightarrow> lruns s (grant ck s')"
| worked: "lruns s s' \<Longrightarrow> cs_holder s' \<noteq> Free \<Longrightarrow> lruns s (work_on s')"

lemma lruns_cruns: "lruns s s' \<Longrightarrow> cruns sha s [] s'"
proof (induction rule: lruns.induct)
  case (rest s)
  show ?case by (rule cruns.here)
next
  case (granted s s' ck)
  from cruns.more [OF granted.IH cstep.lock [OF granted.hyps(2,3)]] show ?case by simp
next
  case (worked s s')
  from cruns.more [OF worked.IH cstep.go_on [OF worked.hyps(2)]] show ?case by simp
qed

lemma cruns_trans: "cruns sha s1 b s2 \<Longrightarrow> cruns sha s0 a s1 \<Longrightarrow> cruns sha s0 (a @ b) s2"
proof (induction rule: cruns.induct)
  case (here s)
  then show ?case by simp
next
  case (more s tr s' xs s'')
  from cruns.more [OF more.IH [OF more.prems] more.hyps(2)] show ?case by simp
qed

lemma lruns_trans: "lruns s1 s2 \<Longrightarrow> lruns s0 s1 \<Longrightarrow> lruns s0 s2"
  by (induction rule: lruns.induct) (auto intro: lruns.intros)

lemma lruns_works: "lruns s ((work_on ^^ n) s)"
proof (induction n)
  case 0
  show ?case by (simp add: lruns.rest)
next
  case (Suc n)
  then show ?case
    by (cases "cs_holder ((work_on ^^ n) s) = Free") (simp_all add: work_on_Free lruns.worked)
qed

lemma ended_facts [simp]: "cs_holder (ended b rd s) = Free" "cs_queue (ended b rd s) = cs_queue s"
  by (auto simp: ended_def release_failed_def split: prod.split sum.split)

lemma ends_by:
  assumes "(work_on ^^ n) s = ended b rd s"
  shows "\<exists>n. cs_holder ((work_on ^^ n) s) = Free"
  by (rule exI [of _ n]) (simp only: assms ended_facts)

lemma works_end: "\<exists>n. cs_holder ((work_on ^^ n) s) = Free"
proof (cases "cs_holder s")
  case Free
  then show ?thesis by (intro exI [of _ 0]) simp
next
  case (Inserting b rows pa pl)
  then show ?thesis by (intro ends_by) (rule inserting_run)
next
  case (Counting b pa pl)
  then show ?thesis by (intro ends_by) (rule counting_run)
next
  case (Bumping b pl)
  then show ?thesis by (intro ends_by) (rule bumping_run)
qed

lemma work_queue: "cs_queue (work_on c) = cs_queue c"
  by (cases "(cs_holder c, c)" rule: work.cases) (auto simp: work_on_def after_def release_failed_def split: prod.split sum.split)

lemma works_queue: "cs_queue ((work_on ^^ n) c) = cs_queue c"
  by (induction n) (simp_all add: work_queue)

lemma holder_finishes: "\<exists>s'. lruns s s' \<and> cs_holder s' = Free \<and> cs_queue s' = cs_queue s"
  using works_end [of s] lruns_works works_queue by metis

lemma grant_queue: "cs_queue (grant ck s) = tl (cs_queue s)"
proof -
  have b: "cs_queue (begin_commit b ck s) = cs_queue s" for b s
    by (simp add: begin_commit_def split: prod.split)
  show ?thesis
    by (cases "cs_queue s") (auto simp: grant_def Let_def b split: request.split option.split)
qed

lemma queue_drains: "\<exists>s'. lruns s s' \<and> cs_holder s' = Free \<and> cs_queue s' = []"
proof (induction "length (cs_queue s)" arbitrary: s)
  case 0
  then have "cs_queue s = []" by simp
  with holder_finishes [of s] show ?case by simp
next
  case (Suc n)
  obtain s1 where 1: "lruns s s1" "cs_holder s1 = Free" "cs_queue s1 = cs_queue s"
    using holder_finishes by blast
  let ?g = "grant (at 0) s1"
  have q: "cs_queue s1 \<noteq> []" using Suc.hyps(2) 1(3) by auto
  have "n = length (cs_queue ?g)" using Suc.hyps(2) by (simp add: grant_queue 1(3))
  from Suc.hyps(1) [OF this] obtain s' where s': "lruns ?g s'" "cs_holder s' = Free" "cs_queue s' = []" by blast
  from lruns_trans [OF s'(1) lruns.granted [OF 1(1,2) q]] s'(2,3) show ?case by blast
qed

text \<open>
  The lock is live: from every state that can be reached, whatever connections fail, steps of the lock and
  its holders alone, finitely many, lead to a state where no task waits and the lock is free; there
  every event accepted so far is in the buffer or in the table.
\<close>

theorem every_waiter_is_served:
  assumes "cruns sha ((new_csys m n t)\<lparr>cs_db := empty_db\<lparr>db_faults := faults\<rparr>\<rparr>) tr s"
  shows "\<exists>s'. lruns s s' \<and> cs_holder s' = Free \<and> cs_queue s' = [] \<and>
    set (persisted (cs_db s')) \<union> set (pp_buffer (cs_pipe s')) = set tr"
proof -
  let ?s = "(new_csys m n t)\<lparr>cs_db := empty_db\<lparr>db_faults := faults\<rparr>\<rparr>"
  obtain s' where s': "lruns s s'" "cs_holder s' = Free" "cs_queue s' = []" using queue_drains by blast
  have run: "cruns sha ?s tr s'" using cruns_trans [OF lruns_cruns [OF s'(1)] assms] by simp
  have "kept s' = set tr" using cruns_covered [OF run covered_new(1)] by (simp add: covered_new(2))
  with s' show ?thesis by (auto simp: kept_def waiting_def)
qed

lemma every_waiter_is_served_witness:
  "\<exists>s'. lruns (after_insert [True]) s' \<and> cs_holder s' = Free \<and> cs_queue s' = [] \<and>
    set (persisted (cs_db s')) \<union> set (pp_buffer (cs_pipe s')) = {one_event}"
  using every_waiter_is_served [OF one_event_run [where faults = "[True]"]] by simp

end
