(* ===== verification/Stopping.thy ===== *)
theory Stopping
  imports LockLive "HOL-Library.Sublist"
begin

text \<open>
  \<open>IngestPipeline.stop\<close> among the tasks of \<open>Tasks\<close>: it sets the flag, waits for the flush task, and then asks for the
  lock like everyone else, so that submissions, flushes and refreshes go on around it. \<open>Ingest\<close> has the same
  operation as one step. The lemmas say which events are safe once it returns, and that it returns.
\<close>

section \<open>Where the call is\<close>

text \<open>\<open>AskLock k\<close>: \<open>k\<close> waiters are ahead of its flush.\<close>

datatype stop_phase =
    Serving
  | JoinTask
  | AskLock nat
  | HoldLock
  | StopReturned
  | StopRaised err

record stopping =
  st_sys :: csys
  st_phase :: stop_phase

definition serving :: "csys \<Rightarrow> stopping" where
  "serving c = \<lparr>st_sys = c, st_phase = Serving\<rparr>"

text \<open>The lock went to the first waiter; the flush of an empty buffer returns at once, and \<open>stop\<close> with it.\<close>

fun lock_phase :: "csys \<Rightarrow> stop_phase \<Rightarrow> stop_phase" where
  "lock_phase c (AskLock 0) = (if cs_holder c = Free then StopReturned else HoldLock)"
| "lock_phase c (AskLock (Suc k)) = AskLock k"
| "lock_phase c p = p"

fun work_phase :: "csys \<Rightarrow> stop_phase \<Rightarrow> stop_phase" where
  "work_phase c HoldLock =
     (case call_error (cs_holder c) (cs_db c) of
        Some e \<Rightarrow> StopRaised e
      | None \<Rightarrow> if cs_holder (work_on c) = Free then StopReturned else HoldLock)"
| "work_phase c p = p"

definition set_flag :: "csys \<Rightarrow> csys" where
  "set_flag c = c\<lparr>cs_pipe := (cs_pipe c)\<lparr>pp_stop := True\<rparr>\<rparr>"

definition end_task :: "csys \<Rightarrow> csys" where
  "end_task c = c\<lparr>cs_pipe := (cs_pipe c)\<lparr>pp_task := Finished\<rparr>\<rparr>"

definition ask_lock :: "csys \<Rightarrow> csys" where
  "ask_lock c = c\<lparr>cs_queue := cs_queue c @ [RFlush]\<rparr>"

text \<open>Steps of the lock, its holder, the flush task and \<open>stop\<close> itself.\<close>

inductive own_step :: "stopping \<Rightarrow> stopping \<Rightarrow> bool" where
  lock: "cs_holder (st_sys s) = Free \<Longrightarrow> cs_queue (st_sys s) \<noteq> [] \<Longrightarrow>
    own_step s \<lparr>st_sys = grant ck (st_sys s), st_phase = lock_phase (grant ck (st_sys s)) (st_phase s)\<rparr>"
| go_on: "cs_holder (st_sys s) \<noteq> Free \<Longrightarrow>
    own_step s \<lparr>st_sys = work_on (st_sys s), st_phase = work_phase (st_sys s) (st_phase s)\<rparr>"
| call: "st_phase s = Serving \<Longrightarrow> own_step s \<lparr>st_sys = set_flag (st_sys s), st_phase = JoinTask\<rparr>"
| task_ends: "pp_task (cs_pipe (st_sys s)) = Running \<Longrightarrow> pp_stop (cs_pipe (st_sys s)) \<Longrightarrow> task_idle (st_sys s) \<Longrightarrow>
    own_step s (s\<lparr>st_sys := end_task (st_sys s)\<rparr>)"
| joined: "st_phase s = JoinTask \<Longrightarrow> pp_task (cs_pipe (st_sys s)) \<in> {NoTask, Finished} \<Longrightarrow>
    own_step s \<lparr>st_sys = ask_lock (st_sys s), st_phase = AskLock (length (cs_queue (st_sys s)))\<rparr>"
| join_raises: "st_phase s = JoinTask \<Longrightarrow> pp_task (cs_pipe (st_sys s)) = Died e \<Longrightarrow>
    own_step s (s\<lparr>st_phase := StopRaised e\<rparr>)"

inductive own_steps :: "stopping \<Rightarrow> stopping \<Rightarrow> bool" where
  none: "own_steps s s"
| more: "own_steps s t \<Longrightarrow> own_step t u \<Longrightarrow> own_steps s u"

text \<open>Any step, and runs with the events submitted along them.\<close>

inductive stop_step :: "(string \<Rightarrow> string) \<Rightarrow> stopping \<Rightarrow> (ha_event \<times> int) list \<Rightarrow> stopping \<Rightarrow> bool" for sha where
  env: "estep sha (st_sys s) xs c \<Longrightarrow> stop_step sha s xs (s\<lparr>st_sys := c\<rparr>)"
| own: "own_step s s' \<Longrightarrow> stop_step sha s [] s'"

inductive stop_runs :: "(string \<Rightarrow> string) \<Rightarrow> stopping \<Rightarrow> (ha_event \<times> int) list \<Rightarrow> stopping \<Rightarrow> bool" for sha where
  here: "stop_runs sha s [] s"
| more: "stop_runs sha s tr s' \<Longrightarrow> stop_step sha s' xs s'' \<Longrightarrow> stop_runs sha s (tr @ xs) s''"

section \<open>Without the call, steps of \<open>Tasks\<close>\<close>

lemma own_step_sys:
  assumes "own_step s s'"
  shows "st_sys s' = st_sys s \<or> cstep sha (st_sys s) [] (st_sys s')"
  using assms cstep.env [OF estep.ask_flush [of sha "st_sys s"]]
  by (cases rule: own_step.cases)
    (auto simp: set_flag_def end_task_def ask_lock_def intro: cstep.intros)

lemma stop_step_sys:
  assumes "stop_step sha s xs s'"
  shows "xs = [] \<and> st_sys s' = st_sys s \<or> cstep sha (st_sys s) xs (st_sys s')"
  using assms
proof (cases rule: stop_step.cases)
  case own
  with own_step_sys [of s s' sha] show ?thesis by simp
qed (auto intro: cstep.intros)

lemma stop_runs_sys: "stop_runs sha s tr s' \<Longrightarrow> cruns sha (st_sys s) tr (st_sys s')"
proof (induction rule: stop_runs.induct)
  case (more s tr s' xs s'')
  from stop_step_sys [OF more.hyps(2)] show ?case
    using more.IH cruns.more [OF more.IH] by auto
qed (rule cruns.here)

text \<open>The request of \<open>stop\<close> is where its phase says, and it holds the lock when it says so.\<close>

definition placed_ok :: "stopping \<Rightarrow> bool" where
  "placed_ok s = (case st_phase s of
     AskLock k \<Rightarrow> k < length (cs_queue (st_sys s)) \<and> cs_queue (st_sys s) ! k = RFlush
   | HoldLock \<Rightarrow> cs_holder (st_sys s) \<noteq> Free
   | _ \<Rightarrow> True)"

lemma estep_placed:
  assumes "estep sha (st_sys s) xs c" and "placed_ok s"
  shows "placed_ok (s\<lparr>st_sys := c\<rparr>)"
  using estep_frame(1,5) [OF assms(1)] assms(2)
  by (cases "st_phase s") (auto simp: placed_ok_def nth_append)

lemma own_step_placed: "own_step s s' \<Longrightarrow> placed_ok s \<Longrightarrow> placed_ok s'"
proof (induction rule: own_step.induct)
  case (lock s ck)
  then obtain r q where q: "cs_queue (st_sys s) = r # q" by (cases "cs_queue (st_sys s)") auto
  with lock show ?case
    by (cases "(grant ck (st_sys s), st_phase s)" rule: lock_phase.cases) (auto simp: placed_ok_def grant_queue)
next
  case (go_on s)
  show ?case using go_on
    by (cases "(st_sys s, st_phase s)" rule: work_phase.cases) (auto simp: placed_ok_def work_queue split: option.split)
qed (auto simp: placed_ok_def set_flag_def end_task_def ask_lock_def split: stop_phase.splits)

lemma stop_runs_placed: "stop_runs sha s tr s' \<Longrightarrow> placed_ok s \<Longrightarrow> placed_ok s'"
  by (induction rule: stop_runs.induct) (auto elim!: stop_step.cases intro: estep_placed own_step_placed)

section \<open>What is safe whatever fails\<close>

text \<open>The events that will be stored when the call returns.\<close>

fun safe :: "stop_phase \<Rightarrow> csys \<Rightarrow> (ha_event \<times> int) set" where
  "safe (AskLock k) c = set (persisted (cs_db c)) \<union> set (pp_buffer (cs_pipe c)) \<union> set (submitted (take k (cs_queue c)))"
| "safe HoldLock c = set (persisted (cs_db c)) \<union> set (pp_buffer (cs_pipe c))"
| "safe StopReturned c = set (persisted (cs_db c))"
| "safe (StopRaised e) c = {}"
| "safe p c = kept c"

lemma persisted_same: "db_events d' = db_events d \<Longrightarrow> persisted d' = persisted d"
  by (rule persisted_cong)

lemma estep_safe:
  assumes "estep sha c xs c'" and "covered c" and "\<forall>k. p = AskLock k \<longrightarrow> k < length (cs_queue c)"
  shows "safe p c \<subseteq> safe p c'"
  using estep_frame [OF assms(1)] persisted_same [OF estep_db(1) [OF assms(1)]] estep_covered [OF assms(1,2)] assms(3)
  by (cases p) auto

text \<open>The lock moves the event of the first waiter into the buffer.\<close>

lemma grant_moves:
  assumes "cs_queue c = r # q" and "cs_holder c = Free"
  shows "cs_db (grant ck c) = cs_db c" "pp_buffer (cs_pipe (grant ck c)) = pp_buffer (cs_pipe c) @ submitted [r]"
    "cs_queue (grant ck c) = q"
    "r = RFlush \<Longrightarrow> cs_holder (grant ck c) = Free \<longleftrightarrow> pp_buffer (cs_pipe c) = []"
  using assms by (cases r; auto simp: grant_def begin_commit_def Let_def commit_scan_eq split: option.split)+

lemma own_step_safe:
  assumes "own_step s s'" and "covered (st_sys s)" and "placed_ok s" and "\<forall>e. st_phase s' \<noteq> StopRaised e"
  shows "safe (st_phase s) (st_sys s) \<subseteq> safe (st_phase s') (st_sys s')"
  using assms(1)
proof (cases rule: own_step.cases)
  case (lock ck)
  then obtain r q where q: "cs_queue (st_sys s) = r # q" by (cases "cs_queue (st_sys s)") auto
  note m = grant_moves [OF q lock(2), of ck] and k = conjunct2 [OF grant_covered [OF lock(2), of ck]]
  show ?thesis
    by (cases "(grant ck (st_sys s), st_phase s)" rule: lock_phase.cases; cases r)
      (use assms(3) in \<open>auto simp: lock(1) m k q placed_ok_def\<close>)
next
  case go_on
  note w = work_advances [OF assms(2), unfolded advances_def] and k = conjunct2 [OF work_covered [OF assms(2)]]
  show ?thesis
    by (cases "(st_sys s, st_phase s)" rule: work_phase.cases)
      (use w assms(3,4) in \<open>auto simp: go_on(1) k work_queue placed_ok_def split: option.splits if_splits\<close>)
next
  case joined
  then show ?thesis by (simp add: ask_lock_def kept_def waiting_def)
qed (use assms(4) in \<open>cases "st_phase s"; simp add: set_flag_def end_task_def kept_def waiting_def\<close>)+

lemma stop_runs_covered: "stop_runs sha s tr s' \<Longrightarrow> covered (st_sys s) \<Longrightarrow> covered (st_sys s')"
  using cruns_covered [OF stop_runs_sys] by blast

lemma raised_for_good: "own_step s s' \<Longrightarrow> st_phase s = StopRaised e \<Longrightarrow> st_phase s' = StopRaised e"
  by (cases rule: own_step.cases) auto

lemma stop_step_safe:
  assumes "stop_step sha s xs s'" and "covered (st_sys s)" and "placed_ok s" and "\<forall>e. st_phase s' \<noteq> StopRaised e"
  shows "safe (st_phase s) (st_sys s) \<subseteq> safe (st_phase s') (st_sys s') \<and> (\<forall>e. st_phase s \<noteq> StopRaised e)"
  using assms(1)
proof (cases rule: stop_step.cases)
  case (env c)
  have "\<forall>k. st_phase s = AskLock k \<longrightarrow> k < length (cs_queue (st_sys s))" using assms(3) by (auto simp: placed_ok_def)
  with estep_safe [OF env(2) assms(2)] assms(4) env(1) show ?thesis by simp
next
  case own
  with own_step_safe [OF own(2) assms(2-4)] assms(4) raised_for_good show ?thesis by blast
qed

lemma stop_runs_safe:
  assumes "stop_runs sha s tr s'" and "covered (st_sys s)" and "placed_ok s" and "\<forall>e. st_phase s' \<noteq> StopRaised e"
  shows "safe (st_phase s) (st_sys s) \<subseteq> safe (st_phase s') (st_sys s')"
  using assms
proof (induction rule: stop_runs.induct)
  case (more s tr s' xs s'')
  from stop_step_safe [OF more.hyps(2) stop_runs_covered [OF more.hyps(1)] stop_runs_placed [OF more.hyps(1)]] more
  show ?case by blast
qed simp

text \<open>
  C16. Whatever connections fail and however the tasks interleave around it: when \<open>stop()\<close> returns, every event accepted
  before it asked for the lock is stored. Events that are accepted later are stored, buffered or waiting, and
  none is lost.
\<close>

theorem stop_that_returns_has_stored:
  assumes "stop_runs sha (serving ((new_csys m n t)\<lparr>cs_db := empty_db\<lparr>db_faults := faults\<rparr>\<rparr>)) before s"
    and "st_phase s \<in> {Serving, JoinTask}"
    and "stop_runs sha s later s'" and "st_phase s' = StopReturned"
  shows "set before \<subseteq> set (persisted (cs_db (st_sys s'))) \<and>
    set (persisted (cs_db (st_sys s'))) \<union> set (pp_buffer (cs_pipe (st_sys s'))) \<union> set (waiting (st_sys s')) =
      set before \<union> set later"
proof -
  note new = covered_new
  have c: "covered (st_sys s) \<and> kept (st_sys s) = set before"
    using cruns_covered [OF stop_runs_sys [OF assms(1)]] new by (simp add: serving_def)
  have "placed_ok s" using stop_runs_placed [OF assms(1)] by (simp add: serving_def placed_ok_def)
  from stop_runs_safe [OF assms(3) conjunct1 [OF c] this] assms(2,4) c
  have "set before \<subseteq> set (persisted (cs_db (st_sys s')))" by auto
  moreover have "kept (st_sys s') = set before \<union> set later"
    using cruns_covered [OF stop_runs_sys [OF assms(3)]] c by simp
  ultimately show ?thesis by (simp add: kept_def)
qed

section \<open>On a database that answers\<close>

definition stop_ok :: "stopping \<Rightarrow> bool" where
  "stop_ok s \<longleftrightarrow> balanced (st_sys s) \<and> covered (st_sys s) \<and> placed_ok s \<and>
     (\<forall>e. pp_task (cs_pipe (st_sys s)) \<noteq> Died e) \<and> (\<forall>e. st_phase s \<noteq> StopRaised e) \<and>
     (st_phase s \<noteq> Serving \<longrightarrow> pp_stop (cs_pipe (st_sys s)))"

lemma call_ok: "healthy d \<Longrightarrow> call_error h d = None"
  by (cases "(h, d)" rule: call_error.cases)
    (simp_all add: healthy_def insert_events_def increment_counter_def bump_entity_event_counts_def connect_def)

lemma work_flags:
  assumes "healthy (cs_db c)"
  shows "pp_task (cs_pipe (work_on c)) = pp_task (cs_pipe c) \<and> pp_stop (cs_pipe (work_on c)) = pp_stop (cs_pipe c)"
  using assms
  by (cases "(cs_holder c, c)" rule: work.cases)
    (auto simp: work_on_def after_def healthy_def insert_events_def increment_counter_def bump_entity_event_counts_def connect_def)

lemma grant_flags:
  "pp_task (cs_pipe (grant ck c)) = pp_task (cs_pipe c) \<and> pp_stop (cs_pipe (grant ck c)) = pp_stop (cs_pipe c)"
  by (auto simp: grant_def begin_commit_def Let_def split: list.split request.split option.split prod.split)

lemma own_step_ok:
  assumes "own_step s s'" and "stop_ok s"
  shows "stop_ok s'"
proof -
  have h: "healthy (cs_db (st_sys s))" using assms(2) by (simp add: stop_ok_def balanced_def)
  have "balanced (st_sys s') \<and> covered (st_sys s')"
    using own_step_sys [OF assms(1), of "\<lambda>x. x"] assms(2) cstep_balanced cstep_covered
    unfolding stop_ok_def by metis
  moreover have "placed_ok s'" using own_step_placed assms by (simp add: stop_ok_def)
  moreover have "(\<forall>e. pp_task (cs_pipe (st_sys s')) \<noteq> Died e) \<and> (\<forall>e. st_phase s' \<noteq> StopRaised e) \<and>
      (st_phase s' \<noteq> Serving \<longrightarrow> pp_stop (cs_pipe (st_sys s')))"
    using assms(1)
  proof (cases rule: own_step.cases)
    case (lock ck)
    then show ?thesis using assms(2)
      by (cases "(grant ck (st_sys s), st_phase s)" rule: lock_phase.cases) (auto simp: stop_ok_def grant_flags)
  next
    case go_on
    then show ?thesis using assms(2) work_flags [OF h] call_ok [OF h]
      by (cases "(st_sys s, st_phase s)" rule: work_phase.cases) (auto simp: stop_ok_def)
  qed (use assms(2) in \<open>auto simp: stop_ok_def set_flag_def end_task_def ask_lock_def\<close>)
  ultimately show ?thesis by (simp add: stop_ok_def)
qed

lemma stop_step_ok:
  assumes "stop_step sha s xs s'" and "stop_ok s"
  shows "stop_ok s'"
  using assms(1)
proof (cases rule: stop_step.cases)
  case (env c)
  with estep_frame(3,4) [OF env(2)] estep_balanced [OF env(2)] estep_covered [OF env(2)] estep_placed [OF env(2)] assms(2)
  show ?thesis by (simp add: stop_ok_def)
qed (use own_step_ok assms(2) in simp)

lemma stop_runs_ok: "stop_runs sha s tr s' \<Longrightarrow> stop_ok s \<Longrightarrow> stop_ok s'"
  by (induction rule: stop_runs.induct) (auto intro: stop_step_ok)

lemma own_steps_ok: "own_steps s s' \<Longrightarrow> stop_ok s \<Longrightarrow> stop_ok s'"
  by (induction rule: own_steps.induct) (auto intro: own_step_ok)

lemma own_steps_trans: "own_steps t u \<Longrightarrow> own_steps s t \<Longrightarrow> own_steps s u"
  by (induction rule: own_steps.induct) (auto intro: own_steps.more)

lemma own_steps_one: "own_step s t \<Longrightarrow> own_steps t u \<Longrightarrow> own_steps s u"
  using own_steps_trans own_steps.more [OF own_steps.none] by blast

lemma own_steps_runs: "own_steps s s' \<Longrightarrow> stop_runs sha s [] s'"
proof (induction rule: own_steps.induct)
  case (more s t u)
  from stop_runs.more [OF more.IH stop_step.own [OF more.hyps(2)]] show ?case by simp
qed (rule stop_runs.here)

lemma stop_runs_trans: "stop_runs sha s1 b s2 \<Longrightarrow> stop_runs sha s0 a s1 \<Longrightarrow> stop_runs sha s0 (a @ b) s2"
proof (induction rule: stop_runs.induct)
  case (more s tr s' xs s'')
  from stop_runs.more [OF more.IH [OF more.prems] more.hyps(2)] show ?case by simp
qed simp

section \<open>The call returns\<close>

text \<open>Steps of the lock and its holder alone, in a phase that does not take part in them.\<close>

lemma lruns_own:
  "lruns c c' \<Longrightarrow> p \<in> {JoinTask, StopReturned} \<Longrightarrow> own_steps \<lparr>st_sys = c, st_phase = p\<rparr> \<lparr>st_sys = c', st_phase = p\<rparr>"
proof (induction rule: lruns.induct)
  case (granted c c' ck)
  then show ?case using own_steps.more [OF _ own_step.lock [of "\<lparr>st_sys = c', st_phase = p\<rparr>" ck]] by auto
next
  case (worked c c')
  then show ?case using own_steps.more [OF _ own_step.go_on [of "\<lparr>st_sys = c', st_phase = p\<rparr>"]] by auto
qed (rule own_steps.none)

lemma works_own:
  "own_steps \<lparr>st_sys = c, st_phase = AskLock k\<rparr> \<lparr>st_sys = (work_on ^^ n) c, st_phase = AskLock k\<rparr>"
proof (induction n)
  case (Suc n)
  then show ?case
    by (cases "cs_holder ((work_on ^^ n) c) = Free")
      (use own_steps.more [OF Suc own_step.go_on] in \<open>simp_all add: work_on_Free\<close>)
qed (simp add: own_steps.none)

text \<open>Once the lock is taken, the commit goes to its end and the call with it.\<close>

lemma hold_returns:
  assumes "stop_ok \<lparr>st_sys = c, st_phase = HoldLock\<rparr>" and "cs_holder ((work_on ^^ n) c) = Free"
  shows "\<exists>c'. own_steps \<lparr>st_sys = c, st_phase = HoldLock\<rparr> \<lparr>st_sys = c', st_phase = StopReturned\<rparr> \<and>
    cs_holder c' = Free \<and> cs_queue c' = cs_queue c \<and> pp_buffer (cs_pipe c') = []"
  using assms
proof (induction n arbitrary: c)
  case 0
  then show ?case by (simp add: stop_ok_def placed_ok_def)
next
  case (Suc n)
  let ?s = "\<lparr>st_sys = c, st_phase = HoldLock\<rparr>"
  have h: "healthy (cs_db c)" and f: "cs_holder c \<noteq> Free" and cov: "covered c"
    using Suc.prems(1) by (simp_all add: stop_ok_def balanced_def placed_ok_def)
  have step: "own_step ?s \<lparr>st_sys = work_on c, st_phase = (if cs_holder (work_on c) = Free then StopReturned else HoldLock)\<rparr>"
    using own_step.go_on [of ?s] f by (simp add: call_ok [OF h])
  show ?case
  proof (cases "cs_holder (work_on c) = Free")
    case True
    with work_advances [OF cov, unfolded advances_def] f call_ok [OF h] have "pp_buffer (cs_pipe (work_on c)) = []" by auto
    with True step show ?thesis
      by (intro exI [of _ "work_on c"]) (simp add: work_queue own_steps_one [OF _ own_steps.none])
  next
    case False
    with step own_step_ok [OF step Suc.prems(1)] Suc.IH [of "work_on c"] Suc.prems(2)
    show ?thesis by (auto simp: work_queue funpow_Suc_right simp del: funpow.simps intro: own_steps_one)
  qed
qed

lemma asked_returns:
  assumes "stop_ok \<lparr>st_sys = c, st_phase = AskLock k\<rparr>"
  shows "\<exists>c'. own_steps \<lparr>st_sys = c, st_phase = AskLock k\<rparr> \<lparr>st_sys = c', st_phase = StopReturned\<rparr> \<and>
    cs_holder c' = Free \<and> cs_queue c' = drop (Suc k) (cs_queue c) \<and> pp_buffer (cs_pipe c') = []"
  using assms
proof (induction k arbitrary: c)
  case 0
  obtain n where n: "cs_holder ((work_on ^^ n) c) = Free" using works_end by blast
  define c1 where "c1 = (work_on ^^ n) c"
  note w = works_own [of c 0 n, folded c1_def]
  have ok: "stop_ok \<lparr>st_sys = c1, st_phase = AskLock 0\<rparr>" using own_steps_ok [OF w 0] .
  have f: "cs_holder c1 = Free" and qs: "cs_queue c1 = cs_queue c" using n by (simp_all add: c1_def works_queue)
  obtain q where q: "cs_queue c1 = RFlush # q"
    using ok by (cases "cs_queue c1") (auto simp: stop_ok_def placed_ok_def)
  let ?c = "grant (at 0) c1"
  note m = grant_moves [OF q f, of "at 0"]
  let ?p = "if cs_holder ?c = Free then StopReturned else HoldLock"
  have step: "own_step \<lparr>st_sys = c1, st_phase = AskLock 0\<rparr> \<lparr>st_sys = ?c, st_phase = ?p\<rparr>"
    using own_step.lock [of "\<lparr>st_sys = c1, st_phase = AskLock 0\<rparr>" "at 0"] f q by simp
  have "\<exists>c'. own_steps \<lparr>st_sys = ?c, st_phase = ?p\<rparr> \<lparr>st_sys = c', st_phase = StopReturned\<rparr> \<and>
    cs_holder c' = Free \<and> cs_queue c' = q \<and> pp_buffer (cs_pipe c') = []"
  proof (cases "cs_holder ?c = Free")
    case True
    then show ?thesis using m by (intro exI [of _ ?c]) (simp add: own_steps.none)
  next
    case False
    obtain n where "cs_holder ((work_on ^^ n) ?c) = Free" using works_end by blast
    from hold_returns [OF _ this] own_step_ok [OF step ok] False m(3) show ?thesis by simp
  qed
  then show ?case using own_steps_trans [OF own_steps_one [OF step] w] q qs by auto
next
  case (Suc k)
  obtain n where n: "cs_holder ((work_on ^^ n) c) = Free" using works_end by blast
  define c1 where "c1 = (work_on ^^ n) c"
  note w = works_own [of c "Suc k" n, folded c1_def]
  have ok: "stop_ok \<lparr>st_sys = c1, st_phase = AskLock (Suc k)\<rparr>" using own_steps_ok [OF w Suc.prems] .
  have f: "cs_holder c1 = Free" and qs: "cs_queue c1 = cs_queue c" using n by (simp_all add: c1_def works_queue)
  obtain r q where q: "cs_queue c1 = r # q"
    using ok by (cases "cs_queue c1") (auto simp: stop_ok_def placed_ok_def)
  have step: "own_step \<lparr>st_sys = c1, st_phase = AskLock (Suc k)\<rparr> \<lparr>st_sys = grant (at 0) c1, st_phase = AskLock k\<rparr>"
    using own_step.lock [of "\<lparr>st_sys = c1, st_phase = AskLock (Suc k)\<rparr>" "at 0"] f q by simp
  from Suc.IH [OF own_step_ok [OF step ok]] grant_moves(3) [OF q f] q qs
  show ?case using own_steps_trans [OF own_steps_one [OF step] w] by auto
qed

lemma join_returns:
  assumes "stop_ok \<lparr>st_sys = c, st_phase = JoinTask\<rparr>"
  shows "\<exists>c'. own_steps \<lparr>st_sys = c, st_phase = JoinTask\<rparr> \<lparr>st_sys = c', st_phase = StopReturned\<rparr> \<and>
    cs_holder c' = Free \<and> cs_queue c' = [] \<and> pp_buffer (cs_pipe c') = []"
proof -
  obtain c1 where l: "lruns c c1" and f: "cs_holder c1 = Free" "cs_queue c1 = []" using queue_drains by blast
  have w: "own_steps \<lparr>st_sys = c, st_phase = JoinTask\<rparr> \<lparr>st_sys = c1, st_phase = JoinTask\<rparr>" by (rule lruns_own [OF l]) simp
  have ok: "stop_ok \<lparr>st_sys = c1, st_phase = JoinTask\<rparr>" using own_steps_ok [OF w assms] .
  define c2 where "c2 = (if pp_task (cs_pipe c1) = Running then end_task c1 else c1)"
  have "own_steps \<lparr>st_sys = c1, st_phase = JoinTask\<rparr> \<lparr>st_sys = c2, st_phase = JoinTask\<rparr>"
  proof (cases "pp_task (cs_pipe c1) = Running")
    case True
    have "pp_stop (cs_pipe c1)" "task_idle c1" using ok f by (simp_all add: stop_ok_def task_idle_def)
    with True own_steps_one [OF own_step.task_ends [of "\<lparr>st_sys = c1, st_phase = JoinTask\<rparr>"] own_steps.none]
    show ?thesis by (simp add: c2_def)
  qed (simp add: c2_def own_steps.none)
  from own_steps_trans [OF this w] have w2: "own_steps \<lparr>st_sys = c, st_phase = JoinTask\<rparr> \<lparr>st_sys = c2, st_phase = JoinTask\<rparr>" .
  have "pp_task (cs_pipe c2) \<in> {NoTask, Finished}" and q: "cs_queue c2 = []"
    using ok f by (auto simp: c2_def stop_ok_def end_task_def intro: flush_task.exhaust [of "pp_task (cs_pipe c1)"])
  then have "own_step \<lparr>st_sys = c2, st_phase = JoinTask\<rparr> \<lparr>st_sys = ask_lock c2, st_phase = AskLock 0\<rparr>"
    using own_step.joined [of "\<lparr>st_sys = c2, st_phase = JoinTask\<rparr>"] by simp
  from own_steps.more [OF w2 this]
  have w3: "own_steps \<lparr>st_sys = c, st_phase = JoinTask\<rparr> \<lparr>st_sys = ask_lock c2, st_phase = AskLock 0\<rparr>" .
  have "drop (Suc 0) (cs_queue (ask_lock c2)) = []" by (simp add: ask_lock_def q)
  with asked_returns [OF own_steps_ok [OF w3 assms]] own_steps_trans [OF _ w3] show ?thesis by auto
qed

lemma returned_drains:
  "\<exists>c'. own_steps \<lparr>st_sys = c, st_phase = StopReturned\<rparr> \<lparr>st_sys = c', st_phase = StopReturned\<rparr> \<and> cs_holder c' = Free"
  using holder_finishes [of c] lruns_own [of c _ StopReturned] by blast

lemma called_returns:
  assumes "stop_ok s" and "st_phase s \<noteq> Serving"
  shows "\<exists>c'. own_steps s \<lparr>st_sys = c', st_phase = StopReturned\<rparr> \<and> cs_holder c' = Free \<and>
    (st_phase s = JoinTask \<longrightarrow> cs_queue c' = [] \<and> pp_buffer (cs_pipe c') = [])"
proof -
  obtain c p where s: "s = \<lparr>st_sys = c, st_phase = p\<rparr>" by (cases s) simp
  show ?thesis
  proof (cases p)
    case JoinTask
    with join_returns [of c] assms(1) s show ?thesis by simp
  next
    case (AskLock k)
    with asked_returns [of c k] assms(1) s show ?thesis by auto
  next
    case HoldLock
    obtain n where "cs_holder ((work_on ^^ n) c) = Free" using works_end by blast
    with hold_returns [of c n] assms(1) s HoldLock show ?thesis by auto
  next
    case StopReturned
    with returned_drains [of c] s show ?thesis by simp
  qed (use assms s in \<open>simp_all add: stop_ok_def\<close>)
qed

lemma stop_ok_new: "stop_ok (serving (new_csys m n t))"
  using covered_new(1) [where faults = "[]", unfolded no_faults_new] balanced_new
  by (simp add: stop_ok_def serving_def placed_ok_def) (simp add: new_csys_def start_def)

text \<open>
  C17. On a database that answers a call of \<open>stop()\<close> never raises, and it returns: from every state that can be reached after
  the call, steps of the lock, its holders, the flush task and the call itself, finitely many, lead to its return.
  What is stored, buffered and waiting then are the accepted events in order; if the call was still waiting for the flush task,
  all of them are stored and nothing waits.
\<close>

theorem stop_returns:
  assumes "stop_runs sha (serving (new_csys m n t)) tr s" and "st_phase s \<noteq> Serving"
  shows "(\<forall>e. st_phase s \<noteq> StopRaised e) \<and>
    (\<exists>s'. own_steps s s' \<and> st_phase s' = StopReturned \<and>
      persisted (cs_db (st_sys s')) @ pp_buffer (cs_pipe (st_sys s')) @ waiting (st_sys s') = tr \<and>
      (st_phase s = JoinTask \<longrightarrow> persisted (cs_db (st_sys s')) = tr))"
proof -
  have ok: "stop_ok s" by (rule stop_runs_ok [OF assms(1) stop_ok_new])
  from called_returns [OF this assms(2)] obtain c' where c': "own_steps s \<lparr>st_sys = c', st_phase = StopReturned\<rparr>"
    "cs_holder c' = Free" "st_phase s = JoinTask \<longrightarrow> cs_queue c' = [] \<and> pp_buffer (cs_pipe c') = []" by blast
  from stop_runs_trans [OF own_steps_runs [OF c'(1)] assms(1)]
  have "cruns sha (new_csys m n t) tr c'" using stop_runs_sys by (force simp: serving_def)
  then have "clog c' = tr" using cruns_balanced [OF _ balanced_new] by (simp add: clog_new)
  then have "persisted (cs_db c') @ pp_buffer (cs_pipe c') @ waiting c' = tr" using c'(2) by (simp add: clog_def unstored_def)
  with c' ok show ?thesis
    by (intro conjI exI [of _ "\<lparr>st_sys = c', st_phase = StopReturned\<rparr>"]) (auto simp: stop_ok_def waiting_def)
qed

section \<open>Examples\<close>

text \<open>One event waits for the lock when \<open>stop()\<close> is called.\<close>

definition called :: stopping where
  "called = \<lparr>st_sys = set_flag ((new_csys \<lparr>hm_compiled = []\<rparr> 100 1000)\<lparr>cs_queue := [RSubmit one_event]\<rparr>), st_phase = JoinTask\<rparr>"

lemma called_run: "stop_runs sha (serving (new_csys \<lparr>hm_compiled = []\<rparr> 100 1000)) [one_event] called"
proof -
  let ?c = "new_csys \<lparr>hm_compiled = []\<rparr> 100 1000"
  have t: "tagged (cs_idx ?c) (state_change 5 ''light.a'') = one_event"
    by (simp add: new_csys_def tagged_def lookup_def one_event_def)
  have q: "cs_queue ?c = []" by (simp add: new_csys_def)
  have "\<not> hidden (cs_pipe ?c) (state_change 5 ''light.a'')"
    by (simp add: new_csys_def hidden_def start_def new_pipeline_def matches_def)
  from estep.ask_submit [OF this] have "estep sha (st_sys (serving ?c)) [one_event] (?c\<lparr>cs_queue := [RSubmit one_event]\<rparr>)"
    by (simp add: t q serving_def)
  from stop_runs.more [OF stop_runs.here stop_step.env [OF this]]
  have "stop_runs sha (serving ?c) [one_event] \<lparr>st_sys = ?c\<lparr>cs_queue := [RSubmit one_event]\<rparr>, st_phase = Serving\<rparr>"
    by (simp add: serving_def)
  from stop_runs.more [OF this stop_step.own [OF own_step.call]] show ?thesis by (simp add: called_def)
qed

lemma stop_returns_witness:
  "\<exists>s'. own_steps called s' \<and> st_phase s' = StopReturned \<and> persisted (cs_db (st_sys s')) = [one_event]"
  using stop_returns [OF called_run [of "\<lambda>x. x"]] by (auto simp: called_def)

lemma stop_that_returns_has_stored_witness:
  "\<exists>s'. own_steps called s' \<and> st_phase s' = StopReturned \<and> one_event \<in> set (persisted (cs_db (st_sys s')))"
proof -
  have "stop_ok called" by (rule stop_runs_ok [OF called_run [of "\<lambda>x. x"] stop_ok_new])
  moreover have p: "st_phase called = JoinTask" by (simp add: called_def)
  ultimately obtain c' where c': "own_steps called \<lparr>st_sys = c', st_phase = StopReturned\<rparr>"
    using called_returns [of called] by auto
  have run: "stop_runs (\<lambda>x. x) (serving ((new_csys \<lparr>hm_compiled = []\<rparr> 100 1000)\<lparr>cs_db := empty_db\<lparr>db_faults := []\<rparr>\<rparr>)) [one_event] called"
    unfolding no_faults_new by (rule called_run)
  have "st_phase called \<in> {Serving, JoinTask}" "st_phase \<lparr>st_sys = c', st_phase = StopReturned\<rparr> = StopReturned"
    using p by simp_all
  from stop_that_returns_has_stored [OF run this(1) own_steps_runs [OF c'] this(2)]
  have "one_event \<in> set (persisted (cs_db (st_sys \<lparr>st_sys = c', st_phase = StopReturned\<rparr>)))" by simp
  with c' show ?thesis by (intro exI [of _ "\<lparr>st_sys = c', st_phase = StopReturned\<rparr>"]) simp
qed

end
