(* ===== verification/IngestProps.thy ===== *)
theory IngestProps
  imports IngestSystem
begin

text \<open>
  The correctness properties of the ingest pipeline: what every run of it stores, counts and
  drops, with and without failing connections, and what the boundaries of a batch are.
\<close>

section \<open>The shape of the buffer\<close>

definition timer_ok :: "pipeline \<Rightarrow> bool" where
  "timer_ok pl \<longleftrightarrow> (pp_first_added pl = None \<longleftrightarrow> pp_buffer pl = [])"

lemma commit_timer: "timer_ok pl \<Longrightarrow> commit_locked ck idx (pl, d) = (r, pl', d') \<Longrightarrow> timer_ok pl'"
  by (auto simp: commit_locked_def timer_ok_def split: if_splits prod.splits sum.splits)

lemma commit_size: "commit_locked ck idx (pl, d) = (r, pl', d') \<Longrightarrow> pp_batch_size pl' = pp_batch_size pl"
  by (auto simp: commit_locked_def split: if_splits prod.splits sum.splits)

lemma timer_ok_simps [simp]:
  "timer_ok (pl\<lparr>pp_stop := b\<rparr>) = timer_ok pl"
  "timer_ok (pl\<lparr>pp_task := t\<rparr>) = timer_ok pl"
  "timer_ok (pl\<lparr>pp_hide := m\<rparr>) = timer_ok pl"
  by (simp_all add: timer_ok_def)

text \<open>A property of the pipeline that does not depend on the task, the stop flag or the patterns.\<close>

lemma istep_pipe_inv:
  assumes indep: "\<And>pl b t m. P pl \<Longrightarrow> P (pl\<lparr>pp_stop := b\<rparr>) \<and> P (pl\<lparr>pp_task := t\<rparr>) \<and> P (pl\<lparr>pp_hide := m\<rparr>)"
    and commit: "\<And>ck idx pl d r pl' d'. P pl \<Longrightarrow> commit_locked ck idx (pl, d) = (r, pl', d') \<Longrightarrow> P pl'"
    and submit: "\<And>ck idx ev pl d r pl' d'. P pl \<Longrightarrow> \<not> hidden pl ev \<Longrightarrow>
      submit ck idx ev (pl, d) = (r, pl', d') \<Longrightarrow> P pl'"
    and "P (is_pipe s)"
  shows "P (is_pipe (snd (istep sha op s)))"
proof -
  have c: "P (fst (snd (commit_locked ck idx (pl, d))))" if "P pl" for ck idx pl d
    using commit [OF that] by (metis prod.collapse)
  show ?thesis
  proof (cases op)
    case (Submit ck ev)
    show ?thesis
    proof (cases "hidden (is_pipe s) ev")
      case True
      then show ?thesis using assms(4)
        by (simp add: Submit istep_def submit_hidden case_prod_unfold)
    next
      case False
      from submit [OF assms(4) False] have "P (fst (snd (submit ck (is_idx s) ev (is_pipe s, is_db s))))"
        by (metis prod.collapse)
      then show ?thesis by (simp add: Submit istep_def case_prod_unfold)
    qed
  next
    case (Flush ck)
    then show ?thesis using c assms(4) by (simp add: istep_def flush_def case_prod_unfold)
  next
    case (Tick ck)
    then show ?thesis using c assms(4) indep
      by (auto simp: istep_def periodic_tick_def case_prod_unfold split: option.split sum.split)
  next
    case (Stop ck)
    have "P ((is_pipe s)\<lparr>pp_stop := True, pp_task := Finished\<rparr>)"
      using indep [OF conjunct1 [OF indep [OF assms(4)]]] by blast
    then show ?thesis using c assms(4) indep Stop
      by (auto simp: istep_def stop_def flush_def case_prod_unfold split: flush_task.split)
  next
    case (ApplyTopology p ts)
    then show ?thesis using assms(4)
      by (auto simp: istep_def case_prod_unfold split: sum.split)
  qed (use assms(4) indep in \<open>auto simp: istep_def start_def\<close>)
qed

lemma submit_timer:
  assumes "timer_ok pl" and "submit ck idx ev (pl, d) = (r, pl', d')"
  shows "timer_ok pl'"
proof (cases "hidden pl ev")
  case True
  with assms show ?thesis by (auto simp: submit_hidden split: prod.splits)
next
  case False
  let ?pl = "pl\<lparr>pp_buffer := pp_buffer pl @ [tagged idx ev],
    pp_first_added := (case pp_first_added pl of None \<Rightarrow> Some (ck_mono ck) | Some t \<Rightarrow> Some t)\<rparr>"
  have "timer_ok ?pl" by (simp add: timer_ok_def split: option.split)
  moreover have "commit_locked ck idx (?pl, d) = (r, pl', d') \<or> pl' = ?pl"
    using False assms(2) by (auto simp: submit_def hidden_def tagged_def Let_def split: if_splits)
  ultimately show ?thesis using commit_timer by blast
qed

lemma irun_timer: "timer_ok (is_pipe s) \<Longrightarrow> timer_ok (is_pipe (irun sha ops s))"
proof (rule irun_inv [where P = "\<lambda>s. timer_ok (is_pipe s)"])
  fix op and s :: isys
  assume "timer_ok (is_pipe s)"
  then show "timer_ok (is_pipe (snd (istep sha op s)))"
    by (rule istep_pipe_inv [rotated 3]) (auto intro: commit_timer submit_timer)
qed

text \<open>Without faults every batch is committed when it is full.\<close>

definition bounded :: "int \<Rightarrow> isys \<Rightarrow> bool" where
  "bounded n s \<longleftrightarrow> healthy (is_db s) \<and> pp_batch_size (is_pipe s) = n \<and> int (length (pending s)) < max 1 n"

lemma healthy_conj: "healthy d \<Longrightarrow> db_wf d \<and> db_faults d = []"
  by (simp add: healthy_def)

lemma istep_size: "pp_batch_size (is_pipe (snd (istep sha op s))) = pp_batch_size (is_pipe s)"
proof (rule istep_pipe_inv [where P = "\<lambda>pl. pp_batch_size pl = pp_batch_size (is_pipe s)"])
  fix ck idx ev r pl' d' and pl :: pipeline and d :: db
  assume a: "pp_batch_size pl = pp_batch_size (is_pipe s)" "\<not> hidden pl ev"
    "submit ck idx ev (pl, d) = (r, pl', d')"
  then show "pp_batch_size pl' = pp_batch_size (is_pipe s)"
    by (auto simp: submit_def hidden_def Let_def dest!: commit_size split: if_splits)
qed (auto dest: commit_size)

lemma commit_empties:
  assumes "healthy d"
  obtains pl' d' where "commit_locked ck idx (pl, d) = (Inr (), pl', d')" "pp_buffer pl' = []"
    "persisted d' = persisted d @ pp_buffer pl"
proof -
  obtain r pl' d' where eq: "commit_locked ck idx (pl, d) = (r, pl', d')" by (metis surj_pair)
  obtain d'' where "batch_commit (write_batch (ck_wall ck) idx) (pp_buffer pl, d) = (Inr (), [], d'')"
    "persisted d'' = persisted d @ pp_buffer pl"
    using sink.commit_healthy [OF healthy_conj [OF assms], of "ck_wall ck" idx "pp_buffer pl"] by auto
  with commit_view [of ck idx pl d] eq have "r = Inr () \<and> pp_buffer pl' = [] \<and> d' = d''"
    by (simp add: view_def)
  with eq \<open>persisted d'' = persisted d @ pp_buffer pl\<close> show thesis by (auto intro: that)
qed

lemma istep_bounded:
  assumes "bounded n s" shows "bounded n (snd (istep sha op s))"
proof -
  have h: "healthy (is_db s)" and n: "pp_batch_size (is_pipe s) = n"
    and l: "int (length (pending s)) < max 1 n"
    using assms by (simp_all add: bounded_def)
  have "int (length (pending (snd (istep sha op s)))) < max 1 n"
  proof (cases "\<exists>ck ev. op = Submit ck ev \<and> \<not> hidden (is_pipe s) ev")
    case True
    then obtain ck ev where op: "op = Submit ck ev" and nh: "\<not> hidden (is_pipe s) ev" by blast
    obtain r pl d where eq: "submit ck (is_idx s) ev (is_pipe s, is_db s) = (r, pl, d)" by (metis surj_pair)
    have push: "batch_push (write_batch (ck_wall ck) (is_idx s)) n (tagged (is_idx s) ev) (pending s, is_db s)
        = (r, pp_buffer pl, d)"
      using submit_view [OF nh, of ck "is_idx s" "is_db s"] eq n by (simp add: view_def pending_def)
    with sink.push_healthy [OF healthy_conj [OF h], of "ck_wall ck" "is_idx s" n "tagged (is_idx s) ev" "pending s"]
    have "r = Inr ()" by auto
    with push have "int (length (pp_buffer pl)) < max 1 n" by (auto intro: batch_push_bound)
    then show ?thesis by (simp add: op istep_def eq pending_def)
  next
    case False
    obtain r s' where eq: "istep sha op s = (r, s')" by fastforce
    have no: "accepted_by op s = []" using False by (cases op) (auto simp: accepted_by_def)
    from eq have "pending s' = pending s \<or> pending s' = []"
    proof (cases rule: istep_cases)
      case (commit w r')
      from batch_commit_buffer [OF commit(2)] show ?thesis .
    qed (use no in auto)
    with eq l show ?thesis by auto
  qed
  then show ?thesis by (simp add: bounded_def istep_healthy [OF h] istep_size n)
qed

section \<open>Storing\<close>

lemma fresh_facts:
  "pending (new_isys m n t fs) = []" "persisted (is_db (new_isys m n t fs)) = []"
  "db_wf (is_db (new_isys m n t fs))"
  "timer_ok (is_pipe (new_isys m n t fs))"
  "counter_of (is_db (new_isys m n t fs)) k = 0" "events_in k (is_db (new_isys m n t fs)) = 0"
  "drop_total (is_db (new_isys m n t fs)) = 0"
  by (simp_all add: new_isys_def new_pipeline_def pending_def persisted_def timer_ok_def db_wf_empty
      counter_of_def events_in_def drop_total_def) (simp_all add: empty_db_def)

lemma fresh_healthy: "healthy (is_db (new_isys m n t []))"
  by (simp add: healthy_def fresh_facts) (simp add: new_isys_def empty_db_def)

lemma fresh_counters: "counters_exact (is_db (new_isys m n t fs))" "counters_below (is_db (new_isys m n t fs))"
  unfolding counters_exact_def counters_below_def fresh_facts by simp_all

lemma in_bucket_spelled: "in_bucket (area, hour) =
    (\<lambda>r. area \<noteq> [] \<and> ev_area_id r = Some area \<and> ev_ts r div 3600000 = hour)"
proof
  fix r show "in_bucket (area, hour) r =
    (area \<noteq> [] \<and> ev_area_id r = Some area \<and> ev_ts r div 3600000 = hour)"
    by (cases "ev_area_id r") (auto simp: in_bucket_def bucket_for_def)
qed

lemma irun_bounded: "bounded n (irun sha ops (new_isys m n t []))"
proof (rule irun_inv [where P = "bounded n", OF istep_bounded])
  show "bounded n (new_isys m n t [])"
    unfolding bounded_def fresh_facts using fresh_healthy by (simp add: new_isys_def new_pipeline_def)
qed

lemma flush_stores:
  assumes "healthy (is_db s)"
  shows "\<exists>s'. istep sha (Flush ck) s = (Inr (), s') \<and> pending s' = [] \<and> persisted (is_db s') = iheld s"
proof -
  obtain pl d where "commit_locked ck (is_idx s) (is_pipe s, is_db s) = (Inr (), pl, d)" "pp_buffer pl = []"
    "persisted d = persisted (is_db s) @ pp_buffer (is_pipe s)" by (rule commit_empties [OF assms])
  then show ?thesis by (simp add: istep_def flush_def pending_def iheld_def)
qed

text \<open>
  C4. When every connection succeeds, the pipeline stores every event it accepts exactly once, in the order of
  submission, now or at the next flush. After any sequence of submissions, flushes, ticks, stops, topology refreshes and
  pattern reloads, the stored events followed by those still in the buffer are the accepted submissions, each
  with the snapshot id its entity had when it was submitted; the buffer is shorter than a batch; and a flush
  returns with every accepted event in the table and the buffer empty. Each submission hidden by the patterns of its
  moment is one privacy drop.
\<close>

theorem ingest_exactly_once:
  "(let s = new_isys m batch_size interval []; s' = irun sha ops s; (r, s'') = istep sha (Flush ck) s' in
     persisted (is_db s') @ pending s' = accepted sha ops s \<and>
     int (length (pending s')) < max 1 batch_size \<and>
     r = Inr () \<and> persisted (is_db s'') = accepted sha ops s \<and> pending s'' = [] \<and>
     drop_total (is_db s') = dropped sha ops s)"
proof -
  let ?s = "new_isys m batch_size interval []"
  have h: "iheld (irun sha ops ?s) = accepted sha ops ?s"
    using irun_held [OF fresh_healthy, of sha ops m batch_size interval] by (simp add: fresh_facts iheld_def)
  obtain s'' where "istep sha (Flush ck) (irun sha ops ?s) = (Inr (), s'')" "pending s'' = []"
    "persisted (is_db s'') = accepted sha ops ?s"
    using flush_stores [OF irun_healthy [OF fresh_healthy], of sha ck sha ops m batch_size interval] h by auto
  then show ?thesis
    using h irun_bounded [of batch_size sha ops m interval] irun_drops [OF fresh_healthy, of sha ops m batch_size interval]
    by (simp add: Let_def fresh_facts iheld_def bounded_def)
qed

text \<open>
  Whatever connections fail, and whatever exceptions that gives, no accepted
  event is lost and none is made up: the events stored or still in the buffer
  are those accepted (a failed commit can store an event more than once).
\<close>

theorem ingest_at_least_once:
  "(let s = new_isys m batch_size interval faults; s' = irun sha ops s in
     set (persisted (is_db s')) \<union> set (pending s') = set (accepted sha ops s))"
  using irun_keeps [of sha ops "new_isys m batch_size interval faults"]
  by (simp add: Let_def fresh_facts iheld_def)

text \<open>
  Without failing connections the hourly counters of the areas agree with the event table
  at every moment: the counter of a non-empty area and an hour is the number of stored events
  with that area and a timestamp in that hour.
\<close>

theorem counters_match_events:
  "(let s = irun sha ops (new_isys m batch_size interval []) in
     counter_of (is_db s) (area, hour) =
       count_of (\<lambda>r. area \<noteq> [] \<and> ev_area_id r = Some area \<and> ev_ts r div 3600000 = hour)
         (map snd (db_events (is_db s))))"
  using irun_counters_exact [OF fresh_healthy fresh_counters(1), of sha ops m batch_size interval]
  by (simp add: Let_def counters_exact_def events_in_def in_bucket_spelled)

text \<open>
  Whatever connections fail, a counter never exceeds the number of stored events of its area and hour.
\<close>

theorem counters_never_exceed_events:
  "(let s = irun sha ops (new_isys m batch_size interval faults) in
     counter_of (is_db s) (area, hour) \<le>
       count_of (\<lambda>r. area \<noteq> [] \<and> ev_area_id r = Some area \<and> ev_ts r div 3600000 = hour)
         (map snd (db_events (is_db s))))"
  using irun_counters_below [OF fresh_facts(3) fresh_counters(2), of sha ops m batch_size interval faults]
  by (simp add: Let_def counters_below_def events_in_def in_bucket_spelled)

text \<open>
  Without failing connections the buffer never reaches the batch size, and the timer of the
  interval policy runs exactly when something is waiting.
\<close>

theorem batch_is_bounded:
  "(let s = irun sha ops (new_isys m batch_size interval []) in
     int (length (pp_buffer (is_pipe s))) < max 1 batch_size \<and>
     (pp_first_added (is_pipe s) = None \<longleftrightarrow> pp_buffer (is_pipe s) = []))"
proof -
  have "bounded batch_size (irun sha ops (new_isys m batch_size interval []))" by (rule irun_bounded)
  moreover have "timer_ok (is_pipe (irun sha ops (new_isys m batch_size interval [])))"
    by (rule irun_timer) (rule fresh_facts)
  ultimately show ?thesis by (simp add: Let_def bounded_def timer_ok_def pending_def)
qed

text \<open>
  A submission that the patterns hide returns without touching the pipeline and
  changes no table but \<open>privacy_drops\<close>, whether its connection fails or not; every other
  table is as it was.
\<close>

theorem hidden_event_leaves_no_trace:
  assumes "matches (pp_hide pl) (he_entity_id ev)"
  shows "\<exists>r d'. submit ck idx ev (pl, d) = (r, pl, d') \<and>
    d' = d\<lparr>db_drops := db_drops d', db_faults := tl (db_faults d)\<rparr>"
proof -
  have "hidden pl ev" using assms by (simp add: hidden_def)
  then show ?thesis
    by (simp add: submit_hidden increment_privacy_drop_def)
qed

lemma hidden_event_leaves_no_trace_witness:
  "\<exists>r d'. submit (at 7200000) [] (state_change 1 ''light.a'')
      (new_pipeline \<lparr>hm_compiled = [\<lambda>e. e = ''light.a'']\<rparr> 100 1000, empty_db) =
      (r, new_pipeline \<lparr>hm_compiled = [\<lambda>e. e = ''light.a'']\<rparr> 100 1000, d') \<and>
    d' = empty_db\<lparr>db_drops := db_drops d', db_faults := tl (db_faults empty_db)\<rparr>"
  by (rule hidden_event_leaves_no_trace) (simp add: new_pipeline_def matches_def state_change_def)

section \<open>The boundaries of a batch\<close>

text \<open>
  On a database that answers, a stop of a pipeline whose flush task has not died stores
  everything still in the buffer and leaves it empty.
\<close>

theorem stop_stores_the_rest:
  assumes "healthy d" and "\<And>e. pp_task pl \<noteq> Died e"
  shows "\<exists>pl' d'. stop ck idx (pl, d) = (Inr (), pl', d') \<and> pp_buffer pl' = [] \<and> pp_stop pl' \<and>
    persisted d' = persisted d @ pp_buffer pl"
proof -
  have *: "\<exists>pl' d'. commit_locked ck idx (q, d) = (Inr (), pl', d') \<and> pp_buffer pl' = [] \<and> pp_stop pl' \<and>
      persisted d' = persisted d @ pp_buffer pl" if "pp_buffer q = pp_buffer pl" "pp_stop q" for q :: pipeline
  proof -
    obtain pl' d' where "commit_locked ck idx (q, d) = (Inr (), pl', d')" "pp_buffer pl' = []"
      "persisted d' = persisted d @ pp_buffer q" by (rule commit_empties [OF assms(1)])
    moreover from this(1) that(2) have "pp_stop pl'"
      by (auto simp: commit_locked_def split: if_splits prod.splits sum.splits)
    ultimately show ?thesis using that(1) by auto
  qed
  show ?thesis
    using * [of "pl\<lparr>pp_stop := True, pp_task := Finished\<rparr>"] * [of "pl\<lparr>pp_stop := True\<rparr>"] assms(2)
    by (cases "pp_task pl") (auto simp: stop_def flush_def)
qed

lemma stop_stores_the_rest_witness:
  "\<exists>pl' d'. stop (at 5) [] (start (new_pipeline \<lparr>hm_compiled = []\<rparr> 100 1000)\<lparr>pp_buffer :=
      [(state_change 1 ''light.a'', 0)]\<rparr>, empty_db) =
      (Inr (), pl', d') \<and> pp_buffer pl' = [] \<and> pp_stop pl' \<and>
    persisted d' = persisted empty_db @ [(state_change 1 ''light.a'', 0)]"
  using stop_stores_the_rest [OF healthy_empty, of "start (new_pipeline \<lparr>hm_compiled = []\<rparr> 100 1000)\<lparr>pp_buffer :=
      [(state_change 1 ''light.a'', 0)]\<rparr>"
      "at 5" "[]"]
  by (simp add: start_def new_pipeline_def)

text \<open>
  The interval policy: from a state whose timer runs exactly when something waits, after a turn of the running flush task on a database that answers,
  whatever is still waiting has waited less than the batch interval.
\<close>

theorem tick_keeps_the_deadline:
  assumes "healthy d" and "pp_task pl = Running" and "\<not> pp_stop pl"
    and "pp_first_added pl = None \<longleftrightarrow> pp_buffer pl = []"
    and "periodic_tick ck idx (pl, d) = (pl', d')" and "pp_first_added pl' = Some t"
  shows "ck_mono ck - t < pp_batch_interval pl'"
proof (cases "pp_first_added pl")
  case None
  with assms show ?thesis by (simp add: periodic_tick_def)
next
  case (Some t0)
  show ?thesis
  proof (cases "pp_batch_interval pl \<le> ck_mono ck - t0")
    case True
    obtain pl1 d1 where c: "commit_locked ck idx (pl, d) = (Inr (), pl1, d1)" "pp_buffer pl1 = []"
      by (rule commit_empties [OF assms(1)])
    then have "pl' = pl1" using True Some assms(2,3,5) by (simp add: periodic_tick_def)
    moreover have "timer_ok pl1" using assms(4) by (intro commit_timer [OF _ c(1)]) (simp add: timer_ok_def)
    ultimately show ?thesis using c(2) assms(6) by (simp add: timer_ok_def)
  next
    case False
    with Some assms show ?thesis by (simp add: periodic_tick_def)
  qed
qed

lemma tick_keeps_the_deadline_witness:
  "ck_mono (at 700) - 200 < pp_batch_interval (start (new_pipeline \<lparr>hm_compiled = []\<rparr> 100 1000))"
  using tick_keeps_the_deadline [OF healthy_empty, of "start (new_pipeline \<lparr>hm_compiled = []\<rparr> 100 1000)\<lparr>pp_buffer :=
      [(state_change 1 ''light.a'', 0)],
      pp_first_added := Some 200\<rparr>" "at 700" "[]" _ _ 200]
  by (simp add: start_def new_pipeline_def periodic_tick_def at_def)

text \<open>
  C20. A flush task that died on an exception makes \<open>stop\<close> raise before its last flush: an accepted
  event that waits in the buffer then stays unwritten although the database answers again.
\<close>

theorem stop_after_a_dead_task_loses_the_buffer:
  assumes "\<not> matches m (he_entity_id ev)" and "interval \<le> ck_mono ck1 - ck_mono ck0" and "1 < batch_size"
  shows "(let s = irun sha [Start, Submit ck0 ev, Tick ck1] (new_isys m batch_size interval [True]);
              (r, s') = istep sha (Stop ck2) s
          in r = Inl OperationalError \<and> db_faults (is_db s) = [] \<and>
             persisted (is_db s') = [] \<and> pending s' = [(ev, 0)])"
  using assms
  by (simp add: istep_def start_def new_isys_def new_pipeline_def submit_def lookup_def
      periodic_tick_def commit_locked_def write_batch_def commit_scan_def scan_event_def Let_def
      insert_events_def stop_def persisted_def pending_def empty_db_def)

lemma stop_after_a_dead_task_loses_the_buffer_witness:
  "(let s = irun (\<lambda>x. x) [Start, Submit (at 0) (state_change 1 ''light.a''), Tick (at 1000)]
       (new_isys \<lparr>hm_compiled = []\<rparr> 100 1000 [True]);
     (r, s') = istep (\<lambda>x. x) (Stop (at 1001)) s
   in r = Inl OperationalError \<and> db_faults (is_db s) = [] \<and>
      persisted (is_db s') = [] \<and> pending s' = [(state_change 1 ''light.a'', 0)])"
  by (rule stop_after_a_dead_task_loses_the_buffer) (simp_all add: matches_def at_def)

text \<open>
  C19. A commit that raises after its events are stored keeps the buffer, and the next flush on
  a database that answers stores the same events a second time. The counters count them once more than the
  failed commit did: not at all in an area and hour it had not reached, so once in the end, else twice.
\<close>

theorem failed_commit_stores_twice:
  assumes "db_wf d" and "flush ck0 idx (pl, d) = (Inl e, pl1, d1)"
    and "db_events d1 \<noteq> db_events d" and "db_faults d1 = []"
  shows "let n = count_of (in_bucket k) (map (event_row_of (ck_wall ck0) idx) (pp_buffer pl)) in
    pl1 = pl \<and> persisted d1 = persisted d @ pp_buffer pl \<and>
    counter_of d k \<le> counter_of d1 k \<and> counter_of d1 k \<le> counter_of d k + n \<and>
    (\<exists>pl2 d2. flush ck1 idx (pl1, d1) = (Inr (), pl2, d2) \<and> pp_buffer pl2 = [] \<and>
      persisted d2 = persisted d @ pp_buffer pl @ pp_buffer pl \<and> counter_of d2 k = counter_of d1 k + n)"
proof -
  let ?buf = "pp_buffer pl"
  have ne: "?buf \<noteq> []" using assms(2) by (auto simp: flush_def commit_locked_def)
  then have w1: "write_batch (ck_wall ck0) idx ?buf d = (Inl e, d1)" and pl1: "pl1 = pl"
    using assms(2) by (auto simp: flush_def commit_locked_def split: prod.splits sum.splits)
  have wf: "db_wf d1" using write_batch_wf [OF assms(1), of "ck_wall ck0" idx ?buf] by (simp add: w1)
  from write_batch_grows [OF assms(1) w1] obtain rows where
    r: "rows = [] \<or> rows = map (event_row_of (ck_wall ck0) idx) ?buf"
      "db_events d1 = db_events d @ insert_event_rows rows (db_event_seq d)"
      "counter_of d k \<le> counter_of d1 k \<and> counter_of d1 k \<le> counter_of d k + count_of (in_bucket k) rows" by metis
  with assms(3) have rows: "rows = map (event_row_of (ck_wall ck0) idx) ?buf" by auto
  have p1: "persisted d1 = persisted d @ ?buf" by (rule persisted_append) (use r(2) rows in simp)
  obtain d2 where w2: "write_batch (ck_wall ck1) idx ?buf d1 = (Inr (), d2)"
    "counter_of d2 k = counter_of d1 k + count_of (in_bucket k) (map (event_row_of (ck_wall ck1) idx) ?buf)"
    using write_batch_ok [OF wf assms(4)] by metis
  have "count_of (in_bucket k) (map (event_row_of (ck_wall ck1) idx) ?buf) =
      count_of (in_bucket k) (map (event_row_of (ck_wall ck0) idx) ?buf)"
    by (simp add: count_of_map comp_def in_bucket_def row_simps)
  moreover have "persisted d2 = persisted d1 @ ?buf" using sink.write_ok [OF w2(1)] by simp
  moreover have "flush ck1 idx (pl, d1) = (Inr (), pl\<lparr>pp_buffer := [], pp_first_added := None\<rparr>, d2)"
    using ne w2(1) by (simp add: flush_def commit_locked_def)
  ultimately show ?thesis using r(3) w2(2) p1 by (simp add: Let_def pl1 rows)
qed

text \<open>Two areas, and a connection that fails between their counters.\<close>

definition two_rooms :: entity_index where
  "two_rooms = [(''light.a'', \<lparr>rf_device_id = None, rf_area_id = Some ''hall'', rf_device_class = None, rf_snapshot_id = 1\<rparr>),
     (''light.b'', \<lparr>rf_device_id = None, rf_area_id = Some ''den'', rf_device_class = None, rf_snapshot_id = 1\<rparr>)]"

definition two_waiting :: pipeline where
  "two_waiting = (new_pipeline \<lparr>hm_compiled = []\<rparr> 100 1000)
     \<lparr>pp_buffer := [(state_change 1 ''light.a'', 1), (state_change 2 ''light.b'', 1)]\<rparr>"

lemma failed_commit_stores_twice_witness:
  "let d = empty_db\<lparr>db_faults := [False, False, True]\<rparr>; (r1, pl1, d1) = flush (at 0) two_rooms (two_waiting, d);
     (r2, pl2, d2) = flush (at 1) two_rooms (pl1, d1)
   in r1 = Inl OperationalError \<and> pl1 = two_waiting \<and> r2 = Inr () \<and> pp_buffer pl2 = [] \<and>
     persisted d2 = pp_buffer two_waiting @ pp_buffer two_waiting \<and>
     counter_of d2 (''hall'', 0) = 2 \<and> counter_of d2 (''den'', 0) = 1"
proof -
  let ?d = "empty_db\<lparr>db_faults := [False, False, True]\<rparr>"
  have sc: "scan_areas 0 two_rooms (pp_buffer two_waiting) = [((''hall'', 0), 1), ((''den'', 0), 1)]"
    by (simp add: scan_areas_def commit_scan_def scan_event_def event_row_of_def lookup_def state_change_def two_rooms_def
        dict_add_def bucket_for_def two_waiting_def Let_def)
  obtain d1 where f: "flush (at 0) two_rooms (two_waiting, ?d) = (Inl OperationalError, two_waiting, d1)"
    and d1: "db_events d1 \<noteq> db_events ?d" "db_faults d1 = []" "counter_of d1 (''hall'', 0) = 1" "counter_of d1 (''den'', 0) = 0"
    using sc by (simp add: flush_def commit_locked_def write_batch_def commit_scan_eq insert_events_def increment_counter_def
        empty_db_def at_def two_waiting_def counter_of_def count_update_def)
  have n: "count_of (in_bucket k) (map (event_row_of 0 two_rooms) (pp_buffer two_waiting)) =
      dict_num [((''hall'', 0), 1), ((''den'', 0), 1)] k" for k
    using scan_areas_num [of 0 two_rooms "pp_buffer two_waiting" k] sc by simp
  have wf: "db_wf ?d" "persisted ?d = []" by (simp_all add: db_wf_empty) (simp add: persisted_def empty_db_def)
  note t = failed_commit_stores_twice [OF wf(1) f d1(1,2), of _ "at 1"]
  have w: "ck_wall (at 0) = 0" by (simp add: at_def)
  from t [of "(''hall'', 0)"] t [of "(''den'', 0)"] show ?thesis
    by (auto simp: Let_def f n wf d1 w dict_num_def)
qed

text \<open>
  C18. A commit on a database that answers counts a batch once for each of its entities, however
  many events the batch holds for it, and sets \<open>last_seen_at\<close> to the timestamp of the entity's
  last event in the buffer; the rows of other entities stay as they are.
\<close>

theorem commit_counts_an_entity_once:
  assumes "healthy d" and "commit_locked ck idx (pl, d) = (r, pl', d')"
  shows "tbl_find er_entity_id e (db_entities d') =
    (case find (\<lambda>x. he_entity_id (fst x) = e) (rev (pp_buffer pl)) of
       None \<Rightarrow> tbl_find er_entity_id e (db_entities d)
     | Some x \<Rightarrow> map_option (\<lambda>row. row\<lparr>er_event_count_24h := er_event_count_24h row + 1,
           er_total_event_count := er_total_event_count row + 1, er_last_seen_at := he_ts_ms (fst x)\<rparr>)
         (tbl_find er_entity_id e (db_entities d)))"
proof (cases "pp_buffer pl = []")
  case True
  with assms(2) show ?thesis by (simp add: commit_locked_def)
next
  case False
  obtain d1 where w: "write_batch (ck_wall ck) idx (pp_buffer pl) d = (Inr (), d1)"
    "\<And>e. tbl_find er_entity_id e (db_entities d1) =
       (case map_of (scan_last (ck_wall ck) idx (pp_buffer pl)) e of
          None \<Rightarrow> tbl_find er_entity_id e (db_entities d)
        | Some t \<Rightarrow> map_option (bump_row t) (tbl_find er_entity_id e (db_entities d)))"
    using healthy_conj [OF assms(1)] write_batch_ok by metis
  have "d' = d1" using assms(2) w(1) False by (simp add: commit_locked_def)
  with w(2) [of e] show ?thesis
    by (simp add: scan_last_value bump_row_def [abs_def] split: option.split)
qed

lemma commit_counts_an_entity_once_witness:
  "\<exists>row. tbl_find er_entity_id ''light.a'' (db_entities (snd (snd (commit_locked (at 9) []
      (new_pipeline \<lparr>hm_compiled = []\<rparr> 100 1000\<lparr>pp_buffer :=
         [(state_change 1 ''light.a'', 0), (state_change 2 ''light.a'', 0), (state_change 3 ''light.b'', 0)]\<rparr>,
       snd (upsert_entities [entity_row_of [] 1 0 [(''entity_id'', JStr ''light.a'')]] empty_db)))))) = Some row \<and>
    er_total_event_count row = 1 \<and> er_last_seen_at row = 2"
proof -
  let ?d = "snd (upsert_entities [entity_row_of [] 1 0 [(''entity_id'', JStr ''light.a'')]] empty_db)"
  let ?pl = "new_pipeline \<lparr>hm_compiled = []\<rparr> 100 1000\<lparr>pp_buffer :=
         [(state_change 1 ''light.a'', 0), (state_change 2 ''light.a'', 0), (state_change 3 ''light.b'', 0)]\<rparr>"
  have h: "healthy ?d"
    unfolding healthy_def by (intro conjI upsert_entities_wf db_wf_empty no_faults_kept) (simp add: empty_db_def)
  obtain r pl' d' where eq: "commit_locked (at 9) [] (?pl, ?d) = (r, pl', d')" by (metis surj_pair)
  then have d': "snd (snd (commit_locked (at 9) [] (?pl, ?d))) = d'" by simp
  have "tbl_find er_entity_id ''light.a'' (db_entities ?d) = Some (entity_row_of [] 1 0 [(''entity_id'', JStr ''light.a'')])"
    by (simp add: upsert_entities_def entity_row_of_def get_s_def empty_db_def Let_def connect_def)
  with commit_counts_an_entity_once [OF h eq, of "''light.a''"] show ?thesis
    unfolding d' by (simp add: state_change_def) (simp add: entity_row_of_def Let_def)
qed

text \<open>
  A stored event carries the area of the entity at the commit, but the snapshot id of the
  submission: a topology refresh between the two changes only the former.
\<close>

theorem enrichment_is_at_commit:
  assumes "healthy d" and "\<not> matches (pp_hide pl) (he_entity_id ev)" and "pp_buffer pl = []"
    and "1 < pp_batch_size pl"
  shows "\<exists>pl1 pl2 d2 r. submit ck0 idx0 ev (pl, d) = (Inr (), pl1, d) \<and>
    flush ck1 idx1 (pl1, d) = (Inr (), pl2, d2) \<and>
    db_events d2 = db_events d @ [(db_event_seq d + 1, r)] \<and>
    ev_area_id r = (case lookup idx1 (he_entity_id ev) of None \<Rightarrow> None | Some f \<Rightarrow> rf_area_id f) \<and>
    ev_snapshot_id r = (case lookup idx0 (he_entity_id ev) of None \<Rightarrow> 0 | Some f \<Rightarrow> rf_snapshot_id f) \<and>
    ev_received_at r = ck_wall ck1"
proof -
  let ?x = "tagged idx0 ev"
  let ?pl = "pl\<lparr>pp_buffer := [?x],
    pp_first_added := (case pp_first_added pl of None \<Rightarrow> Some (ck_mono ck0) | Some t \<Rightarrow> Some t)\<rparr>"
  have s: "submit ck0 idx0 ev (pl, d) = (Inr (), ?pl, d)"
    using assms(2-4) by (simp add: submit_def tagged_def Let_def)
  obtain d2 where w: "write_batch (ck_wall ck1) idx1 [?x] d = (Inr (), d2)"
    "db_events d2 = db_events d @ insert_event_rows (map (event_row_of (ck_wall ck1) idx1) [?x]) (db_event_seq d)"
    using healthy_conj [OF assms(1)] write_batch_ok by metis
  have "flush ck1 idx1 (?pl, d) = (Inr (), ?pl\<lparr>pp_buffer := [], pp_first_added := None\<rparr>, d2)"
    using w(1) by (simp add: flush_def commit_locked_def)
  moreover have "ev_received_at (event_row_of (ck_wall ck1) idx1 ?x) = ck_wall ck1"
    by (simp add: event_row_of_def case_prod_unfold Let_def)
  ultimately show ?thesis using s w(2)
    by (intro exI [of _ ?pl] exI [of _ "?pl\<lparr>pp_buffer := [], pp_first_added := None\<rparr>"] exI [of _ d2]
        exI [of _ "event_row_of (ck_wall ck1) idx1 ?x"])
      (simp add: row_simps tagged_def)
qed

lemma enrichment_is_at_commit_witness:
  "\<exists>pl1 pl2 d2 r. submit (at 0) [] (state_change 1 ''light.a'') (new_pipeline \<lparr>hm_compiled = []\<rparr> 100 1000, empty_db) =
      (Inr (), pl1, empty_db) \<and>
    flush (at 1) [(''light.a'', \<lparr>rf_device_id = None, rf_area_id = Some ''hall'', rf_device_class = None,
      rf_snapshot_id = 4\<rparr>)] (pl1, empty_db) = (Inr (), pl2, d2) \<and>
    db_events d2 = [(1, r)] \<and> ev_area_id r = Some ''hall'' \<and> ev_snapshot_id r = 0 \<and> ev_received_at r = 1"
  using enrichment_is_at_commit [of empty_db "new_pipeline \<lparr>hm_compiled = []\<rparr> 100 1000" "state_change 1 ''light.a''"
      "at 0" "[]" "at 1" "[(''light.a'', \<lparr>rf_device_id = None, rf_area_id = Some ''hall'', rf_device_class = None,
      rf_snapshot_id = 4\<rparr>)]"]
  by (simp add: new_pipeline_def matches_def lookup_def state_change_def at_def empty_db_def
      healthy_empty [unfolded empty_db_def])

end
