(* ===== verification/TopologyProps.thy ===== *)
theory TopologyProps
  imports IngestSystem
begin

text \<open>
  The correctness properties of topology tracking: the entity index against the payload, the
  orphan detector against the index, the snapshot store as an append-only, deduplicated
  log, and the refresh that keeps the tables and the index together.
\<close>

section \<open>Index and orphans\<close>

text \<open>
  C21. After a rebuild, a lookup finds the last entry of the payload with that (non-empty) id: its
  device, its class and the snapshot id as given, its area its own or else, where that is
  missing or empty, the area of the last device entry with its device id.
\<close>

theorem lookup_after_rebuild:
  "lookup (rebuild_from_payload p sid idx) i =
     (case find (\<lambda>e. get_s e ''entity_id'' = Some i \<and> i \<noteq> []) (rev (pl_entities p)) of
        None \<Rightarrow> None
      | Some e \<Rightarrow> Some \<lparr>
          rf_device_id = get_s e ''device_id'',
          rf_area_id =
            (if truthy (get_s e ''area_id'') then get_s e ''area_id''
             else case find (\<lambda>d. has_key d ''device_id'' \<and> get_s d ''device_id'' = get_s e ''device_id'')
                    (rev (pl_devices p)) of
                None \<Rightarrow> None
              | Some d \<Rightarrow> get_s d ''area_id''),
          rf_device_class = get_s e ''device_class'',
          rf_snapshot_id = sid\<rparr>)"
proof -
  have k: "(\<lambda>e. entity_key e = Some i) = (\<lambda>e. get_s e ''entity_id'' = Some i \<and> i \<noteq> [])"
    by (auto simp: entity_key_def fun_eq_iff split: option.split)
  have d: "(\<lambda>d. device_key d = Some x) = (\<lambda>d. has_key d ''device_id'' \<and> get_s d ''device_id'' = x)" for x
    by (auto simp: device_key_def fun_eq_iff)
  show ?thesis
    by (simp add: rebuild_from_payload_def lookup_build entity_ref_of_spec entity_area_def py_or_def
        device_area_def k d split: option.split)
qed

text \<open>
  The orphan detector and the index agree: where the entity ids of a payload are distinct and
  no device entry has an empty device id, an id is reported as an orphan exactly when its entry is
  not disabled and the index built from the payload has it without an area.
\<close>

theorem orphans_are_the_areas_missing_in_the_index:
  assumes "distinct (List.map_filter entity_key (pl_entities p))"
    and "\<forall>d \<in> set (pl_devices p). has_key d ''device_id'' \<longrightarrow> truthy (get_s d ''device_id'')"
  shows "i \<in> set (find_orphans p) \<longleftrightarrow>
    (\<exists>e \<in> set (pl_entities p). entity_key e = Some i \<and> \<not> truthy (get_s e ''disabled_by'')) \<and>
    (\<exists>r. lookup (build_index p sid) i = Some r \<and> \<not> truthy (rf_area_id r))"
proof -
  have dev: "truthy dev" if "truthy (device_area p dev)" for dev
  proof (cases "find (\<lambda>d. device_key d = Some dev) (rev (pl_devices p))")
    case None
    with that show ?thesis by (simp add: device_area_def)
  next
    case (Some d)
    then have "d \<in> set (pl_devices p)" "device_key d = Some dev" by (auto simp: find_Some_iff rev_nth)
    with assms(2) show ?thesis by (auto simp: device_key_def split: if_splits)
  qed
  have orph: "placed p e \<longleftrightarrow> truthy (get_s e ''disabled_by'') \<or> truthy (entity_area p e)" for e
    using dev by (auto simp: placed_def entity_area_def)
  have inj: "e = e'" if "e \<in> set es" "e' \<in> set es" "entity_key e = Some i" "entity_key e' = Some i"
    "distinct (List.map_filter entity_key es)" for e e' es
    using that by (induction es) (auto simp: List.map_filter_def split: option.splits if_splits, force+)
  have fnd: "find (\<lambda>e. entity_key e = Some i) (rev (pl_entities p)) = Some e \<longleftrightarrow>
      e \<in> set (pl_entities p) \<and> entity_key e = Some i" for e
  proof
    assume "find (\<lambda>e. entity_key e = Some i) (rev (pl_entities p)) = Some e"
    then show "e \<in> set (pl_entities p) \<and> entity_key e = Some i"
      by (auto simp: find_Some_iff rev_nth)
  next
    assume e: "e \<in> set (pl_entities p) \<and> entity_key e = Some i"
    then have "find (\<lambda>e. entity_key e = Some i) (rev (pl_entities p)) \<noteq> None"
      by (auto simp: find_None_iff)
    then obtain e' where e': "find (\<lambda>e. entity_key e = Some i) (rev (pl_entities p)) = Some e'" by blast
    then have "e' \<in> set (pl_entities p) \<and> entity_key e' = Some i" by (auto simp: find_Some_iff rev_nth)
    with e inj [OF _ _ _ _ assms(1)] e' show "find (\<lambda>e. entity_key e = Some i) (rev (pl_entities p)) = Some e"
      by blast
  qed
  have "i \<in> set (find_orphans p) \<longleftrightarrow> (\<exists>e \<in> set (pl_entities p). entity_key e = Some i \<and> \<not> placed p e)"
    by (force simp: find_orphans_filter List.map_filter_def)
  moreover have "(\<exists>r. lookup (build_index p sid) i = Some r \<and> \<not> truthy (rf_area_id r)) \<longleftrightarrow>
      (\<exists>e. find (\<lambda>e. entity_key e = Some i) (rev (pl_entities p)) = Some e \<and> \<not> truthy (entity_area p e))"
    by (auto simp: lookup_build entity_ref_of_spec)
  ultimately show ?thesis unfolding fnd orph using inj [OF _ _ _ _ assms(1)] by blast
qed

lemma orphans_are_the_areas_missing_in_the_index_witness:
  "let p = \<lparr>pl_areas = [], pl_devices = [[(''device_id'', JStr ''d''), (''area_id'', JStr ''hall'')]],
      pl_entities = [[(''entity_id'', JStr ''light.a''), (''device_id'', JStr ''d'')], [(''entity_id'', JStr ''light.b'')]]\<rparr> in
   (''light.b'' \<in> set (find_orphans p) \<longleftrightarrow>
    (\<exists>e \<in> set (pl_entities p). entity_key e = Some ''light.b'' \<and> \<not> truthy (get_s e ''disabled_by'')) \<and>
    (\<exists>r. lookup (build_index p 1) ''light.b'' = Some r \<and> \<not> truthy (rf_area_id r))) \<and>
   ''light.b'' \<in> set (find_orphans p)"
  unfolding Let_def
  by (intro conjI orphans_are_the_areas_missing_in_the_index)
    (simp_all add: entity_key_def get_s_def has_key_def List.map_filter_def find_orphans_def device_to_area_def dict_get_def)

section \<open>The snapshot store\<close>

lemma healthy_snaps: "healthy d \<Longrightarrow> healthy (snd (insert_if_changed sha p ts diff d))"
  by (simp add: healthy_def insert_if_changed_wf db_frame)

text \<open>A refresh never takes a snapshot away, and the new ones have larger ids.\<close>

definition extends :: "snap_row list \<Rightarrow> snap_row list \<Rightarrow> bool" where
  "extends old new \<longleftrightarrow> (\<exists>rows. new = old @ rows)"

lemma extends_refl [simp]: "extends a a"
  by (simp add: extends_def)

lemma extends_trans: "extends a b \<Longrightarrow> extends b c \<Longrightarrow> extends a c"
  by (auto simp: extends_def)

lemma apply_topology_extends:
  "extends (db_snapshots d) (db_snapshots (snd (snd (apply_topology sha p ts (idx, d)))))"
  by (rule apply_topology_inv [where P = "\<lambda>x. extends (db_snapshots d) (db_snapshots x)"])
    (use insert_if_changed_grows [of sha p ts None d] in \<open>auto simp: extends_def db_frame\<close>)

lemma write_batch_snapshots: "db_snapshots (snd (write_batch w idx buf d)) = db_snapshots d"
proof -
  obtain r d' where eq: "write_batch w idx buf d = (r, d')" by fastforce
  let ?rows = "map (event_row_of w idx) buf"
  from eq have "db_snapshots d' = db_snapshots d"
  proof (cases rule: write_batch_cases)
    case (rows e)
    with insert_events_frame(5) [of ?rows d] show ?thesis by simp
  next
    case (areas e d1)
    with insert_events_frame(5) [of ?rows d] increments_frame(6) [of "scan_areas w idx buf" d1]
    show ?thesis by simp
  next
    case (entities d1 d2)
    with insert_events_frame(5) [of ?rows d] increments_frame(6) [of "scan_areas w idx buf" d1]
      bumps_frame(6) [of "scan_last w idx buf" d2]
    show ?thesis by simp
  qed
  with eq show ?thesis by simp
qed

lemma irun_extends: "extends (db_snapshots (is_db s)) (db_snapshots (is_db (irun sha ops s)))"
proof (rule irun_inv [where P = "\<lambda>t. extends (db_snapshots (is_db s)) (db_snapshots (is_db t))"])
  fix op and t :: isys
  assume "extends (db_snapshots (is_db s)) (db_snapshots (is_db t))"
  then show "extends (db_snapshots (is_db s)) (db_snapshots (is_db (snd (istep sha op t))))"
    by (rule istep_db_inv [where P = "\<lambda>x. extends (db_snapshots (is_db s)) (db_snapshots x)", rotated 3])
      (auto simp: write_batch_snapshots db_frame intro: extends_trans apply_topology_extends)
qed simp

text \<open>
  Snapshots are append-only: whatever the system does and whatever connections fail, the rows
  already stored stay as they are and in place, every new row has a larger id than all rows
  before it, and no digest is stored twice.
\<close>

theorem snapshots_are_append_only:
  assumes "db_wf (is_db s)"
  shows "\<exists>rows. db_snapshots (is_db (irun sha ops s)) = db_snapshots (is_db s) @ rows \<and>
    sorted_wrt (<) (map sn_id (db_snapshots (is_db s) @ rows)) \<and>
    distinct (map sn_payload_hash (db_snapshots (is_db s) @ rows))"
proof -
  obtain rows where rows: "db_snapshots (is_db (irun sha ops s)) = db_snapshots (is_db s) @ rows"
    using irun_extends [of s sha ops] by (auto simp: extends_def)
  moreover have "db_wf (is_db (irun sha ops s))" by (rule irun_wf [OF assms])
  ultimately show ?thesis by (auto simp: db_wf_def snaps_wf_def)
qed

lemma snapshots_are_append_only_witness:
  "\<exists>rows. db_snapshots (is_db (irun (\<lambda>x. x) [ApplyTopology \<lparr>pl_areas = [], pl_devices = [], pl_entities = []\<rparr> 5]
      (new_isys \<lparr>hm_compiled = []\<rparr> 100 1000 [True]))) = db_snapshots (is_db (new_isys \<lparr>hm_compiled = []\<rparr> 100 1000 [True])) @ rows \<and>
    sorted_wrt (<) (map sn_id (db_snapshots (is_db (new_isys \<lparr>hm_compiled = []\<rparr> 100 1000 [True])) @ rows)) \<and>
    distinct (map sn_payload_hash (db_snapshots (is_db (new_isys \<lparr>hm_compiled = []\<rparr> 100 1000 [True])) @ rows))"
  by (rule snapshots_are_append_only) (simp add: new_isys_def db_wf_empty)

lemma known_payload:
  assumes "snaps_wf (db_snapshots d) q" and "row \<in> set (db_snapshots d)" and "sn_payload_hash row = hash_hex sha p"
    and "db_faults d = []"
  shows "insert_if_changed sha p ts diff d = (Inr (sn_id row, False), d)"
proof -
  obtain r d' where eq: "insert_if_changed sha p ts diff d = (r, d')" by fastforce
  then show ?thesis
  proof (cases rule: insert_if_changed_cases)
    case fault
    with eq assms(4) show ?thesis by (simp add: insert_if_changed_def connect_def Let_def split: option.splits)
  next
    case (known row')
    have "row' = row" using known(1,2) assms(1-3) by (auto simp: snaps_wf_def distinct_map inj_on_def)
    with known eq assms(4) show ?thesis by simp
  next
    case fresh
    with assms(2,3) show ?thesis by (metis image_eqI)
  qed
qed

lemma stored_row:
  assumes "insert_if_changed sha p ts diff d = (Inr (i, b), d')"
  shows "\<exists>row \<in> set (db_snapshots d'). sn_payload_hash row = hash_hex sha p \<and> sn_id row = i"
  using assms by (cases rule: insert_if_changed_cases) auto

text \<open>
  C23. A payload is stored once: after a refresh with it has returned, and after any further
  operations of the system, another refresh with the same payload, at a time when the database
  answers, returns the same snapshot id as not new and leaves the database as it is.
\<close>

theorem payload_is_stored_once:
  assumes "db_wf d" and "apply_topology sha p ts (idx, d) = (Inr (sid, is_new), idx1, d1)"
    and "s' = irun sha ops \<lparr>is_pipe = pl, is_idx = idx1, is_db = d1\<rparr>" and "db_faults (is_db s') = []"
  shows "apply_topology sha p ts' (is_idx s', is_db s') =
    (Inr (sid, False), build_index p sid, is_db s')"
proof -
  obtain r0 d0 where ins: "insert_if_changed sha p ts None d = (r0, d0)" by fastforce
  then obtain b where r0: "r0 = Inr (sid, b)" using assms(2)
    by (auto simp: apply_topology_def split: sum.splits prod.splits)
  obtain row where row: "row \<in> set (db_snapshots d0)" "sn_payload_hash row = hash_hex sha p" "sn_id row = sid"
    using stored_row [of sha p ts None d sid b d0] ins r0 by blast
  have "db_snapshots d1 = db_snapshots d0"
    using assms(2) ins r0 upsert_all_frame(4) [of p sid ts d0]
    by (auto simp: apply_topology_def split: sum.splits prod.splits if_splits)
  with row(1) have "row \<in> set (db_snapshots (is_db s'))"
    using irun_extends [of "\<lparr>is_pipe = pl, is_idx = idx1, is_db = d1\<rparr>" sha ops] assms(3) by (auto simp: extends_def)
  moreover have "db_wf d1" using apply_topology_wf [OF assms(1), of sha p ts idx] assms(2) by simp
  then have "db_wf (is_db s')" using irun_wf [of "\<lparr>is_pipe = pl, is_idx = idx1, is_db = d1\<rparr>" sha ops] assms(3) by simp
  then have "snaps_wf (db_snapshots (is_db s')) (db_snap_seq (is_db s'))" by (simp add: db_wf_def)
  ultimately have "insert_if_changed sha p ts' None (is_db s') = (Inr (sid, False), is_db s')"
    using known_payload row(2,3) assms(4) by metis
  then show ?thesis by (simp add: apply_topology_def rebuild_from_payload_def)
qed

lemma payload_is_stored_once_witness:
  "let a = \<lparr>pl_areas = [], pl_devices = [], pl_entities = []\<rparr>;
       b = \<lparr>pl_areas = [], pl_devices = [], pl_entities = [[(''entity_id'', JStr ''light.a'')]]\<rparr>;
       s' = irun (\<lambda>x. x) [ApplyTopology b 6] (snd (istep (\<lambda>x. x) (ApplyTopology a 5) (new_isys \<lparr>hm_compiled = []\<rparr> 100 1000 [])))
   in apply_topology (\<lambda>x. x) a 7 (is_idx s', is_db s') = (Inr (1, False), build_index a 1, is_db s')"
proof -
  let ?a = "\<lparr>pl_areas = [], pl_devices = [], pl_entities = []\<rparr>"
  let ?b = "\<lparr>pl_areas = [], pl_devices = [], pl_entities = [[(''entity_id'', JStr ''light.a'')]]\<rparr>"
  obtain idx1 d1 where 1: "apply_topology (\<lambda>x. x) ?a 5 ([], empty_db) = (Inr (1, True), idx1, d1)"
    by (simp add: apply_topology_def insert_if_changed_def connect_def empty_db_def Let_def upsert_all_def
        upsert_areas_def upsert_devices_def upsert_entities_def device_to_area_strict_def)
  have h: "healthy d1" using apply_topology_wf [OF db_wf_empty, of "\<lambda>x. x" ?a 5 "[]"]
      apply_topology_no_faults [of empty_db "\<lambda>x. x" ?a 5 "[]"] healthy_empty by (simp add: 1 healthy_def)
  let ?s = "\<lparr>is_pipe = new_pipeline \<lparr>hm_compiled = []\<rparr> 100 1000, is_idx = idx1, is_db = d1\<rparr>"
  have "snd (istep (\<lambda>x. x) (ApplyTopology ?a 5) (new_isys \<lparr>hm_compiled = []\<rparr> 100 1000 [])) = ?s"
    using 1 by (simp add: istep_def new_isys_def)
  moreover have "db_faults (is_db (irun (\<lambda>x. x) [ApplyTopology ?b 6] ?s)) = []"
    using irun_healthy [of ?s "\<lambda>x. x" "[ApplyTopology ?b 6]"] h unfolding healthy_def by (simp del: irun.simps)
  ultimately show ?thesis
    using payload_is_stored_once [OF db_wf_empty 1 refl, of "[ApplyTopology ?b 6]"] by (simp add: Let_def)
qed

text \<open>
  C22. What the store reads back is what was written: after a new payload of JSON values was
  stored, \<open>get_current\<close> is that snapshot, its payload is the one written with the keys of every
  object in order, and the index built from it is the index built from the original.
\<close>

theorem stored_payload_reads_back:
  assumes "payload_wf p" and "db_faults d = []" and "hash_hex sha p \<notin> sn_payload_hash ` set (db_snapshots d)"
  shows "\<exists>d' s. insert_if_changed sha p ts diff d = (Inr (db_snap_seq d + 1, True), d') \<and>
    get_current d' = Inr (Some s) \<and> ss_snapshot_id s = db_snap_seq d + 1 \<and> ss_ts_ms s = ts \<and>
    ss_diff_summary s = diff \<and> ss_payload s = canon_payload p \<and>
    build_index (ss_payload s) sid = build_index p sid"
proof -
  obtain r d' where eq: "insert_if_changed sha p ts diff d = (r, d')" by fastforce
  then show ?thesis
  proof (cases rule: insert_if_changed_cases)
    case fault
    with eq assms(2) show ?thesis by (simp add: insert_if_changed_def connect_def Let_def split: option.splits)
  next
    case (known row)
    with assms(3) show ?thesis by (metis image_eqI)
  next
    case fresh
    let ?row = "\<lparr>sn_id = db_snap_seq d + 1, sn_ts = ts, sn_payload_hash = hash_hex sha p,
      sn_payload = to_canonical_json p, sn_diff_summary = diff\<rparr>"
    have "get_current d' = Inr (Some \<lparr>ss_snapshot_id = db_snap_seq d + 1, ss_ts_ms = ts,
        ss_payload_hash = hash_hex sha p, ss_payload = canon_payload p, ss_diff_summary = diff\<rparr>)"
      using row_to_snapshot_payload [OF assms(1), of ?row] by (simp add: get_current_def fresh(3))
    with eq fresh(2) build_index_canon [OF assms(1)] show ?thesis by simp
  qed
qed

lemma stored_payload_reads_back_witness:
  "let p = \<lparr>pl_areas = [], pl_devices = [], pl_entities = [[(''name'', JNull), (''entity_id'', JStr ''light.a'')]]\<rparr> in
   \<exists>d' s. insert_if_changed (\<lambda>x. x) p 5 None empty_db = (Inr (db_snap_seq empty_db + 1, True), d') \<and>
    get_current d' = Inr (Some s) \<and> ss_snapshot_id s = db_snap_seq empty_db + 1 \<and> ss_ts_ms s = 5 \<and>
    ss_diff_summary s = None \<and> ss_payload s = canon_payload p \<and> build_index (ss_payload s) 1 = build_index p 1"
  unfolding Let_def
  by (rule stored_payload_reads_back) (simp_all add: payload_wf_def entry_wf_def empty_db_def)

text \<open>
  Two payloads of JSON values have the same canonical text exactly when they are equal
  up to the order of the keys in their objects.
\<close>

theorem canonical_text_is_equality_up_to_key_order:
  assumes "payload_wf p" and "payload_wf q"
  shows "to_canonical_json p = to_canonical_json q \<longleftrightarrow> canon_payload p = canon_payload q"
proof -
  have inj: "map JObj a = map JObj b \<longleftrightarrow> a = b" for a b
    by (rule inj_map_eq_map) (simp add: inj_def)
  have "to_canonical_json p = to_canonical_json q \<longleftrightarrow>
      payload_json (canon_payload p) = payload_json (canon_payload q)"
    unfolding to_canonical_json_def
    using dumps_eq_iff [OF payload_json_wf [OF assms(1)] payload_json_wf [OF assms(2)]]
    by (simp add: canon_payload_json)
  also have "\<dots> \<longleftrightarrow> canon_payload p = canon_payload q"
    by (simp only: payload_json_def json.inject list.inject prod.inject inj simp_thms)
      (simp add: canon_payload_def)
  finally show ?thesis .
qed

lemma canonical_text_is_equality_up_to_key_order_witness:
  "to_canonical_json \<lparr>pl_areas = [[(''b'', JInt 1), (''a'', JNull)]], pl_devices = [], pl_entities = []\<rparr> =
     to_canonical_json \<lparr>pl_areas = [[(''a'', JNull), (''b'', JInt 1)]], pl_devices = [], pl_entities = []\<rparr>"
  by (rule iffD2 [OF canonical_text_is_equality_up_to_key_order])
    (simp_all add: payload_wf_def entry_wf_def canon_payload_def canon_entry_def)

section \<open>A refresh\<close>

text \<open>
  C25. Going back to an earlier topology does not go through: when the payload \<open>p\<close> was followed
  by a different payload \<open>q\<close>, a refresh with \<open>p\<close> returns the old snapshot id and rebuilds the index
  from \<open>p\<close>, but \<open>get_current\<close> keeps reporting the snapshot of \<open>q\<close> and every table stays as \<open>q\<close> left it.
\<close>

theorem revert_leaves_the_tables_stale:
  assumes "db_wf d" and "payload_wf q" and "db_faults d2 = []"
    and "apply_topology sha p t1 (idx, d) = (Inr (i, b), idx1, d1)"
    and "apply_topology sha q t2 (idx1, d1) = (Inr (j, True), idx2, d2)"
  shows "apply_topology sha p t3 (idx2, d2) = (Inr (i, False), build_index p i, d2) \<and>
    i \<noteq> j \<and> (\<exists>s. get_current d2 = Inr (Some s) \<and> ss_snapshot_id s = j \<and> ss_payload s = canon_payload q)"
proof -
  obtain r0 d0 where ins: "insert_if_changed sha q t2 None d1 = (r0, d0)" by fastforce
  then have r0: "r0 = Inr (j, True)" using assms(5)
    by (auto simp: apply_topology_def split: sum.splits prod.splits)
  have snap: "db_snapshots d2 = db_snapshots d0"
    using assms(5) ins r0 upsert_all_frame(4) [of q j t2 d0]
    by (auto simp: apply_topology_def split: sum.splits prod.splits if_splits)
  let ?row = "\<lparr>sn_id = j, sn_ts = t2, sn_payload_hash = hash_hex sha q,
      sn_payload = to_canonical_json q, sn_diff_summary = None\<rparr>"
  from ins r0 have d0: "db_snapshots d0 = db_snapshots d1 @ [?row]" and j: "j = db_snap_seq d1 + 1"
    by (cases rule: insert_if_changed_cases; simp)+
  have cur: "get_current d2 = Inr (Some \<lparr>ss_snapshot_id = j, ss_ts_ms = t2,
        ss_payload_hash = hash_hex sha q, ss_payload = canon_payload q, ss_diff_summary = None\<rparr>)"
    using row_to_snapshot_payload [OF assms(2), of ?row] by (simp add: get_current_def snap d0)
  obtain r1 e1 where ins1: "insert_if_changed sha p t1 None d = (r1, e1)" by fastforce
  then have r1: "r1 = Inr (i, b)" using assms(4)
    by (auto simp: apply_topology_def split: sum.splits prod.splits)
  obtain row where row: "row \<in> set (db_snapshots e1)" "sn_payload_hash row = hash_hex sha p" "sn_id row = i"
    using stored_row [of sha p t1 None d i b e1] ins1 r1 by blast
  have e1: "db_snapshots d1 = db_snapshots e1"
    using assms(4) ins1 r1 upsert_all_frame(4) [of p i t1 e1]
    by (auto simp: apply_topology_def split: sum.splits prod.splits if_splits)
  have wf1: "db_wf d1" using apply_topology_wf [OF assms(1), of sha p t1 idx] assms(4) by simp
  then have wf2: "db_wf d2" using apply_topology_wf [of d1 sha q t2 idx1] assms(5) by simp
  have "i \<le> db_snap_seq d1" using wf1 row(1,3) e1 by (auto simp: db_wf_def snaps_wf_def)
  moreover have "insert_if_changed sha p t3 None d2 = (Inr (i, False), d2)"
    using known_payload [of d2 "db_snap_seq d2" row] wf2 row e1 d0 snap assms(3) by (simp add: db_wf_def)
  ultimately show ?thesis using cur j by (simp add: apply_topology_def rebuild_from_payload_def)
qed

lemma small_refresh:
  "apply_topology (\<lambda>x. x) \<lparr>pl_areas = [], pl_devices = [], pl_entities = []\<rparr> t (idx, d) = (r, idx', d') \<Longrightarrow>
   healthy d \<Longrightarrow> ok r \<and> healthy d'"
  using apply_topology_wf [of d "\<lambda>x. x" "\<lparr>pl_areas = [], pl_devices = [], pl_entities = []\<rparr>" t idx]
    apply_topology_no_faults [of d "\<lambda>x. x" "\<lparr>pl_areas = [], pl_devices = [], pl_entities = []\<rparr>" t idx]
  by (auto simp: healthy_def apply_topology_def insert_if_changed_def connect_def Let_def upsert_all_def
      upsert_areas_def upsert_devices_def upsert_entities_def device_to_area_strict_def split: option.splits if_splits)

lemma revert_leaves_the_tables_stale_witness:
  "let p = \<lparr>pl_areas = [], pl_devices = [], pl_entities = []\<rparr>;
       q = \<lparr>pl_areas = [], pl_devices = [], pl_entities = [[(''entity_id'', JStr ''light.a'')]]\<rparr>;
       s1 = snd (apply_topology (\<lambda>x. x) p 1 ([], empty_db));
       s2 = snd (apply_topology (\<lambda>x. x) q 2 s1)
   in apply_topology (\<lambda>x. x) p 3 s2 = (Inr (1, False), build_index p 1, snd s2) \<and>
      (\<exists>s. get_current (snd s2) = Inr (Some s) \<and> ss_snapshot_id s = 2 \<and> ss_payload s = canon_payload q)"
proof -
  let ?p = "\<lparr>pl_areas = [], pl_devices = [], pl_entities = []\<rparr>"
  let ?q = "\<lparr>pl_areas = [], pl_devices = [], pl_entities = [[(''entity_id'', JStr ''light.a'')]]\<rparr>"
  obtain i1 d1 where 1: "apply_topology (\<lambda>x. x) ?p 1 ([], empty_db) = (Inr (1, True), i1, d1)"
    and s1: "db_snap_seq d1 = 1" "map sn_payload_hash (db_snapshots d1) = [to_canonical_json ?p]"
    by (simp add: apply_topology_def insert_if_changed_def connect_def empty_db_def Let_def upsert_all_def
        upsert_areas_def upsert_devices_def upsert_entities_def device_to_area_strict_def hash_hex_def)
  from small_refresh [OF 1] have h1: "healthy d1" by simp
  obtain row where r: "db_snapshots d1 = [row]" "sn_payload_hash row = to_canonical_json ?p"
    using s1(2) by (cases "db_snapshots d1") auto
  have ne: "to_canonical_json ?p \<noteq> to_canonical_json ?q"
    by (simp add: to_canonical_json_def payload_json_def)
  then obtain i2 d2 where 2: "apply_topology (\<lambda>x. x) ?q 2 (i1, d1) = (Inr (2, True), i2, d2)"
    using h1 s1(1) by (simp add: healthy_def apply_topology_def insert_if_changed_def connect_def Let_def
        upsert_all_def upsert_areas_def upsert_devices_def upsert_entities_def device_to_area_strict_def
        hash_hex_def r get_s_def)
  have "db_faults d2 = []"
    using apply_topology_no_faults [of d1 "\<lambda>x. x" ?q 2 i1] 2 h1 by (simp add: healthy_def)
  from revert_leaves_the_tables_stale [OF db_wf_empty _ this 1 2] show ?thesis
    by (simp add: Let_def 1 2 payload_wf_def entry_wf_def)
qed

text \<open>
  C26. A refresh that stores its snapshot and then raises (a device without an id, an area whose
  name is null, a connection that fails) is never made good: refreshing with the same payload
  again returns the snapshot as not new, rebuilds the index, and leaves the database as it is.
\<close>

theorem failed_refresh_is_not_repeated:
  assumes "db_wf d" and "apply_topology sha p ts (idx, d) = (Inl e, idx', d')"
    and "db_snap_seq d' = db_snap_seq d + 1" and "db_faults d' = []"
  shows "idx' = idx \<and>
    apply_topology sha p ts' (idx', d') = (Inr (db_snap_seq d', False), build_index p (db_snap_seq d'), d')"
proof -
  have seq: "db_snap_seq (snd (upsert_all p i ts x)) = db_snap_seq x" for i x
    by (rule upsert_all_inv [where P = "\<lambda>y. db_snap_seq y = db_snap_seq x"])
      (simp_all add: upsert_areas_def upsert_devices_def upsert_entities_def connect_def Let_def)
  obtain r0 d0 where ins: "insert_if_changed sha p ts None d = (r0, d0)" by fastforce
  have "db_snap_seq d' = db_snap_seq d0 \<and> idx' = idx \<and> db_snapshots d' = db_snapshots d0"
    using assms(2) ins seq upsert_all_frame(4)
    by (auto simp: apply_topology_def split: sum.splits prod.splits if_splits) (metis snd_conv)+
  moreover from this assms(3) have "db_snap_seq d0 = db_snap_seq d + 1" by simp
  with ins have "\<exists>row \<in> set (db_snapshots d0). sn_payload_hash row = hash_hex sha p \<and> sn_id row = db_snap_seq d0"
    by (cases rule: insert_if_changed_cases) auto
  ultimately obtain row where row: "row \<in> set (db_snapshots d')" "sn_payload_hash row = hash_hex sha p"
    "sn_id row = db_snap_seq d'" and idx: "idx' = idx" by auto
  have "db_wf d'" using apply_topology_wf [OF assms(1), of sha p ts idx] assms(2) by simp
  then have "insert_if_changed sha p ts' None d' = (Inr (db_snap_seq d', False), d')"
    using known_payload [of d' "db_snap_seq d'" row] row assms(4) by (simp add: db_wf_def)
  with idx show ?thesis by (simp add: apply_topology_def rebuild_from_payload_def)
qed

lemma failed_refresh_is_not_repeated_witness:
  "let p = \<lparr>pl_areas = [], pl_devices = [[(''area_id'', JStr ''hall'')]], pl_entities = [[(''entity_id'', JStr ''light.a'')]]\<rparr>;
       s = snd (apply_topology (\<lambda>x. x) p 1 ([], empty_db))
   in apply_topology (\<lambda>x. x) p 1 ([], empty_db) = (Inl (KeyError ''device_id''), s) \<and> db_entities (snd s) = [] \<and>
      apply_topology (\<lambda>x. x) p 2 s = (Inr (db_snap_seq (snd s), False), build_index p (db_snap_seq (snd s)), snd s)"
proof -
  let ?p = "\<lparr>pl_areas = [], pl_devices = [[(''area_id'', JStr ''hall'')]], pl_entities = [[(''entity_id'', JStr ''light.a'')]]\<rparr>"
  obtain i1 d1 where 1: "apply_topology (\<lambda>x. x) ?p 1 ([], empty_db) = (Inl (KeyError ''device_id''), i1, d1)"
    and s1: "db_snap_seq d1 = db_snap_seq empty_db + 1" "db_faults d1 = []" "db_entities d1 = []"
    by (simp add: apply_topology_def insert_if_changed_def connect_def empty_db_def Let_def upsert_all_def
        upsert_areas_def upsert_devices_def device_to_area_strict_def has_key_def get_s_def)
  from failed_refresh_is_not_repeated [OF db_wf_empty 1 s1(1,2), of 2] show ?thesis
    by - (elim conjE, simp add: Let_def 1 s1(3))
qed

lemma entity_row_of_fields [row_simps]:
  "er_entity_id (entity_row_of m sid ts e) = (case get_s e ''entity_id'' of None \<Rightarrow> [] | Some i \<Rightarrow> i)"
  "er_device_id (entity_row_of m sid ts e) = get_s e ''device_id''"
  "er_area_id (entity_row_of m sid ts e) = py_or (get_s e ''area_id'') (dict_get m (get_s e ''device_id''))"
  "er_device_class (entity_row_of m sid ts e) = get_s e ''device_class''"
  "er_snapshot_id (entity_row_of m sid ts e) = sid"
  by (simp_all add: entity_row_of_def Let_def)

lemma upserted_entities:
  assumes "upsert_all p sid ts d = (Inr u, d')"
  shows "db_entities d' = fold (tbl_upsert er_entity_id entity_update)
    (map (entity_row_of (device_to_area (pl_devices p)) sid ts)
      (filter (\<lambda>e. truthy (get_s e ''entity_id'')) (pl_entities p))) (db_entities d)"
proof -
  let ?as = "map (area_row_of sid ts) (filter (\<lambda>a. truthy (get_s a ''area_id'')) (pl_areas p))"
  let ?ds = "map (device_row_of sid ts) (filter (\<lambda>x. truthy (get_s x ''device_id'')) (pl_devices p))"
  obtain r1 d1 where 1: "upsert_areas ?as d = (r1, d1)" by fastforce
  obtain r2 d2 where 2: "upsert_devices ?ds d1 = (r2, d2)" by fastforce
  have "db_entities d2 = db_entities d"
    using upserts_frame(5) [of ?as d] upserts_frame(10) [of ?ds d1] 1 2 by simp
  with assms show ?thesis
    unfolding upsert_all_def 1 prod.case 2
    by (auto simp: upsert_entities_def split: sum.splits if_splits dest!: strict_agrees)
qed

lemma entity_keys_distinct:
  "map er_entity_id (map (entity_row_of m sid ts) (filter (\<lambda>e. truthy (get_s e ''entity_id'')) es)) =
     List.map_filter entity_key es"
  by (induction es) (auto simp: List.map_filter_def row_simps entity_key_def split: option.splits if_splits elim!: truthyE)

text \<open>
  C24. After a refresh has stored a new topology, the entity table and the entity index agree: for
  every entity of a payload with distinct ids the table has a row, and the row and the
  index have the same area, device, device class and snapshot id.
\<close>

theorem tables_agree_with_the_index:
  assumes "db_wf d" and "distinct (List.map_filter entity_key (pl_entities p))"
    and "apply_topology sha p ts (idx, d) = (Inr (sid, True), idx', d')"
    and "e \<in> set (pl_entities p)" and "entity_key e = Some i"
  shows "\<exists>row r. tbl_find er_entity_id i (db_entities d') = Some row \<and> lookup idx' i = Some r \<and>
    er_area_id row = rf_area_id r \<and> er_device_id row = rf_device_id r \<and>
    er_device_class row = rf_device_class r \<and> er_snapshot_id row = sid \<and> rf_snapshot_id r = sid"
proof -
  let ?m = "device_to_area (pl_devices p)"
  let ?rows = "map (entity_row_of ?m sid ts) (filter (\<lambda>e. truthy (get_s e ''entity_id'')) (pl_entities p))"
  have key: "get_s e ''entity_id'' = Some i" "i \<noteq> []"
    using assms(5) by (auto simp: entity_key_def split: option.splits if_splits)
  obtain r0 d0 where ins: "insert_if_changed sha p ts None d = (r0, d0)" by fastforce
  then have r0: "r0 = Inr (sid, True)" using assms(3)
    by (auto simp: apply_topology_def split: sum.splits prod.splits)
  have up: "upsert_all p sid ts d0 = (Inr (), d')" and idx': "idx' = build_index p sid"
    using assms(3) ins r0 by (auto simp: apply_topology_def rebuild_from_payload_def split: sum.splits prod.splits)
  have wf: "tbl_wf er_entity_id (db_entities d0)"
    using insert_if_changed_wf [OF assms(1), of sha p ts None] ins by (simp add: db_wf_def)
  have mem: "entity_row_of ?m sid ts e \<in> set ?rows" using assms(4) key by auto
  have id: "er_entity_id (entity_row_of ?m sid ts e) = i" using key by (simp add: row_simps)
  have dist: "distinct (map er_entity_id ?rows)" unfolding entity_keys_distinct by (rule assms(2))
  from entities.upserts_find [OF wf dist mem] id upserted_entities [OF up]
  obtain row where row: "tbl_find er_entity_id i (db_entities d') = Some row"
    "er_area_id row = entity_area p e" "er_device_id row = get_s e ''device_id''"
    "er_device_class row = get_s e ''device_class''" "er_snapshot_id row = sid"
    by (simp add: row_simps device_to_area_spec entity_area_def split: option.splits)
  obtain e' where e': "find (\<lambda>e. entity_key e = Some i) (rev (pl_entities p)) = Some e'"
    using assms(4,5) by (cases "find (\<lambda>e. entity_key e = Some i) (rev (pl_entities p))") (auto simp: find_None_iff)
  then have "e' \<in> set (pl_entities p)" "entity_key e' = Some i" by (auto simp: find_Some_iff rev_nth)
  moreover have "f = g" if "f \<in> set es" "g \<in> set es" "entity_key f = Some i" "entity_key g = Some i"
    "distinct (List.map_filter entity_key es)" for f g es
    using that by (induction es) (auto simp: List.map_filter_def split: option.splits if_splits, force+)
  ultimately have "e' = e" using assms(2,4,5) by blast
  with e' idx' row show ?thesis by (simp add: lookup_build entity_ref_of_spec)
qed

lemma tables_agree_with_the_index_witness:
  "let p = \<lparr>pl_areas = [], pl_devices = [[(''device_id'', JStr ''d''), (''area_id'', JStr ''hall'')]],
        pl_entities = [[(''entity_id'', JStr ''light.a''), (''device_id'', JStr ''d'')]]\<rparr>;
       s = snd (apply_topology (\<lambda>x. x) p 1 ([], empty_db))
   in \<exists>row r. tbl_find er_entity_id ''light.a'' (db_entities (snd s)) = Some row \<and> lookup (fst s) ''light.a'' = Some r \<and>
    er_area_id row = rf_area_id r \<and> er_device_id row = rf_device_id r \<and>
    er_device_class row = rf_device_class r \<and> er_snapshot_id row = 1 \<and> rf_snapshot_id r = 1"
proof -
  let ?p = "\<lparr>pl_areas = [], pl_devices = [[(''device_id'', JStr ''d''), (''area_id'', JStr ''hall'')]],
        pl_entities = [[(''entity_id'', JStr ''light.a''), (''device_id'', JStr ''d'')]]\<rparr>"
  obtain i1 d1 where 1: "apply_topology (\<lambda>x. x) ?p 1 ([], empty_db) = (Inr (1, True), i1, d1)"
    by (simp add: apply_topology_def insert_if_changed_def connect_def empty_db_def Let_def upsert_all_def
        upsert_areas_def upsert_devices_def upsert_entities_def device_to_area_strict_def has_key_def get_s_def)
  from tables_agree_with_the_index [OF db_wf_empty _ 1, of "[(''entity_id'', JStr ''light.a''), (''device_id'', JStr ''d'')]" "''light.a''"]
  show ?thesis by (simp add: Let_def 1 entity_key_def get_s_def List.map_filter_def)
qed

text \<open>
  A refresh, whether it returns or raises, keeps what the database has learnt about an entity:
  its row stays, with its first sighting and its event counts as they were.
\<close>

theorem refresh_keeps_the_history:
  assumes "db_wf d" and "tbl_find er_entity_id i (db_entities d) = Some row"
  shows "\<exists>row'. tbl_find er_entity_id i (db_entities (snd (snd (apply_topology sha p ts (idx, d))))) = Some row' \<and>
    er_first_seen_at row' = er_first_seen_at row \<and> er_event_count_24h row' = er_event_count_24h row \<and>
    er_total_event_count row' = er_total_event_count row"
proof -
  define P where "P x \<longleftrightarrow> tbl_wf er_entity_id (db_entities x) \<and>
    (\<exists>row'. tbl_find er_entity_id i (db_entities x) = Some row' \<and>
    er_first_seen_at row' = er_first_seen_at row \<and> er_event_count_24h row' = er_event_count_24h row \<and>
    er_total_event_count row' = er_total_event_count row)" for x :: db
  have step: "P (x\<lparr>db_entities := tbl_upsert er_entity_id entity_update r (db_entities x)\<rparr>)" if "P x" for x r
    using that by (auto simp: P_def entities.upsert_wf entities.find_upsert row_simps)
  have fold: "P (x\<lparr>db_entities := fold (tbl_upsert er_entity_id entity_update) rs (db_entities x)\<rparr>)" if "P x" for x rs
    using that
  proof (induction rs arbitrary: x)
    case (Cons r rs)
    from Cons.IH [OF step [OF Cons.prems, of r]] show ?case by simp
  qed simp
  have "P d" using assms by (auto simp: P_def db_wf_def)
  have "P (snd (snd (apply_topology sha p ts (idx, d))))"
  proof (rule apply_topology_inv)
    show "P (snd (insert_if_changed sha p ts None d))"
      using \<open>P d\<close> by (simp add: P_def db_frame)
  next
    fix sid x assume "P x"
    then show "P (snd (upsert_all p sid ts x))"
    proof (rule upsert_all_inv [where P = P, rotated 3])
      fix rows y assume "P y"
      then have "P (y\<lparr>db_faults := bs\<rparr>)" for bs by (simp add: P_def)
      with fold [of "y\<lparr>db_faults := tl (db_faults y)\<rparr>" rows] \<open>P y\<close>
      show "P (snd (upsert_entities rows y))"
        by (auto simp: upsert_entities_def P_def)
    qed (simp_all add: P_def db_frame)
  qed
  then show ?thesis by (simp add: P_def)
qed

lemma refresh_keeps_the_history_witness:
  "\<exists>row'. tbl_find er_entity_id ''light.a'' (db_entities (snd (snd (apply_topology (\<lambda>x. x)
      \<lparr>pl_areas = [], pl_devices = [], pl_entities = [[(''entity_id'', JStr ''light.a'')]]\<rparr> 9 ([],
      snd (upsert_entities [(entity_row_of [] 1 4 [(''entity_id'', JStr ''light.a'')])\<lparr>er_total_event_count := 3\<rparr>] empty_db)))))) = Some row' \<and>
    er_first_seen_at row' = 4 \<and> er_total_event_count row' = 3"
proof -
  let ?row = "(entity_row_of [] 1 4 [(''entity_id'', JStr ''light.a'')])\<lparr>er_total_event_count := 3\<rparr>"
  let ?d = "snd (upsert_entities [?row] empty_db)"
  have "tbl_find er_entity_id ''light.a'' (db_entities ?d) = Some ?row"
    by (simp add: upsert_entities_def get_s_def row_simps) (simp add: empty_db_def get_s_def row_simps)
  from refresh_keeps_the_history [OF upsert_entities_wf [OF db_wf_empty] this, of "\<lambda>x. x"
      "\<lparr>pl_areas = [], pl_devices = [], pl_entities = [[(''entity_id'', JStr ''light.a'')]]\<rparr>" 9 "[]"]
  show ?thesis by (auto simp: entity_row_of_def Let_def)
qed

end
