(* ===== verification/History.thy ===== *)
theory History
  imports IngestProps TopologyProps
begin

text \<open>
  What a database remembers. \<open>remembers ev d d'\<close>: \<open>d'\<close> is a later state of \<open>d\<close> in which the events \<open>ev\<close> were added and nothing
  recorded was lost, changed back or counted more often than it happened. It is a preorder, and every step of the pipeline
  makes its database only more of the same, whatever connections fail.
\<close>

section \<open>Rows that stay\<close>

definition rows_kept :: "('r \<Rightarrow> 'k) \<Rightarrow> ('r \<Rightarrow> 'r \<Rightarrow> bool) \<Rightarrow> 'r list \<Rightarrow> 'r list \<Rightarrow> bool" where
  "rows_kept key R xs ys \<longleftrightarrow> (\<forall>k x. tbl_find key k xs = Some x \<longrightarrow> (\<exists>y. tbl_find key k ys = Some y \<and> R x y))"

lemma rows_kept_refl: "(\<And>x. R x x) \<Longrightarrow> rows_kept key R xs xs"
  by (simp add: rows_kept_def)

lemma rows_kept_trans:
  assumes "rows_kept key R xs ys" and "rows_kept key S ys zs" and "\<And>x y z. R x y \<Longrightarrow> S y z \<Longrightarrow> T x z"
  shows "rows_kept key T xs zs"
  using assms unfolding rows_kept_def by metis

lemma rows_kept_key: "rows_kept key R xs ys \<Longrightarrow> rows_kept key (\<lambda>x y. key y = key x \<and> R x y) xs ys"
  by (fastforce simp: rows_kept_def dest: tbl_find_SomeD)

context keyed_rows
begin

text \<open>A relation that the conflict clause keeps holds between a table and the same table after a batch.\<close>

lemma upsert_keeps:
  assumes "tbl_wf key rows" and "\<And>x. R x x" and "\<And>x. key x = key r \<Longrightarrow> R x (upd x r)"
  shows "rows_kept key R rows (tbl_upsert key upd r rows)"
  using assms by (auto simp: rows_kept_def find_upsert dest: tbl_find_SomeD)

lemma upserts_keep:
  assumes "tbl_wf key rows" and "\<And>x. R x x" and "\<And>x r. key x = key r \<Longrightarrow> R x (upd x r)"
    and "\<And>x y z. R x y \<Longrightarrow> R y z \<Longrightarrow> R x z"
  shows "rows_kept key R rows (fold (tbl_upsert key upd) rs rows)"
  using assms(1)
proof (induction rs arbitrary: rows)
  case Nil
  show ?case by (simp add: rows_kept_refl assms(2))
next
  case (Cons r rs)
  have "rows_kept key R rows (tbl_upsert key upd r rows)"
    by (rule upsert_keeps [OF Cons.prems]) (use assms in auto)
  from rows_kept_trans [OF this Cons.IH [OF upsert_wf [OF Cons.prems]], of R] assms(4) show ?case by simp
qed

end

section \<open>What a database remembers\<close>

definition remembers :: "event_row list \<Rightarrow> db \<Rightarrow> db \<Rightarrow> bool" where
  "remembers ev d d' \<longleftrightarrow>
     (\<exists>rows. db_events d' = db_events d @ rows \<and> map snd rows = ev) \<and>
     extends (db_snapshots d) (db_snapshots d') \<and>
     (\<forall>k. counter_of d k \<le> counter_of d' k \<and> counter_of d' k \<le> counter_of d k + count_of (in_bucket k) ev) \<and>
     rows_kept fst (\<lambda>x y. snd x \<le> snd y) (db_drops d) (db_drops d') \<and>
     rows_kept ar_area_id (\<lambda>x y. ar_first_seen_at y = ar_first_seen_at x) (db_areas d) (db_areas d') \<and>
     rows_kept dr_device_id (\<lambda>x y. dr_first_seen_at y = dr_first_seen_at x) (db_devices d) (db_devices d') \<and>
     rows_kept er_entity_id (\<lambda>x y. er_first_seen_at y = er_first_seen_at x \<and>
         er_total_event_count x \<le> er_total_event_count y \<and>
         er_total_event_count y \<le> er_total_event_count x + count_of (\<lambda>e. ev_entity_id e = er_entity_id x) ev)
       (db_entities d) (db_entities d')"

lemma remembers_refl: "remembers [] d d"
  by (simp add: remembers_def rows_kept_refl)

lemma kept_first_seen:
  "rows_kept key (\<lambda>x y. f y = f x) xs ys \<Longrightarrow> rows_kept key (\<lambda>x y. f y = f x) ys zs \<Longrightarrow> rows_kept key (\<lambda>x y. f y = f x) xs zs"
  by (erule (1) rows_kept_trans) simp

lemma kept_count:
  "rows_kept key (\<lambda>x y. f x \<le> (f y :: int)) xs ys \<Longrightarrow> rows_kept key (\<lambda>x y. f x \<le> f y) ys zs \<Longrightarrow>
     rows_kept key (\<lambda>x y. f x \<le> f y) xs zs"
  by (erule (1) rows_kept_trans) (rule order_trans)

lemma remembersD:
  assumes "remembers ev d d'"
  shows "\<exists>rows. db_events d' = db_events d @ rows \<and> map snd rows = ev"
    and "extends (db_snapshots d) (db_snapshots d')"
    and "counter_of d k \<le> counter_of d' k" and "counter_of d' k \<le> counter_of d k + count_of (in_bucket k) ev"
    and "rows_kept fst (\<lambda>x y. snd x \<le> snd y) (db_drops d) (db_drops d')"
    and "rows_kept ar_area_id (\<lambda>x y. ar_first_seen_at y = ar_first_seen_at x) (db_areas d) (db_areas d')"
    and "rows_kept dr_device_id (\<lambda>x y. dr_first_seen_at y = dr_first_seen_at x) (db_devices d) (db_devices d')"
    and "rows_kept er_entity_id (\<lambda>x y. er_entity_id y = er_entity_id x \<and> er_first_seen_at y = er_first_seen_at x \<and>
         er_total_event_count x \<le> er_total_event_count y \<and>
         er_total_event_count y \<le> er_total_event_count x + count_of (\<lambda>e. ev_entity_id e = er_entity_id x) ev)
       (db_entities d) (db_entities d')"
  by (insert assms, unfold remembers_def,
    (elim conjE, (assumption | erule rows_kept_key | (drule spec [of _ k], elim conjE, assumption)))+)

lemma remembers_trans:
  assumes 1: "remembers ev d d1" and 2: "remembers ew d1 d2"
  shows "remembers (ev @ ew) d d2"
  unfolding remembers_def
proof (intro conjI allI)
  show "\<exists>rows. db_events d2 = db_events d @ rows \<and> map snd rows = ev @ ew"
    using remembersD(1) [OF 1] remembersD(1) [OF 2] by (metis append.assoc map_append)
  show "extends (db_snapshots d) (db_snapshots d2)"
    by (rule extends_trans [OF remembersD(2) [OF 1] remembersD(2) [OF 2]])
  fix k
  show "counter_of d k \<le> counter_of d2 k"
    by (rule order_trans [OF remembersD(3) [OF 1] remembersD(3) [OF 2]])
  show "counter_of d2 k \<le> counter_of d k + count_of (in_bucket k) (ev @ ew)"
    using remembersD(4) [OF 1, of k] remembersD(4) [OF 2, of k] by simp
  show "rows_kept fst (\<lambda>x y. snd x \<le> snd y) (db_drops d) (db_drops d2)"
    by (rule kept_count [OF remembersD(5) [OF 1] remembersD(5) [OF 2]])
  show "rows_kept ar_area_id (\<lambda>x y. ar_first_seen_at y = ar_first_seen_at x) (db_areas d) (db_areas d2)"
    by (rule kept_first_seen [OF remembersD(6) [OF 1] remembersD(6) [OF 2]])
  show "rows_kept dr_device_id (\<lambda>x y. dr_first_seen_at y = dr_first_seen_at x) (db_devices d) (db_devices d2)"
    by (rule kept_first_seen [OF remembersD(7) [OF 1] remembersD(7) [OF 2]])
  show "rows_kept er_entity_id (\<lambda>x y. er_first_seen_at y = er_first_seen_at x \<and>
         er_total_event_count x \<le> er_total_event_count y \<and>
         er_total_event_count y \<le> er_total_event_count x + count_of (\<lambda>e. ev_entity_id e = er_entity_id x) (ev @ ew))
       (db_entities d) (db_entities d2)"
    by (rule rows_kept_trans [OF remembersD(8) [OF 1] remembersD(8) [OF 2]]) auto
qed

section \<open>Every step remembers\<close>

text \<open>An operation that leaves the events and their counts alone and updates the other tables by upserts.\<close>

lemma same_remembers:
  assumes "db_events d' = db_events d" and "db_counters d' = db_counters d" and "db_drops d' = db_drops d"
    and "extends (db_snapshots d) (db_snapshots d')"
    and "db_areas d' = fold (tbl_upsert ar_area_id area_update) as (db_areas d)"
    and "db_devices d' = fold (tbl_upsert dr_device_id device_update) ds (db_devices d)"
    and "db_entities d' = fold (tbl_upsert er_entity_id entity_update) es (db_entities d)" and "db_wf d"
  shows "remembers [] d d'"
proof -
  from assms(8) have wf: "tbl_wf ar_area_id (db_areas d)" "tbl_wf dr_device_id (db_devices d)" "tbl_wf er_entity_id (db_entities d)"
    by (simp_all add: db_wf_def)
  show ?thesis unfolding remembers_def assms(5-7)
    by (intro conjI areas.upserts_keep devices.upserts_keep entities.upserts_keep wf)
      (use assms in \<open>simp_all add: counter_of_def rows_kept_refl area_update_def device_update_def entity_update_def\<close>)
qed

lemma upserts_remember:
  assumes "db_wf d"
  shows "remembers [] d (snd (upsert_areas as d))" and "remembers [] d (snd (upsert_devices ds d))"
    and "remembers [] d (snd (upsert_entities es d))"
  using same_remembers [OF _ _ _ _ _ _ _ assms, of _ "[]" "[]" "[]"] same_remembers [OF _ _ _ _ _ _ _ assms, of _ as "[]" "[]"]
    same_remembers [OF _ _ _ _ _ _ _ assms, of _ "[]" ds "[]"] same_remembers [OF _ _ _ _ _ _ _ assms, of _ "[]" "[]" es]
  by (auto simp: upsert_areas_def upsert_devices_def upsert_entities_def connect_def Let_def)

text \<open>A well-formed database with such a past.\<close>

definition later :: "db \<Rightarrow> db \<Rightarrow> bool" where
  "later d d' \<longleftrightarrow> db_wf d' \<and> (\<exists>ev. remembers ev d d')"

lemma laterI: "later d d1 \<Longrightarrow> db_wf d2 \<Longrightarrow> remembers ev d1 d2 \<Longrightarrow> later d d2"
  unfolding later_def by (meson remembers_trans)

lemma later_wf: "later d d' \<Longrightarrow> db_wf d'"
  by (simp add: later_def)

lemma apply_topology_later:
  assumes "later d d1" shows "later d (snd (snd (apply_topology sha p ts (idx, d1))))"
proof (rule apply_topology_inv)
  have "remembers [] d1 (snd (insert_if_changed sha p ts None d1))"
    using insert_if_changed_grows [of sha p ts None d1]
    by (intro same_remembers [where as = "[]" and ds = "[]" and es = "[]"]) (use later_wf [OF assms] in \<open>auto simp: db_frame extends_def\<close>)
  then show "later d (snd (insert_if_changed sha p ts None d1))"
    by (rule laterI [OF assms insert_if_changed_wf [OF later_wf [OF assms]]])
next
  fix sid x assume "later d x"
  then show "later d (snd (upsert_all p sid ts x))"
    by (rule upsert_all_inv [where P = "later d", rotated 3])
      (blast intro: laterI later_wf upserts_remember inv_intros)+
qed

lemma drop_later:
  assumes "later d d1" shows "later d (snd (increment_privacy_drop h 1 d1))"
proof -
  from later_wf [OF assms] have "tbl_wf fst (db_drops d1)" by (simp add: db_wf_def)
  then have k: "rows_kept fst (\<lambda>x y. snd x \<le> snd y) (db_drops d1) (tbl_upsert fst count_update (h, 1) (db_drops d1))"
    by (rule drops.upsert_keeps) (simp_all add: count_update_def)
  have "remembers [] d1 (snd (increment_privacy_drop h 1 d1))"
    using k by (simp add: increment_privacy_drop_def remembers_def rows_kept_refl counter_of_def)
  then show ?thesis by (rule laterI [OF assms, rotated]) (use later_wf [OF assms] in \<open>auto intro: inv_intros\<close>)
qed

lemma write_batch_topology:
  "db_areas (snd (write_batch w idx buf d)) = db_areas d" "db_devices (snd (write_batch w idx buf d)) = db_devices d"
proof -
  obtain r d' where eq: "write_batch w idx buf d = (r, d')" by fastforce
  have 1: "db_areas (snd (insert_events rows x)) = db_areas x \<and> db_devices (snd (insert_events rows x)) = db_devices x" for rows x
    by (simp add: insert_events_def)
  have 2: "db_devices (snd (for_each (\<lambda>((a, b), n). increment_counter a b n) ks x)) = db_devices x" for ks x
    by (rule for_each_frame) (clarsimp simp: increment_counter_def)
  have 3: "db_devices (snd (for_each (\<lambda>(e, t). bump_entity_event_counts e t) es x)) = db_devices x" for es x
    by (rule for_each_frame) (clarsimp simp: bump_entity_event_counts_def)
  let ?rows = "map (event_row_of w idx) buf" and ?pa = "scan_areas w idx buf"
  from eq have "db_areas d' = db_areas d \<and> db_devices d' = db_devices d"
  proof (cases rule: write_batch_cases)
    case (rows e)
    with 1 [of ?rows d] show ?thesis by simp
  next
    case (areas e d1)
    with 1 [of ?rows d] 2 [of ?pa d1] increments_frame(5) [of ?pa d1] show ?thesis by simp
  next
    case (entities d1 d2)
    with 1 [of ?rows d] 2 [of ?pa d1] increments_frame(5) [of ?pa d1]
      3 [of "scan_last w idx buf" d2] bumps_frame(5) [of "scan_last w idx buf" d2] show ?thesis by simp
  qed
  with eq show "db_areas (snd (write_batch w idx buf d)) = db_areas d" "db_devices (snd (write_batch w idx buf d)) = db_devices d"
    by simp_all
qed

lemma write_batch_later:
  assumes "later d d1" shows "later d (snd (write_batch w idx buf d1))"
proof -
  obtain r d2 where eq: "write_batch w idx buf d1 = (r, d2)" by fastforce
  have fr: "db_snapshots d2 = db_snapshots d1" "db_drops d2 = db_drops d1" "db_areas d2 = db_areas d1" "db_devices d2 = db_devices d1"
    using write_batch_snapshots [of w idx buf d1] drops_frame_commit [of w idx buf d1] write_batch_topology [of w idx buf d1] eq by simp_all
  obtain rows where "rows = [] \<and> isl r \<or> rows = map (event_row_of w idx) buf"
    and ev: "db_events d2 = db_events d1 @ insert_event_rows rows (db_event_seq d1)"
    and "\<And>k. counter_of d1 k \<le> counter_of d2 k \<and> counter_of d2 k \<le> counter_of d1 k + count_of (in_bucket k) rows"
    and e: "\<And>i x. tbl_find er_entity_id i (db_entities d1) = Some x \<Longrightarrow>
      \<exists>y. tbl_find er_entity_id i (db_entities d2) = Some y \<and> er_first_seen_at y = er_first_seen_at x \<and>
        er_total_event_count x \<le> er_total_event_count y \<and>
        er_total_event_count y \<le> er_total_event_count x + count_of (\<lambda>e. ev_entity_id e = i) rows"
    by (rule write_batch_grows [OF later_wf [OF assms] eq]) blast
  note this(3)
  moreover have "rows_kept er_entity_id (\<lambda>x y. er_first_seen_at y = er_first_seen_at x \<and>
         er_total_event_count x \<le> er_total_event_count y \<and>
         er_total_event_count y \<le> er_total_event_count x + count_of (\<lambda>e. ev_entity_id e = er_entity_id x) rows)
       (db_entities d1) (db_entities d2)"
    unfolding rows_kept_def
  proof (intro allI impI)
    fix i x assume x: "tbl_find er_entity_id i (db_entities d1) = Some x"
    from e [OF x] tbl_find_SomeD [OF x] show "\<exists>y. tbl_find er_entity_id i (db_entities d2) = Some y \<and>
        er_first_seen_at y = er_first_seen_at x \<and> er_total_event_count x \<le> er_total_event_count y \<and>
        er_total_event_count y \<le> er_total_event_count x + count_of (\<lambda>e. ev_entity_id e = er_entity_id x) rows" by simp
  qed
  ultimately have "remembers rows d1 d2" by (simp add: remembers_def fr ev rows_kept_refl)
  then have "later d d2" by (rule laterI [OF assms, rotated]) (use write_batch_wf [OF later_wf [OF assms], of w idx buf] eq in simp)
  then show ?thesis by (simp add: eq)
qed

lemma istep_later: "later d (is_db s) \<Longrightarrow> later d (is_db (snd (istep sha op s)))"
  by (rule istep_db_inv [where P = "later d"]) (simp_all add: write_batch_later drop_later apply_topology_later)

lemma irun_later: "later d (is_db s) \<Longrightarrow> later d (is_db (irun sha ops s))"
  by (rule irun_inv [where P = "\<lambda>s. later d (is_db s)"]) (simp_all add: istep_later)

end
