(* ===== verification/PyText.thy ===== *)
theory PyText
  imports Privacy Json
begin

text \<open>
  Text of the Python standard library that several components use: \<open>str.strip\<close>, \<open>str.startswith\<close>,
  \<open>int(text)\<close>, and \<open>json.dumps(..., ensure_ascii=False)\<close> with its default separators.
\<close>

definition lstrip :: "string \<Rightarrow> string" where
  "lstrip s = dropWhile py_space s"

definition strip :: "string \<Rightarrow> string" where
  "strip s = rev (lstrip (rev (lstrip s)))"

definition startswith :: "string \<Rightarrow> string \<Rightarrow> bool" where
  "startswith s p \<longleftrightarrow> take (length p) s = p"

definition endswith :: "string \<Rightarrow> string \<Rightarrow> bool" where
  "endswith s p \<longleftrightarrow> startswith (rev s) (rev p)"

text \<open>
  \<open>int(s)\<close>: white space around it, a sign, decimal digits with single underscores
  between them, at most 4300 of them.
\<close>

fun int_digits :: "string \<Rightarrow> string option" where
  "int_digits [] = None"
| "int_digits [c] = (if is_digit c then Some [c] else None)"
| "int_digits (c # d # s) =
     (if is_digit c
      then map_option (\<lambda>ds. c # ds) (if d = CHR ''_'' then int_digits s else int_digits (d # s))
      else None)"

definition py_nat :: "string \<Rightarrow> nat option" where
  "py_nat s = (case int_digits s of
     None \<Rightarrow> None
   | Some ds \<Rightarrow> if length ds \<le> 4300 then Some (nat_of_str ds) else None)"

definition py_int :: "string \<Rightarrow> int option" where
  "py_int s = (case strip s of
     [] \<Rightarrow> None
   | c # t \<Rightarrow>
       if c = CHR ''-'' then map_option (\<lambda>n. - int n) (py_nat t)
       else if c = CHR ''+'' then map_option int (py_nat t)
       else map_option int (py_nat (c # t)))"

section \<open>JSON on one line\<close>

text \<open>Only the quote, the backslash and control characters are escaped; keys keep their order.\<close>

definition esc_plain :: "char \<Rightarrow> string" where
  "esc_plain c = (if 127 \<le> (of_char c :: nat) then [c] else esc_char c)"

definition dumps_plain_str :: "string \<Rightarrow> string" where
  "dumps_plain_str s = CHR 0x22 # List.concat (map esc_plain s) @ [CHR 0x22]"

fun dumps_plain :: "json \<Rightarrow> string" where
  "dumps_plain JNull = ''null''"
| "dumps_plain (JBool b) = (if b then ''true'' else ''false'')"
| "dumps_plain (JInt i) = int_str i"
| "dumps_plain (JFloat t) = t"
| "dumps_plain (JStr s) = dumps_plain_str s"
| "dumps_plain (JArr xs) = CHR ''['' # join '', '' (map dumps_plain xs) @ '']''"
| "dumps_plain (JObj kvs) =
     CHR ''{'' # join '', '' (map (\<lambda>(k, v). dumps_plain_str k @ '': '' @ v) (map (\<lambda>(k, v). (k, dumps_plain v)) kvs)) @ ''}''"

section \<open>Facts\<close>

lemma lstrip_id: "\<forall>c \<in> set s. \<not> py_space c \<Longrightarrow> lstrip s = s"
  by (cases s) (auto simp: lstrip_def)

lemma strip_id: "\<forall>c \<in> set s. \<not> py_space c \<Longrightarrow> strip s = s"
  by (simp add: strip_def lstrip_id)

lemma is_digit_not_space: "is_digit c \<Longrightarrow> \<not> py_space c"
  by (auto simp: is_digit_def py_space_def Let_def less_eq_char_def)

lemma int_digits_all: "s \<noteq> [] \<Longrightarrow> \<forall>c \<in> set s. is_digit c \<Longrightarrow> int_digits s = Some s"
proof (induction s rule: int_digits.induct)
  case (3 c d s)
  then have "d \<noteq> CHR ''_''" by (auto simp: is_digit_def)
  with 3 show ?case by simp
qed simp_all

lemma length_nat_str: "n < 10 ^ k \<Longrightarrow> 0 < k \<Longrightarrow> length (nat_str n) \<le> k"
proof (induction n arbitrary: k rule: nat_str.induct)
  case (1 n)
  show ?case
  proof (cases "n < 10")
    case True
    with 1 show ?thesis by (simp add: nat_str.simps [of n])
  next
    case False
    obtain j where k: "k = Suc j" using 1(3) by (cases k) auto
    have j: "0 < j" using 1(2) False k by (cases j) auto
    have "n div 10 < 10 ^ j" using 1(2) by (simp add: k less_mult_imp_div_less mult.commute)
    with 1(1) False j k show ?thesis by (simp add: nat_str.simps [of n])
  qed
qed

lemma py_int_int_str:
  assumes "0 \<le> i" and "i \<le> 9223372036854775807"
  shows "py_int (int_str i) = Some i"
proof -
  let ?s = "nat_str (nat i)"
  have dig: "\<forall>c \<in> set ?s. is_digit c" by (rule nat_str_digits)
  then have "strip ?s = ?s" by (intro strip_id) (auto dest: is_digit_not_space)
  moreover have "length ?s \<le> 19" using assms by (intro length_nat_str) auto
  then have "py_nat ?s = Some (nat i)"
    using int_digits_all [OF nat_str_nonempty dig] by (simp add: py_nat_def)
  moreover obtain c t where s: "?s = c # t" using nat_str_nonempty by (cases ?s) auto
  moreover have "c \<noteq> CHR ''-''" "c \<noteq> CHR ''+''" using dig s by (auto simp: is_digit_def)
  moreover have "int_str i = ?s" using assms(1) by (simp add: int_str_def)
  ultimately show ?thesis using assms(1) by (simp add: py_int_def)
qed

end
