(* ===== verification/Auth.thy ===== *)
theory Auth
  imports PyText
begin

text \<open>
  \<open>src/ai_ha/web/auth.py\<close>: the admin token file and the Basic-Auth dependency of every protected
  route. The file is its text, or \<open>None\<close> when there is none; \<open>secrets.token_urlsafe(32)\<close> is an argument.
  The header is parsed by FastAPI; a request comes with its credentials or without.
\<close>

section \<open>What a request gives back when it is refused\<close>

datatype http_error =
    HTTPException int string   \<comment> \<open>status code, \<open>error\<close> of the detail\<close>
  | Unhandled err              \<comment> \<open>an exception no handler catches: a 500\<close>

type_synonym 'a http = "http_error + 'a"

section \<open>Token\<close>

definition token_read :: "string option \<Rightarrow> string res" where
  "token_read file = (case file of None \<Rightarrow> Inl OSError | Some text \<Rightarrow> Inr (strip text))"

text \<open>The returned token and the file afterwards.\<close>

definition ensure_token :: "string \<Rightarrow> string option \<Rightarrow> string res \<times> string option" where
  "ensure_token fresh file =
     (case file of
        Some _ \<Rightarrow> (token_read file, file)
      | None \<Rightarrow> (Inr fresh, Some fresh))"

section \<open>The dependency\<close>

record creds =
  cr_username :: string
  cr_password :: string

definition is_ascii :: "string \<Rightarrow> bool" where
  "is_ascii s = list_all (\<lambda>c. of_char c < (128 :: nat)) s"

text \<open>\<open>secrets.compare_digest\<close> of two \<open>str\<close> wants both to be ASCII.\<close>

definition compare_digest :: "string \<Rightarrow> string \<Rightarrow> bool res" where
  "compare_digest a b = (if is_ascii a \<and> is_ascii b then Inr (a = b) else Inl TypeError)"

definition require_admin :: "bool \<Rightarrow> string option \<Rightarrow> creds option \<Rightarrow> unit http" where
  "require_admin require_auth file creds =
     (if \<not> require_auth then Inr ()
      else case creds of
        None \<Rightarrow> Inl (HTTPException 401 ''auth-required'')
      | Some c \<Rightarrow>
          if cr_username c \<noteq> ''admin'' then Inl (HTTPException 401 ''auth-required'')
          else case token_read file of
            Inl e \<Rightarrow> Inl (Unhandled e)
          | Inr token \<Rightarrow>
              (case compare_digest (cr_password c) token of
                 Inl e \<Rightarrow> Inl (Unhandled e)
               | Inr same \<Rightarrow> if \<not> same then Inl (HTTPException 401 ''auth-invalid'') else Inr ()))"

text \<open>
  C31. With authentication on, a request passes exactly when it names the user \<open>admin\<close> and its
  password is the text of the token file without the white space around it, both ASCII; a
  token file is made once, and the token it holds is the one that was returned.
\<close>

theorem admin_needs_the_token:
  "(require_admin True file creds = Inr () \<longleftrightarrow>
     (\<exists>text. file = Some text \<and> is_ascii (strip text) \<and>
        creds = Some \<lparr>cr_username = ''admin'', cr_password = strip text\<rparr>)) \<and>
   (case ensure_token fresh file of
      (Inr tok, file') \<Rightarrow> \<exists>text. file' = Some text \<and> (file = None \<and> text = tok \<or> file = file' \<and> tok = strip text)
    | (Inl e, file') \<Rightarrow> False)"
proof
  show "require_admin True file creds = Inr () \<longleftrightarrow>
     (\<exists>text. file = Some text \<and> is_ascii (strip text) \<and>
        creds = Some \<lparr>cr_username = ''admin'', cr_password = strip text\<rparr>)"
  proof (cases creds)
    case (Some c)
    then show ?thesis
      by (cases c; cases "file") (auto simp: require_admin_def token_read_def compare_digest_def)
  qed (simp add: require_admin_def)
  show "case ensure_token fresh file of
      (Inr tok, file') \<Rightarrow> \<exists>text. file' = Some text \<and> (file = None \<and> text = tok \<or> file = file' \<and> tok = strip text)
    | (Inl e, file') \<Rightarrow> False"
    by (cases "file") (auto simp: ensure_token_def token_read_def)
qed

text \<open>An empty token file lets in \<open>admin\<close> with an empty password.\<close>

lemma empty_token_file: "require_admin True (Some []) (Some \<lparr>cr_username = ''admin'', cr_password = []\<rparr>) = Inr ()"
  by (simp add: require_admin_def token_read_def compare_digest_def strip_def lstrip_def is_ascii_def)

end
