(* ===== verification/Health.thy ===== *)
theory Health
  imports Prelude
begin

text \<open>
  \<open>src/ai_ha/health/metrics.py\<close>: the metric collector behind \<open>/api/health\<close>. The deque of event
  timestamps is a list, oldest first. \<open>db_size_mb\<close> of the report is kept in bytes: its rounding
  to two decimals is floating-point formatting.
\<close>

record health =
  hl_start_ms :: int
  hl_ws_connected :: bool
  hl_event_log_recent :: "int list"
  hl_hidden_total :: int
  hl_db_size_bytes :: int
  hl_topology_snapshot_id :: "int option"
  hl_wal_recovery_count :: int
  hl_privacy_compile_fail :: int
  hl_config_reload_fail :: int
  hl_ha_version :: "string option"

definition new_health :: "int \<Rightarrow> health" where
  "new_health install_start_ms = \<lparr>hl_start_ms = install_start_ms, hl_ws_connected = False,
     hl_event_log_recent = [], hl_hidden_total = 0, hl_db_size_bytes = 0,
     hl_topology_snapshot_id = None, hl_wal_recovery_count = 0, hl_privacy_compile_fail = 0,
     hl_config_reload_fail = 0, hl_ha_version = None\<rparr>"

definition set_ws_connected :: "bool \<Rightarrow> health \<Rightarrow> health" where
  "set_ws_connected b h = h\<lparr>hl_ws_connected := b\<rparr>"

definition set_db_size :: "int \<Rightarrow> health \<Rightarrow> health" where
  "set_db_size n h = h\<lparr>hl_db_size_bytes := n\<rparr>"

definition set_topology_snapshot_id :: "int \<Rightarrow> health \<Rightarrow> health" where
  "set_topology_snapshot_id sid h = h\<lparr>hl_topology_snapshot_id := Some sid\<rparr>"

definition set_ha_version :: "string \<Rightarrow> health \<Rightarrow> health" where
  "set_ha_version v h = h\<lparr>hl_ha_version := Some v\<rparr>"

definition inc_wal_recovery :: "health \<Rightarrow> health" where
  "inc_wal_recovery h = h\<lparr>hl_wal_recovery_count := hl_wal_recovery_count h + 1\<rparr>"

definition inc_privacy_compile_fail :: "health \<Rightarrow> health" where
  "inc_privacy_compile_fail h = h\<lparr>hl_privacy_compile_fail := hl_privacy_compile_fail h + 1\<rparr>"

definition inc_config_reload_fail :: "health \<Rightarrow> health" where
  "inc_config_reload_fail h = h\<lparr>hl_config_reload_fail := hl_config_reload_fail h + 1\<rparr>"

definition record_privacy_drop :: "health \<Rightarrow> health" where
  "record_privacy_drop h = h\<lparr>hl_hidden_total := hl_hidden_total h + 1\<rparr>"

text \<open>\<open>while log and log[0] < cutoff: log.popleft()\<close>\<close>

fun pop_before :: "int \<Rightarrow> int list \<Rightarrow> int list" where
  "pop_before cutoff [] = []"
| "pop_before cutoff (t # ts) = (if t < cutoff then pop_before cutoff ts else t # ts)"

definition record_event :: "int \<Rightarrow> health \<Rightarrow> health" where
  "record_event ts_ms h =
     (let cutoff = ts_ms - 3600000 in
      h\<lparr>hl_event_log_recent := pop_before cutoff (hl_event_log_recent h @ [ts_ms])\<rparr>)"

record health_report =
  hr_status :: string
  hr_ws_connected :: bool
  hr_events_per_hour :: int
  hr_db_size_bytes :: int
  hr_uptime_seconds :: int
  hr_hidden_event_count :: int
  hr_current_topology_snapshot_id :: "int option"
  hr_ha_version_seen :: "string option"
  hr_wal_recovery_count :: int
  hr_privacy_regex_compile_fail_total :: int
  hr_config_reload_fail_total :: int

definition health_snapshot :: "int \<Rightarrow> health \<Rightarrow> health_report \<times> health" where
  "health_snapshot now_ms h =
     (let cutoff = now_ms - 3600000;
          h = h\<lparr>hl_event_log_recent := pop_before cutoff (hl_event_log_recent h)\<rparr>;
          uptime = max 0 ((now_ms - hl_start_ms h) div 1000)
      in (\<lparr>hr_status = (if hl_ws_connected h then ''healthy'' else ''degraded''),
           hr_ws_connected = hl_ws_connected h,
           hr_events_per_hour = int (length (hl_event_log_recent h)),
           hr_db_size_bytes = hl_db_size_bytes h,
           hr_uptime_seconds = uptime,
           hr_hidden_event_count = hl_hidden_total h,
           hr_current_topology_snapshot_id = hl_topology_snapshot_id h,
           hr_ha_version_seen = hl_ha_version h,
           hr_wal_recovery_count = hl_wal_recovery_count h,
           hr_privacy_regex_compile_fail_total = hl_privacy_compile_fail h,
           hr_config_reload_fail_total = hl_config_reload_fail h\<rparr>, h))"

section \<open>The rolling hour\<close>

lemma pop_before_sorted: "sorted ts \<Longrightarrow> pop_before c ts = filter (\<lambda>t. c \<le> t) ts"
  by (induction ts) (auto intro!: filter_True [symmetric])

text \<open>A history of recorded events and reports.\<close>

datatype health_op = RecordEvent int | Report int

fun health_run :: "health_op list \<Rightarrow> health \<Rightarrow> health" where
  "health_run [] h = h"
| "health_run (RecordEvent t # ops) h = health_run ops (record_event t h)"
| "health_run (Report t # ops) h = health_run ops (snd (health_snapshot t h))"

fun op_time :: "health_op \<Rightarrow> int" where
  "op_time (RecordEvent t) = t"
| "op_time (Report t) = t"

fun recorded :: "health_op list \<Rightarrow> int list" where
  "recorded [] = []"
| "recorded (RecordEvent t # ops) = t # recorded ops"
| "recorded (Report t # ops) = recorded ops"

lemma recorded_times: "set (recorded ops) \<subseteq> op_time ` set ops"
  by (induction ops rule: recorded.induct) auto

lemma recorded_sorted: "sorted (map op_time ops) \<Longrightarrow> sorted (recorded ops)"
  using recorded_times by (induction ops rule: recorded.induct) fastforce+

lemma health_run_append: "health_run (a @ b) h = health_run b (health_run a h)"
  by (induction a h rule: health_run.induct) simp_all

lemma recorded_append: "recorded (a @ b) = recorded a @ recorded b"
  by (induction a rule: recorded.induct) simp_all

lemma sorted_filter_prefix: "sorted (ts @ us) \<Longrightarrow> sorted (filter P ts @ us)" for ts :: "int list"
  by (auto simp: sorted_append intro: sorted_wrt_filter)

text \<open>The deque is the recorded events of the hour before the last operation.\<close>

lemma health_run_log:
  assumes "sorted (map op_time (ops @ [x]))"
  shows "hl_event_log_recent (health_run (ops @ [x]) (new_health s)) =
    filter (\<lambda>t. op_time x - 3600000 \<le> t) (recorded (ops @ [x]))"
  using assms
proof (induction ops arbitrary: x rule: rev_induct)
  case Nil
  then show ?case
    by (cases x) (simp_all add: record_event_def health_snapshot_def new_health_def Let_def)
next
  case (snoc y ops)
  have s: "sorted (map op_time (ops @ [y]))" and le: "op_time y \<le> op_time x"
    using snoc.prems by (simp_all add: sorted_append)
  have IH: "hl_event_log_recent (health_run (ops @ [y]) (new_health s)) =
    filter (\<lambda>t. op_time y - 3600000 \<le> t) (recorded (ops @ [y]))" by (rule snoc.IH [OF s])
  have srt: "sorted (recorded ((ops @ [y]) @ [x]))" using snoc.prems by (intro recorded_sorted) simp
  have f: "filter (\<lambda>t. op_time x - 3600000 \<le> t) (filter (\<lambda>t. op_time y - 3600000 \<le> t) ts) =
      filter (\<lambda>t. op_time x - 3600000 \<le> t) ts" for ts
    unfolding filter_filter using le by (intro filter_cong) auto
  show ?case
  proof (cases x)
    case (RecordEvent t)
    have "sorted (filter (\<lambda>t. op_time y - 3600000 \<le> t) (recorded (ops @ [y])) @ [t])"
      using srt RecordEvent
      by (intro sorted_filter_prefix) (simp add: recorded_append [of "ops @ [y]"] del: append_assoc)
    then show ?thesis using IH f [of "recorded (ops @ [y])"] RecordEvent
      by (simp add: health_run_append [of "ops @ [y]"] recorded_append record_event_def Let_def pop_before_sorted
          del: append_assoc)
  next
    case (Report t)
    have "sorted (filter (\<lambda>t. op_time y - 3600000 \<le> t) (recorded (ops @ [y])))"
      using srt Report sorted_filter_prefix [of "recorded (ops @ [y])" "[]"]
      by (simp add: recorded_append [of "ops @ [y]"] del: append_assoc)
    then show ?thesis using IH f [of "recorded (ops @ [y])"] Report
      by (simp add: health_run_append [of "ops @ [y]"] recorded_append health_snapshot_def Let_def pop_before_sorted
          del: append_assoc)
  qed
qed

text \<open>
  With a clock that does not go back, \<open>events_per_hour\<close> of a report is the number of events
  recorded in the hour before it, the hour's start included, whatever reports were made
  between them.
\<close>

theorem events_per_hour_is_the_rolling_hour:
  assumes "sorted (map op_time ops)" and "\<forall>x \<in> set ops. op_time x \<le> now"
  shows "hr_events_per_hour (fst (health_snapshot now (health_run ops (new_health start)))) =
    int (length (filter (\<lambda>t. now - 3600000 \<le> t) (recorded ops)))"
proof -
  have "sorted (map op_time (ops @ [Report now]))" using assms by (auto simp: sorted_append)
  from health_run_log [OF this, of start]
  show ?thesis by (simp add: health_run_append recorded_append health_snapshot_def Let_def)
qed

lemma events_per_hour_is_the_rolling_hour_witness:
  "hr_events_per_hour (fst (health_snapshot 3600005 (health_run [RecordEvent 0, RecordEvent 5, Report 9, RecordEvent 9] (new_health 0)))) = 2"
  by (subst events_per_hour_is_the_rolling_hour) simp_all

end
