(* ===== verification/WebApi.thy ===== *)
theory WebApi
  imports IngestSystem Auth Health
begin

text \<open>
  The read side of the web interface: the routes of \<open>src/ai_ha/web/routes\<close> that answer from the
  database (\<open>areas.py\<close>, \<open>entities.py\<close>, \<open>events.py\<close>, \<open>topology.py\<close>, \<open>health.py\<close>) and the data the pages of
  \<open>pages.py\<close> hand to their templates. A response is a record with the fields of the JSON object.
  \<open>state\<close> is \<open>None\<close> when the app was made without one. Query parameters arrive parsed by FastAPI and
  within their bounds (\<open>Requests\<close>), except the cursor of \<open>/events\<close>, which the route parses itself.
\<close>

section \<open>Areas\<close>

definition per_area_totals :: "((string \<times> int) \<times> int) list \<Rightarrow> (string \<times> int) list" where
  "per_area_totals counters = fold (\<lambda>((aid, _), n) per_area. dict_add aid n per_area) counters []"

text \<open>\<open>class_dist\<close> and \<open>last_seen_max\<close> over the entities of an area.\<close>

definition scan_entities :: "entity_row list \<Rightarrow> (string \<times> int) list \<times> int" where
  "scan_entities es =
     fold (\<lambda>e (class_dist, last_seen_max).
       ((case er_device_class e of
           None \<Rightarrow> class_dist
         | Some c \<Rightarrow> if c = [] then class_dist else dict_add c 1 class_dist),
        max last_seen_max (er_last_seen_at e))) es ([], 0)"

record area_out =
  ao_area_id :: string
  ao_name :: "string option"
  ao_floor_id :: "string option"
  ao_events_per_hour_24h :: int
  ao_device_class_distribution :: "(string \<times> int) list"
  ao_is_active :: bool
  ao_active_since :: "int option"
  ao_entity_count :: int

text \<open>The two clock readings of the handler are \<open>now1\<close> and \<open>now2\<close>, in milliseconds.\<close>

definition areas_route :: "int \<Rightarrow> int \<Rightarrow> db option \<Rightarrow> area_out list" where
  "areas_route now1 now2 state =
     (case state of
        None \<Rightarrow> []
      | Some d \<Rightarrow>
          (let rows = list_areas d;
               now_hour = now1 div 3600000;
               per_area = per_area_totals (get_counters_24h now_hour d);
               active_cutoff = now2 - 600000
           in map (\<lambda>r.
                let entities = list_entities (Some (ar_area_id r)) False None 1000 d;
                    (class_dist, last_seen_max) = scan_entities entities
                in \<lparr>ao_area_id = ar_area_id r, ao_name = ar_name r, ao_floor_id = ar_floor_id r,
                    ao_events_per_hour_24h = dict_num per_area (ar_area_id r),
                    ao_device_class_distribution = class_dist,
                    ao_is_active = last_seen_max > active_cutoff,
                    ao_active_since = (if last_seen_max > active_cutoff then Some last_seen_max else None),
                    ao_entity_count = int (length entities)\<rparr>) rows))"

record entity_brief =
  eb_entity_id :: string
  eb_friendly_name :: "string option"
  eb_device_class :: "string option"
  eb_last_seen :: int

record event_brief =
  vb_ts :: int
  vb_entity_id :: string
  vb_event_type :: string
  vb_old_state :: "string option"
  vb_new_state :: "string option"

record area_detail_out =
  ad_area_id :: string
  ad_name :: "string option"
  ad_floor_id :: "string option"
  ad_entities :: "entity_brief list"
  ad_recent_events :: "event_brief list"

definition area_detail :: "string \<Rightarrow> db option \<Rightarrow> area_detail_out http" where
  "area_detail area_id state =
     (case state of
        None \<Rightarrow> Inl (HTTPException 404 ''not-found'')
      | Some d \<Rightarrow>
          (case find (\<lambda>a. ar_area_id a = area_id) (list_areas d) of
             None \<Rightarrow> Inl (HTTPException 404 ''not-found'')
           | Some a \<Rightarrow> Inr \<lparr>
               ad_area_id = ar_area_id a, ad_name = ar_name a, ad_floor_id = ar_floor_id a,
               ad_entities = map (\<lambda>e. \<lparr>eb_entity_id = er_entity_id e, eb_friendly_name = er_friendly_name e,
                 eb_device_class = er_device_class e, eb_last_seen = er_last_seen_at e\<rparr>)
                 (list_entities (Some area_id) False None 1000 d),
               ad_recent_events = map (\<lambda>ev. \<lparr>vb_ts = ev_ts ev, vb_entity_id = ev_entity_id ev,
                 vb_event_type = ev_event_type ev, vb_old_state = ev_old_state ev,
                 vb_new_state = ev_new_state ev\<rparr>)
                 (list_events None (Some area_id) None None None 50 d)\<rparr>))"

definition area_entities :: "string \<Rightarrow> db option \<Rightarrow> (entity_brief \<times> int) list" where
  "area_entities area_id state =
     (case state of
        None \<Rightarrow> []
      | Some d \<Rightarrow> map (\<lambda>e. (\<lparr>eb_entity_id = er_entity_id e, eb_friendly_name = er_friendly_name e,
          eb_device_class = er_device_class e, eb_last_seen = er_last_seen_at e\<rparr>, er_event_count_24h e))
          (list_entities (Some area_id) False None 1000 d))"

section \<open>Entities\<close>

record entity_out =
  eo_entity_id :: string
  eo_friendly_name :: "string option"
  eo_domain :: string
  eo_device_class :: "string option"
  eo_device_id :: "string option"
  eo_area_id :: "string option"
  eo_disabled :: bool
  eo_snapshot_id :: int
  eo_last_seen :: int
  eo_event_count_24h :: int
  eo_total_event_count :: int

definition entities_route ::
  "string option \<Rightarrow> bool \<Rightarrow> string option \<Rightarrow> int \<Rightarrow> db option \<Rightarrow> entity_out list" where
  "entities_route area_id orphan device_class limit state =
     (case state of
        None \<Rightarrow> []
      | Some d \<Rightarrow> map (\<lambda>r. \<lparr>eo_entity_id = er_entity_id r, eo_friendly_name = er_friendly_name r,
          eo_domain = er_domain r, eo_device_class = er_device_class r,
          eo_device_id = er_device_id r, eo_area_id = er_area_id r,
          eo_disabled = (er_disabled r \<noteq> 0), eo_snapshot_id = er_snapshot_id r,
          eo_last_seen = er_last_seen_at r, eo_event_count_24h = er_event_count_24h r,
          eo_total_event_count = er_total_event_count r\<rparr>)
          (list_entities area_id orphan device_class limit d))"

text \<open>A Python int that does not fit 64 bits cannot be bound to a statement.\<close>

definition sql_int :: "int \<Rightarrow> bool" where
  "sql_int i \<longleftrightarrow> - 9223372036854775808 \<le> i \<and> i \<le> 9223372036854775807"

definition sql_ints :: "int option list \<Rightarrow> bool" where
  "sql_ints vs = list_all (\<lambda>v. case v of None \<Rightarrow> True | Some i \<Rightarrow> sql_int i) vs"

record entity_event_out =
  ee_ts :: int
  ee_received_at :: int
  ee_event_type :: string
  ee_old_state :: "string option"
  ee_new_state :: "string option"
  ee_context_user_id :: "string option"

definition entity_events ::
  "string \<Rightarrow> int \<Rightarrow> int option \<Rightarrow> db option \<Rightarrow> entity_event_out list http" where
  "entity_events entity_id limit cursor state =
     (case state of
        None \<Rightarrow> Inr []
      | Some d \<Rightarrow>
          if \<not> sql_ints [cursor] then Inl (Unhandled OverflowError)
          else Inr (map (\<lambda>r. \<lparr>ee_ts = ev_ts r, ee_received_at = ev_received_at r,
            ee_event_type = ev_event_type r, ee_old_state = ev_old_state r,
            ee_new_state = ev_new_state r, ee_context_user_id = ev_context_user_id r\<rparr>)
            (list_events (Some entity_id) None None None cursor limit d)))"

section \<open>Events\<close>

record event_out =
  vo_ts :: int
  vo_received_at :: int
  vo_entity_id :: string
  vo_event_type :: string
  vo_old_state :: "string option"
  vo_new_state :: "string option"
  vo_area_id :: "string option"
  vo_device_class :: "string option"

definition event_out_of :: "event_row \<Rightarrow> event_out" where
  "event_out_of r = \<lparr>vo_ts = ev_ts r, vo_received_at = ev_received_at r,
     vo_entity_id = ev_entity_id r, vo_event_type = ev_event_type r,
     vo_old_state = ev_old_state r, vo_new_state = ev_new_state r,
     vo_area_id = ev_area_id r, vo_device_class = ev_device_class r\<rparr>"

record events_page =
  vp_events :: "event_out list"
  vp_next_cursor :: "string option"

definition events_route ::
  "int option \<Rightarrow> int option \<Rightarrow> string option \<Rightarrow> string option \<Rightarrow> int \<Rightarrow> string option \<Rightarrow> db option
    \<Rightarrow> events_page http" where
  "events_route since until area_id entity_id limit cursor state =
     (case state of
        None \<Rightarrow> Inr \<lparr>vp_events = [], vp_next_cursor = None\<rparr>
      | Some d \<Rightarrow>
          (case (case cursor of None \<Rightarrow> Some None | Some s \<Rightarrow> map_option Some (py_int s)) of
             None \<Rightarrow> Inl (HTTPException 400 ''bad-cursor'')
           | Some cursor_int \<Rightarrow>
               if \<not> sql_ints [since, until, cursor_int] then Inl (Unhandled OverflowError)
               else
                 (let rows = list_events entity_id area_id since until cursor_int limit d in
                  Inr \<lparr>vp_events = map event_out_of rows,
                       vp_next_cursor =
                         (if rows \<noteq> [] \<and> int (length rows) = limit
                          then Some (int_str (ev_ts (last rows))) else None)\<rparr>)))"

section \<open>Topology\<close>

record topology_out =
  to_snapshot_id :: int
  to_ts :: int
  to_hash :: string
  to_areas_count :: int
  to_devices_count :: int
  to_entities_count :: int
  to_diff_summary :: "string option"

definition current_topology :: "db option \<Rightarrow> topology_out http" where
  "current_topology state =
     (case state of
        None \<Rightarrow> Inl (HTTPException 503 ''topology-not-ready'')
      | Some d \<Rightarrow>
          (case get_current d of
             Inl e \<Rightarrow> Inl (Unhandled e)
           | Inr None \<Rightarrow> Inl (HTTPException 503 ''topology-not-ready'')
           | Inr (Some cur) \<Rightarrow> Inr \<lparr>
               to_snapshot_id = ss_snapshot_id cur, to_ts = ss_ts_ms cur, to_hash = ss_payload_hash cur,
               to_areas_count = int (length (pl_areas (ss_payload cur))),
               to_devices_count = int (length (pl_devices (ss_payload cur))),
               to_entities_count = int (length (pl_entities (ss_payload cur))),
               to_diff_summary = ss_diff_summary cur\<rparr>))"

record snapshot_item =
  si_snapshot_id :: int
  si_ts :: int
  si_hash :: string
  si_diff_summary :: "string option"

definition snapshot_item_of :: "snap_row \<Rightarrow> snapshot_item" where
  "snapshot_item_of r = \<lparr>si_snapshot_id = sn_id r, si_ts = sn_ts r, si_hash = sn_payload_hash r,
     si_diff_summary = sn_diff_summary r\<rparr>"

definition list_snapshots :: "int \<Rightarrow> db option \<Rightarrow> snapshot_item list" where
  "list_snapshots limit state =
     (case state of
        None \<Rightarrow> []
      | Some d \<Rightarrow> map snapshot_item_of (sql_limit limit (rev (db_snapshots d))))"

definition snapshot_detail :: "int \<Rightarrow> db option \<Rightarrow> (snapshot_item \<times> json) http" where
  "snapshot_detail sid state =
     (case state of
        None \<Rightarrow> Inl (HTTPException 503 ''topology-not-ready'')
      | Some d \<Rightarrow>
          if \<not> sql_int sid then Inl (Unhandled OverflowError)
          else case find (\<lambda>r. sn_id r = sid) (db_snapshots d) of
             None \<Rightarrow> Inl (HTTPException 404 ''not-found'')
           | Some row \<Rightarrow>
               (case loads (sn_payload row) of
                  Inl e \<Rightarrow> Inl (Unhandled e)
                | Inr payload \<Rightarrow> Inr (snapshot_item_of row, payload)))"

section \<open>Health\<close>

text \<open>\<open>state.health.snapshot\<close> pops the deque of the collector it reads.\<close>

definition health_route :: "int \<Rightarrow> health option \<Rightarrow> (string \<times> int + health_report) \<times> health option" where
  "health_route now state =
     (case state of
        None \<Rightarrow> (Inl (''healthy'', 0), None)
      | Some h \<Rightarrow> (case health_snapshot now h of (report, h') \<Rightarrow> (Inr report, Some h')))"

section \<open>Pages\<close>

datatype 'a page = Redirect string | Render string 'a

record room_out =
  ro_area_id :: string
  ro_name :: "string option"
  ro_events_per_hour_24h :: int
  ro_device_class_distribution :: "(string \<times> int) list"
  ro_is_active :: bool
  ro_entity_count :: int

definition rooms_page :: "int \<Rightarrow> int \<Rightarrow> db option \<Rightarrow> room_out list page" where
  "rooms_page now1 now2 state = Render ''rooms.html''
     (case state of
        None \<Rightarrow> []
      | Some d \<Rightarrow>
          (let rows = list_areas d;
               now_hour = now1 div 3600000;
               per_area = per_area_totals (get_counters_24h now_hour d);
               active_cutoff = now2 - 600000
           in map (\<lambda>r.
                let ents = list_entities (Some (ar_area_id r)) False None 1000 d;
                    (class_dist, last_seen_max) = scan_entities ents
                in \<lparr>ro_area_id = ar_area_id r, ro_name = ar_name r,
                    ro_events_per_hour_24h = dict_num per_area (ar_area_id r),
                    ro_device_class_distribution = class_dist,
                    ro_is_active = last_seen_max > active_cutoff,
                    ro_entity_count = int (length ents)\<rparr>) rows))"

definition room_page :: "string \<Rightarrow> db option \<Rightarrow> (area_row \<times> entity_row list \<times> event_row list) page" where
  "room_page area_id state =
     (case state of
        None \<Rightarrow> Redirect ''/''
      | Some d \<Rightarrow>
          (case find (\<lambda>a. ar_area_id a = area_id) (list_areas d) of
             None \<Rightarrow> Redirect ''/''
           | Some a \<Rightarrow> Render ''room.html''
               (a, list_entities (Some area_id) False None 1000 d,
                list_events None (Some area_id) None None None 50 d)))"

definition entities_page :: "db option \<Rightarrow> entity_row list page" where
  "entities_page state = Render ''entities.html''
     (case state of None \<Rightarrow> [] | Some d \<Rightarrow> list_entities None False None 500 d)"

definition timeline_page :: "db option \<Rightarrow> event_row list page" where
  "timeline_page state = Render ''timeline.html''
     (case state of None \<Rightarrow> [] | Some d \<Rightarrow> list_events None None None None None 200 d)"

end
