(* ===== verification/WebProps.thy ===== *)
theory WebProps
  imports WebApi
begin

text \<open>
  The properties of the read API: what the area list reports of the event log, and what following
  the cursor of \<open>/api/v1/events\<close> does.
\<close>

section \<open>The cursor of the events route\<close>

text \<open>A cursor above every id bounds nothing.\<close>

lemma high_cursor:
  assumes "\<forall>x \<in> set (db_events d). fst x < c"
  shows "list_events e a s u (Some c) limit d = list_events e a s u None limit d"
proof -
  have "filter (\<lambda>(i, r). (truthy e \<longrightarrow> Some (ev_entity_id r) = e) \<and> (truthy a \<longrightarrow> ev_area_id r = a) \<and>
       (case s of None \<Rightarrow> True | Some t \<Rightarrow> t \<le> ev_ts r) \<and> (case u of None \<Rightarrow> True | Some t \<Rightarrow> ev_ts r \<le> t) \<and> i < c) (db_events d) =
     filter (\<lambda>(i, r). (truthy e \<longrightarrow> Some (ev_entity_id r) = e) \<and> (truthy a \<longrightarrow> ev_area_id r = a) \<and>
       (case s of None \<Rightarrow> True | Some t \<Rightarrow> t \<le> ev_ts r) \<and> (case u of None \<Rightarrow> True | Some t \<Rightarrow> ev_ts r \<le> t)) (db_events d)"
    using assms by (intro filter_cong) auto
  then show ?thesis by (simp add: list_events_def)
qed

lemma listed_stored: "set (list_events e a s u c limit d) \<subseteq> snd ` set (db_events d)"
  by (auto simp: list_events_def dest!: subsetD [OF set_sql_limit])

text \<open>
  C28. The cursor that \<open>/api/v1/events\<close> hands out does not lead to the next page. It is the
  timestamp of the last row, but \<open>list_events\<close> reads a cursor as an \<open>event_id\<close>: as long as every
  stored timestamp is larger than every id (milliseconds since 1970 against a row count), a
  client that follows \<open>next_cursor\<close> gets the first page again, with the same cursor.
\<close>

theorem events_cursor_repeats_the_page:
  assumes "db_wf d" and "\<forall>(i, r) \<in> set (db_events d). db_event_seq d < ev_ts r \<and> ev_ts r \<le> 9223372036854775807"
    and "0 \<le> limit"
    and "events_route since until area_id entity_id limit None (Some d) = Inr page"
    and "vp_next_cursor page = Some c"
  shows "events_route since until area_id entity_id limit (Some c) (Some d) = Inr page"
proof -
  define rows where "rows = list_events entity_id area_id since until None limit d"
  have ok: "sql_ints [since, until, None]"
    using assms(4) by (auto simp: events_route_def split: if_splits)
  have page: "rows \<noteq> []" "c = int_str (ev_ts (last rows))" "page = \<lparr>vp_events = map event_out_of rows,
      vp_next_cursor = Some c\<rparr>" "int (length rows) = limit"
    using assms(4,5) ok by (auto simp: events_route_def rows_def Let_def split: if_splits)
  have "set rows \<subseteq> snd ` set (db_events d)" unfolding rows_def by (rule listed_stored)
  then have "last rows \<in> snd ` set (db_events d)" using page(1) last_in_set by blast
  with assms(2) have t: "db_event_seq d < ev_ts (last rows)" "ev_ts (last rows) \<le> 9223372036854775807" by auto
  have seq: "0 \<le> db_event_seq d" "\<forall>x \<in> set (db_events d). fst x \<le> db_event_seq d"
    using assms(1) by (auto simp: db_wf_def events_wf_def)
  have c: "py_int c = Some (ev_ts (last rows))" unfolding page(2) using t seq by (intro py_int_int_str) auto
  have "\<forall>x \<in> set (db_events d). fst x < ev_ts (last rows)" using seq(2) t(1) by (metis le_less_trans)
  from high_cursor [OF this] have "list_events entity_id area_id since until (Some (ev_ts (last rows))) limit d = rows"
    by (simp only: rows_def)
  moreover have "sql_ints [since, until, Some (ev_ts (last rows))]"
    using ok t seq by (simp add: sql_ints_def sql_int_def)
  ultimately show ?thesis using page c by (simp add: events_route_def)
qed

lemma events_cursor_repeats_the_page_witness:
  "let d = snd (insert_events (map (event_row_of 0 []) [(state_change 1700000000000 ''a.b'', 0), (state_change 1700000000001 ''a.c'', 0)]) empty_db)
   in \<exists>page c. events_route None None None None 1 None (Some d) = Inr page \<and> vp_next_cursor page = Some c \<and>
      map vo_entity_id (vp_events page) = [''a.c''] \<and>
      events_route None None None None 1 (Some c) (Some d) = Inr page"
proof -
  define rows where "rows = map (event_row_of 0 []) [(state_change 1700000000000 ''a.b'', 0), (state_change 1700000000001 ''a.c'', 0)]"
  define d where "d = snd (insert_events rows empty_db)"
  have ev: "db_events d = insert_event_rows rows 0" "db_event_seq d = 2"
    by (simp_all add: d_def rows_def insert_events_def) (simp_all add: empty_db_def)
  obtain page c where p: "events_route None None None None 1 None (Some d) = Inr page" "vp_next_cursor page = Some c"
    "map vo_entity_id (vp_events page) = [''a.c'']"
    by (simp add: events_route_def sql_ints_def list_events_def sql_limit_def ev Let_def
        event_out_of_def row_simps rows_def)
  have "\<forall>(i, r) \<in> set (db_events d). db_event_seq d < ev_ts r \<and> ev_ts r \<le> 9223372036854775807"
    unfolding ev by (simp add: row_simps rows_def)
  from events_cursor_repeats_the_page [OF insert_events_wf [OF db_wf_empty, of rows, folded d_def] this _ p(1,2)] p
  show ?thesis by (auto simp: Let_def d_def rows_def)
qed

section \<open>The area list\<close>

lemma totals_num:
  "dict_num (fold (\<lambda>((aid, _), n) per_area. dict_add aid n per_area) cs acc) a =
     dict_num acc a + (\<Sum>((aid, h), n) \<leftarrow> cs. if aid = a then n else 0)"
  by (induction cs arbitrary: acc) auto

lemma per_area_totals_num:
  "dict_num (per_area_totals cs) a = (\<Sum>((aid, h), n) \<leftarrow> cs. if aid = a then n else 0)"
  by (simp add: per_area_totals_def totals_num)

lemma sum_filter_if: "(\<Sum>x \<leftarrow> filter P xs. if Q x then f x else (0 :: int)) = (\<Sum>x \<leftarrow> xs. if P x \<and> Q x then f x else 0)"
  by (induction xs) auto

text \<open>Counting rows bucket by bucket, over distinct buckets.\<close>

lemma count_buckets:
  assumes "distinct ks"
  shows "(\<Sum>k \<leftarrow> ks. if Q k then count_of (in_bucket k) rows else 0) =
    count_of (\<lambda>r. \<exists>k \<in> set ks. Q k \<and> in_bucket k r) rows"
  using assms
proof (induction rows)
  case Nil
  show ?case by (induction ks) simp_all
next
  case (Cons r rows)
  have one: "(\<Sum>k \<leftarrow> ks. if Q k \<and> in_bucket k r then 1 else (0 :: int)) =
      (if \<exists>k \<in> set ks. Q k \<and> in_bucket k r then 1 else 0)"
    using Cons.prems
  proof (induction ks)
    case (Cons k ks)
    have same: "k' = k" if "in_bucket k r" "in_bucket k' r" for k'
      using that by (cases k; cases k') (auto simp: in_bucket_def)
    show ?case
    proof (cases "Q k \<and> in_bucket k r")
      case True
      with same Cons.prems have "\<not> (\<exists>k' \<in> set ks. Q k' \<and> in_bucket k' r)" by auto
      with True Cons show ?thesis by simp
    next
      case False
      with Cons show ?thesis by auto
    qed
  qed simp
  have split: "(if Q k then count_of (in_bucket k) (r # rows) else 0) =
      (if Q k \<and> in_bucket k r then 1 else 0) + (if Q k then count_of (in_bucket k) rows else 0)" for k
    by simp
  show ?case unfolding split sum_list_addf one using Cons by simp
qed

lemma totals_are_events:
  assumes "db_wf d" and "counters_exact d"
  shows "dict_num (per_area_totals (get_counters_24h now_hour d)) a =
    count_of (\<lambda>r. a \<noteq> [] \<and> ev_area_id r = Some a \<and> now_hour - 24 < ev_ts r div 3600000) (map snd (db_events d))"
proof -
  let ?rows = "map snd (db_events d)"
  let ?Q = "\<lambda>(aid, h). aid = a \<and> now_hour - 24 < h"
  have wf: "tbl_wf fst (db_counters d)" using assms(1) by (simp add: db_wf_def)
  have cnt: "counter_of d k = count_of (in_bucket k) ?rows" for k
    using assms(2) unfolding counters_exact_def events_in_def by blast
  have val: "n = count_of (in_bucket k) ?rows" if "(k, n) \<in> set (db_counters d)" for k n
    using tbl_find_in_set [OF wf that] cnt [of k] by (simp add: counter_of_def)
  have "dict_num (per_area_totals (get_counters_24h now_hour d)) a =
      (\<Sum>x \<leftarrow> db_counters d. if ?Q (fst x) then snd x else 0)"
    unfolding per_area_totals_num get_counters_24h_def
    by (simp add: case_prod_unfold sum_filter_if conj_commute)
  also have "\<dots> = (\<Sum>x \<leftarrow> db_counters d. if ?Q (fst x) then count_of (in_bucket (fst x)) ?rows else 0)"
    using val by (intro arg_cong [where f = sum_list] map_cong refl) (metis prod.collapse)
  also have "\<dots> = (\<Sum>k \<leftarrow> map fst (db_counters d). if ?Q k then count_of (in_bucket k) ?rows else 0)"
    by (simp add: comp_def)
  also have "\<dots> = count_of (\<lambda>r. \<exists>k \<in> set (map fst (db_counters d)). ?Q k \<and> in_bucket k r) ?rows"
    by (rule count_buckets) (rule tbl_wf_distinct [OF wf])
  also have "\<dots> = count_of (\<lambda>r. a \<noteq> [] \<and> ev_area_id r = Some a \<and> now_hour - 24 < ev_ts r div 3600000) ?rows"
  proof -
    have "(\<exists>k \<in> set (map fst (db_counters d)). ?Q k \<and> in_bucket k r) \<longleftrightarrow>
        a \<noteq> [] \<and> ev_area_id r = Some a \<and> now_hour - 24 < ev_ts r div 3600000" if "r \<in> set ?rows" for r
    proof
      assume "\<exists>k \<in> set (map fst (db_counters d)). ?Q k \<and> in_bucket k r"
      then show "a \<noteq> [] \<and> ev_area_id r = Some a \<and> now_hour - 24 < ev_ts r div 3600000"
        by (auto simp: in_bucket_def bucket_for_def)
    next
      assume r: "a \<noteq> [] \<and> ev_area_id r = Some a \<and> now_hour - 24 < ev_ts r div 3600000"
      let ?k = "(a, ev_ts r div 3600000)"
      have b: "in_bucket ?k r" using r by (simp add: in_bucket_def bucket_for_def)
      with that have "count_of (in_bucket ?k) ?rows \<noteq> 0" unfolding count_of_zero_iff by blast
      then have "tbl_find fst ?k (db_counters d) \<noteq> None" using cnt [of ?k]
        by (cases "tbl_find fst ?k (db_counters d)") (simp_all add: counter_of_def)
      then have "?k \<in> set (map fst (db_counters d))" by (simp add: tbl_find_None_iff)
      with r b show "\<exists>k \<in> set (map fst (db_counters d)). ?Q k \<and> in_bucket k r" by (intro bexI [of _ ?k]) auto
    qed
    then show ?thesis unfolding count_of_def by (intro arg_cong [where f = "\<lambda>xs. int (length xs)"] filter_cong refl)
  qed
  finally show ?thesis .
qed

text \<open>
  C29. What the area list calls \<open>events_per_hour_24h\<close> is, on a system no connection of which has
  failed, the number of all stored events of the area in the last 24 hour buckets, the current
  one included: the counters, the event table and the route agree for every area.
\<close>

theorem area_list_reports_the_stored_events:
  "(let d = is_db (irun sha ops (new_isys m batch_size interval [])) in
     map (\<lambda>x. (ao_area_id x, ao_events_per_hour_24h x)) (areas_route now1 now2 (Some d)) =
     map (\<lambda>r. (ar_area_id r,
         count_of (\<lambda>e. ar_area_id r \<noteq> [] \<and> ev_area_id e = Some (ar_area_id r) \<and>
             now1 div 3600000 - 24 < ev_ts e div 3600000)
           (map snd (db_events d))))
       (list_areas d))"
proof -
  let ?s = "new_isys m batch_size interval []"
  have "healthy (is_db ?s)" by (simp add: healthy_def new_isys_def db_wf_empty)
  moreover have "counters_exact (is_db ?s)"
    by (simp add: counters_exact_def counter_of_def events_in_def new_isys_def) (simp add: empty_db_def)
  ultimately have "healthy (is_db (irun sha ops ?s))" "counters_exact (is_db (irun sha ops ?s))"
    by (simp_all add: irun_healthy irun_counters_exact)
  then show ?thesis
    by (simp add: Let_def areas_route_def case_prod_unfold totals_are_events healthy_def)
qed

lemma scan_entities_spec:
  "snd (fold (\<lambda>e (class_dist, last_seen_max).
       ((case er_device_class e of None \<Rightarrow> class_dist
         | Some c \<Rightarrow> if c = [] then class_dist else dict_add c 1 class_dist),
        max last_seen_max (er_last_seen_at e))) es (cd, m)) = fold (\<lambda>e m. max m (er_last_seen_at e)) es m \<and>
   dict_num (fst (fold (\<lambda>e (class_dist, last_seen_max).
       ((case er_device_class e of None \<Rightarrow> class_dist
         | Some c \<Rightarrow> if c = [] then class_dist else dict_add c 1 class_dist),
        max last_seen_max (er_last_seen_at e))) es (cd, m))) k =
   dict_num cd k + count_of (\<lambda>e. k \<noteq> [] \<and> er_device_class e = Some k) es"
  by (induction es arbitrary: cd m) (auto split: option.split)

lemma fold_max_less: "c < fold (\<lambda>e m. max m (er_last_seen_at e)) es m \<longleftrightarrow> c < m \<or> (\<exists>e \<in> set es. c < er_last_seen_at e)"
  by (induction es arbitrary: m) auto

lemma scan_entities_facts:
  "0 \<le> c \<Longrightarrow> c < snd (scan_entities es) \<longleftrightarrow> (\<exists>e \<in> set es. c < er_last_seen_at e)"
  "dict_num (fst (scan_entities es)) k = count_of (\<lambda>e. k \<noteq> [] \<and> er_device_class e = Some k) es"
  unfolding scan_entities_def using scan_entities_spec [of es "[]" 0 k] by (auto simp: fold_max_less)

text \<open>
  Each area of the list shows, of the first 1000 entities in that area: their number, how
  many there are of each non-empty device class, and whether one of them was seen less than ten
  minutes ago; the start of the activity is given exactly for the active ones.
\<close>

theorem area_list_summarises_the_entities:
  assumes "x \<in> set (areas_route now1 now2 (Some d))" and "600000 \<le> now2"
    and "es = take 1000 (filter (\<lambda>e. er_area_id e = Some (ao_area_id x)) (db_entities d))"
  shows "ao_entity_count x = int (length es) \<and>
    dict_num (ao_device_class_distribution x) c = count_of (\<lambda>e. c \<noteq> [] \<and> er_device_class e = Some c) es \<and>
    (ao_is_active x \<longleftrightarrow> (\<exists>e \<in> set es. now2 - er_last_seen_at e < 600000)) \<and>
    (ao_active_since x \<noteq> None \<longleftrightarrow> ao_is_active x)"
proof -
  obtain r :: area_row where x: "x = (let entities = list_entities (Some (ar_area_id r)) False None 1000 d;
                    (class_dist, last_seen_max) = scan_entities entities
                in \<lparr>ao_area_id = ar_area_id r, ao_name = ar_name r, ao_floor_id = ar_floor_id r,
                    ao_events_per_hour_24h = dict_num (per_area_totals (get_counters_24h (now1 div 3600000) d)) (ar_area_id r),
                    ao_device_class_distribution = class_dist,
                    ao_is_active = last_seen_max > now2 - 600000,
                    ao_active_since = (if last_seen_max > now2 - 600000 then Some last_seen_max else None),
                    ao_entity_count = int (length entities)\<rparr>)"
    using assms(1) unfolding areas_route_def option.case Let_def set_map by blast
  have es: "list_entities (Some (ar_area_id r)) False None 1000 d = es"
    using assms(3) x by (simp add: list_entities_def sql_limit_def case_prod_unfold Let_def)
  have "now2 - er_last_seen_at e < 600000 \<longleftrightarrow> now2 - 600000 < er_last_seen_at e" for e :: entity_row by arith
  then show ?thesis
    using scan_entities_facts(1) [of "now2 - 600000" es] scan_entities_facts(2) [of es c] assms(2)
    unfolding x es by (simp add: case_prod_unfold Let_def)
qed

lemma area_list_summarises_the_entities_witness:
  "let d = snd (upsert_areas [area_row_of 1 0 [(''area_id'', JStr ''hall'')]] empty_db);
       x = hd (areas_route 700000 700000 (Some d))
   in ao_area_id x = ''hall'' \<and> ao_entity_count x = 0 \<and> \<not> ao_is_active x"
proof -
  define d where "d = snd (upsert_areas [area_row_of 1 0 [(''area_id'', JStr ''hall'')]] empty_db)"
  define x where "x = hd (areas_route 700000 700000 (Some d))"
  have "db_areas d = [area_row_of 1 0 [(''area_id'', JStr ''hall'')]]" "db_entities d = []"
    by (simp_all add: d_def upsert_areas_def area_row_of_def has_key_def get_s_def) (simp_all add: empty_db_def)
  then have x: "x \<in> set (areas_route 700000 700000 (Some d))" "ao_area_id x = ''hall''"
    by (simp_all add: x_def areas_route_def list_areas_def area_row_of_def get_s_def Let_def case_prod_unfold)
  from area_list_summarises_the_entities [OF x(1) _ refl] x(2) \<open>db_entities d = []\<close>
  show ?thesis unfolding Let_def d_def [symmetric] x_def [symmetric] by auto
qed

end
