(* ===== verification/Routes.thy ===== *)
theory Routes
  imports Auth
begin

text \<open>
  \<open>create_app\<close> of \<open>src/ai_ha/web/app.py\<close>: which routes the application has and which of them depend on
  \<open>require_admin\<close>. A router is the list of its routes (\<open>build_router\<close> of each file of \<open>web/routes\<close>), in the
  order of their decorators; FastAPI runs a router's dependencies before its handlers. What the handlers
  compute is in \<open>WebApi\<close>, \<open>Settings\<close> and \<open>Stream\<close>. The pages FastAPI adds itself (\<open>/docs\<close>,
  \<open>/openapi.json\<close>) are not modelled.
\<close>

datatype meth = GET | POST | WEBSOCKET | MOUNT

record route =
  rt_method :: meth
  rt_path :: string
  rt_admin :: bool

definition router :: "bool \<Rightarrow> string \<Rightarrow> (meth \<times> string) list \<Rightarrow> route list" where
  "router admin prefix rs = map (\<lambda>(m, p). \<lparr>rt_method = m, rt_path = prefix @ p, rt_admin = admin\<rparr>) rs"

definition health_router :: "route list" where
  "health_router = router False [] [(GET, ''/api/health'')]"

definition topology_router :: "route list" where
  "topology_router = router True ''/api/v1''
     [(GET, ''/topology''), (GET, ''/topology/snapshots''), (GET, ''/topology/snapshots/{sid}'')]"

definition areas_router :: "route list" where
  "areas_router = router True ''/api/v1''
     [(GET, ''/areas''), (GET, ''/areas/{area_id}''), (GET, ''/areas/{area_id}/entities'')]"

definition entities_router :: "route list" where
  "entities_router = router True ''/api/v1'' [(GET, ''/entities''), (GET, ''/entities/{entity_id}/events'')]"

definition events_router :: "route list" where
  "events_router = router True ''/api/v1'' [(GET, ''/events'')]"

definition settings_router :: "route list" where
  "settings_router = router True ''/api/v1'' [(GET, ''/settings/privacy''), (POST, ''/settings/privacy'')]"

definition ws_router :: "route list" where
  "ws_router = router False [] [(WEBSOCKET, ''/api/v1/stream/events'')]"

definition pages_router :: "route list" where
  "pages_router = router True []
     [(GET, ''/''), (GET, ''/room/{area_id}''), (GET, ''/entities''), (GET, ''/timeline''), (GET, ''/settings'')]"

text \<open>The arguments: there is an \<open>AppState\<close>, it has a broadcaster, the directory \<open>static\<close> exists.\<close>

definition create_app :: "bool \<Rightarrow> bool \<Rightarrow> bool \<Rightarrow> route list" where
  "create_app state broadcaster static_dir =
     health_router @ topology_router @ areas_router @ entities_router @ events_router @ settings_router @
     (if state \<and> broadcaster then ws_router else []) @
     (if state then pages_router else []) @
     (if static_dir then router False [] [(MOUNT, ''/static'')] else [])"

text \<open>What a request meets before its handler.\<close>

definition gate :: "bool \<Rightarrow> string option \<Rightarrow> creds option \<Rightarrow> route \<Rightarrow> unit http" where
  "gate require_auth file creds r = (if rt_admin r then require_admin require_auth file creds else Inr ())"

lemmas router_defs = router_def health_router_def topology_router_def areas_router_def entities_router_def
  events_router_def settings_router_def ws_router_def pages_router_def

lemma require_admin_without_creds: "require_admin True file None = Inl (HTTPException 401 ''auth-required'')"
  by (simp add: require_admin_def)

text \<open>
  With authentication on, a request without credentials gets past the dependency on exactly three routes: the
  health report, the static files and the stream of events; no two routes have the same method and path.
\<close>

theorem open_routes:
  "map rt_path (filter (\<lambda>r. gate True file None r = Inr ()) (create_app state broadcaster static_dir)) =
     ''/api/health'' # (if state \<and> broadcaster then [''/api/v1/stream/events''] else []) @
     (if static_dir then [''/static''] else []) \<and>
   distinct (map (\<lambda>r. (rt_method r, rt_path r)) (create_app state broadcaster static_dir))"
  by (cases state; cases broadcaster; cases static_dir)
    (simp_all add: create_app_def router_defs gate_def require_admin_without_creds)

end
