(* ===== verification/Migrations.thy ===== *)
theory Migrations
  imports Regex Json
begin

text \<open>
  \<open>Database.open\<close> and the numbered migrations of \<open>src/ai_ha/store/db.py\<close>. A migration file is its
  name and its script, a list of SQL statements; what a statement does to the tables is a
  parameter \<open>exec\<close>, \<open>None\<close> where sqlite raises. \<open>executescript\<close> first commits and then runs every
  statement in autocommit mode, so a statement that has run stays, whatever follows.
\<close>

section \<open>Migration files\<close>

type_synonym 'q migration = "string \<times> 'q list"

text \<open>\<open>^(\d{3})_.*\.sql$\<close>\<close>

definition not_newline :: "char \<Rightarrow> bool" where
  "not_newline c \<longleftrightarrow> c \<noteq> CHR 0x0A"

definition migration_pattern :: rx where
  "migration_pattern = rseq [RSet is_digit, RSet is_digit, RSet is_digit, RChr (CHR ''_''),
     RStar (RSet not_newline), RChr (CHR ''.''), RChr (CHR ''s''), RChr (CHR ''q''), RChr (CHR ''l''),
     RAlt REps (RChr (CHR 0x0A))]"

definition migration_version :: "string \<Rightarrow> int" where
  "migration_version name = int (nat_of_str (take 3 name))"

section \<open>The database being opened\<close>

text \<open>\<open>md_version\<close> is \<open>kv_meta.schema_version\<close> (0 when there is no row), \<open>md_tables\<close> the rest of the file.\<close>

record 's mdb =
  md_version :: int
  md_tables :: 's

definition execute :: "('q \<Rightarrow> 's \<Rightarrow> 's option) \<Rightarrow> 'q \<Rightarrow> 's \<Rightarrow> unit res \<times> 's" where
  "execute exec stmt s = (case exec stmt s of None \<Rightarrow> (Inl OperationalError, s) | Some s' \<Rightarrow> (Inr (), s'))"

definition executescript :: "('q \<Rightarrow> 's \<Rightarrow> 's option) \<Rightarrow> 'q list \<Rightarrow> 's \<Rightarrow> unit res \<times> 's" where
  "executescript exec script s = for_each (execute exec) script s"

definition apply_one :: "('q \<Rightarrow> 's \<Rightarrow> 's option) \<Rightarrow> 'q migration \<Rightarrow> 's mdb \<Rightarrow> unit res \<times> 's mdb" where
  "apply_one exec = (\<lambda>(name, script) d.
     let version = migration_version name in
     if version \<le> md_version d then (Inr (), d)
     else case executescript exec script (md_tables d) of
        (Inl e, s) \<Rightarrow> (Inl (MigrationError name), d\<lparr>md_tables := s\<rparr>)
      | (Inr _, s) \<Rightarrow> (Inr (), d\<lparr>md_tables := s, md_version := version\<rparr>))"

definition migration_files :: "'q migration list \<Rightarrow> 'q migration list" where
  "migration_files dir = sort_key fst (filter (\<lambda>f. rx_match migration_pattern (fst f)) dir)"

definition apply_migrations ::
  "('q \<Rightarrow> 's \<Rightarrow> 's option) \<Rightarrow> 'q migration list \<Rightarrow> 's mdb \<Rightarrow> unit res \<times> 's mdb" where
  "apply_migrations exec dir d = for_each (apply_one exec) (migration_files dir) d"

text \<open>\<open>integrity\<close> is the first column of the first row of \<open>PRAGMA integrity_check\<close>.\<close>

definition verify_integrity :: "string \<Rightarrow> unit res" where
  "verify_integrity integrity = (if integrity \<noteq> ''ok'' then Inl (IntegrityError integrity) else Inr ())"

definition open_db ::
  "('q \<Rightarrow> 's \<Rightarrow> 's option) \<Rightarrow> string \<Rightarrow> 'q migration list option \<Rightarrow> 's mdb \<Rightarrow> unit res \<times> 's mdb" where
  "open_db exec integrity migrations_dir d =
     (case verify_integrity integrity of
        Inl e \<Rightarrow> (Inl e, d)
      | Inr _ \<Rightarrow>
          (case migrations_dir of
             None \<Rightarrow> (Inr (), d)
           | Some dir \<Rightarrow> apply_migrations exec dir d))"

lemma verify_integrity_ok [simp]: "verify_integrity ''ok'' = Inr ()"
  by (simp add: verify_integrity_def)

section \<open>Loops over the files\<close>

lemma for_each_append:
  "for_each f (xs @ ys) s =
     (case for_each f xs s of (Inl e, s') \<Rightarrow> (Inl e, s') | (Inr _, s') \<Rightarrow> for_each f ys s')"
  by (induction xs arbitrary: s) (auto split: prod.split sum.split)

text \<open>After the loop has returned, the version is at least that of every file.\<close>

lemma apply_one_version:
  "apply_one exec f d = (r, d') \<Longrightarrow> md_version d \<le> md_version d' \<and>
     (r = Inr () \<longrightarrow> migration_version (fst f) \<le> md_version d')"
  by (cases f) (auto simp: apply_one_def Let_def split: if_splits prod.splits sum.splits)

lemma for_each_version:
  "for_each (apply_one exec) fs d = (r, d') \<Longrightarrow> md_version d \<le> md_version d' \<and>
     (r = Inr () \<longrightarrow> (\<forall>f \<in> set fs. migration_version (fst f) \<le> md_version d'))"
proof (induction fs arbitrary: d)
  case Nil
  then show ?case by simp
next
  case (Cons f fs)
  obtain r1 d1 where 1: "apply_one exec f d = (r1, d1)" by fastforce
  note v = apply_one_version [OF 1]
  show ?case
  proof (cases r1)
    case (Inl e)
    with Cons.prems 1 v show ?thesis by auto
  next
    case (Inr u)
    with Cons.prems 1 have "for_each (apply_one exec) fs d1 = (r, d')" by simp
    from Cons.IH [OF this] v Inr show ?thesis by auto
  qed
qed

lemma nothing_to_do:
  "\<forall>f \<in> set fs. migration_version (fst f) \<le> md_version d \<Longrightarrow> for_each (apply_one exec) fs d = (Inr (), d)"
  by (induction fs) (auto simp: apply_one_def)

text \<open>The scripts that run: those of files whose number exceeds every number before them.\<close>

fun to_run :: "int \<Rightarrow> 'q migration list \<Rightarrow> 'q migration list" where
  "to_run v [] = []"
| "to_run v (f # fs) =
     (if migration_version (fst f) \<le> v then to_run v fs
      else f # to_run (migration_version (fst f)) fs)"

lemma for_each_to_run:
  assumes "for_each (apply_one exec) fs d = (Inr u, d')"
  shows "executescript exec (List.concat (map snd (to_run (md_version d) fs))) (md_tables d) = (Inr (), md_tables d')"
  using assms
proof (induction fs arbitrary: d)
  case Nil
  then show ?case by (simp add: executescript_def)
next
  case (Cons f fs)
  obtain name script where f: "f = (name, script)" by fastforce
  obtain r1 d1 where 1: "apply_one exec f d = (r1, d1)" by fastforce
  with Cons.prems have r1: "r1 = Inr ()" and rest: "for_each (apply_one exec) fs d1 = (Inr u, d')"
    by (auto split: sum.splits)
  show ?case
  proof (cases "migration_version name \<le> md_version d")
    case True
    with 1 f have "d1 = d" by (simp add: apply_one_def)
    with True Cons.IH [OF rest] f show ?thesis by simp
  next
    case False
    with 1 f r1 have "executescript exec script (md_tables d) = (Inr (), md_tables d1)"
      "md_version d1 = migration_version name"
      by (auto simp: apply_one_def Let_def split: prod.splits sum.splits)
    with False Cons.IH [OF rest] f show ?thesis by (simp add: executescript_def for_each_append)
  qed
qed

section \<open>Properties\<close>

text \<open>
  C35. Opening a database whose migrations all succeed runs, in the order of the file names, the
  scripts of those files whose number is larger than the stored version and every number before
  them; it leaves at least the number of every file as the version; and opening it again
  changes nothing.
\<close>

theorem migrations_run_once:
  assumes "open_db exec ''ok'' (Some dir) d = (Inr (), d')"
  shows "executescript exec (List.concat (map snd (to_run (md_version d) (migration_files dir)))) (md_tables d)
      = (Inr (), md_tables d') \<and>
    (\<forall>f \<in> set dir. rx_match migration_pattern (fst f) \<longrightarrow> migration_version (fst f) \<le> md_version d') \<and>
    open_db exec ''ok'' (Some dir) d' = (Inr (), d')"
proof -
  have run: "for_each (apply_one exec) (migration_files dir) d = (Inr (), d')"
    using assms by (simp add: open_db_def apply_migrations_def)
  from for_each_version [OF this] have v: "\<forall>f \<in> set (migration_files dir). migration_version (fst f) \<le> md_version d'"
    by simp
  then have "open_db exec ''ok'' (Some dir) d' = (Inr (), d')"
    by (simp add: open_db_def apply_migrations_def nothing_to_do)
  moreover have "\<forall>f \<in> set dir. rx_match migration_pattern (fst f) \<longrightarrow> migration_version (fst f) \<le> md_version d'"
    using v by (auto simp: migration_files_def)
  ultimately show ?thesis using for_each_to_run [OF run] by simp
qed

lemma migrations_run_once_witness:
  "let exec = (\<lambda>q s. Some (s @ [q])); dir = [(''002_b.sql'', [''c'']), (''001_a.sql'', [''a'', ''b'']), (''notes.txt'', [''x''])]
   in open_db exec ''ok'' (Some dir) \<lparr>md_version = 0, md_tables = []\<rparr> =
        (Inr (), \<lparr>md_version = 2, md_tables = [''a'', ''b'', ''c'']\<rparr>) \<and>
      open_db exec ''ok'' (Some dir) \<lparr>md_version = 2, md_tables = [''a'', ''b'', ''c'']\<rparr> =
        (Inr (), \<lparr>md_version = 2, md_tables = [''a'', ''b'', ''c'']\<rparr>)"
proof -
  let ?exec = "\<lambda>q s. Some (s @ [q])"
  let ?dir = "[(''002_b.sql'', [''c'']), (''001_a.sql'', [''a'', ''b'']), (''notes.txt'', [''x''])]"
  have "open_db ?exec ''ok'' (Some ?dir) \<lparr>md_version = 0, md_tables = []\<rparr> =
        (Inr (), \<lparr>md_version = 2, md_tables = [''a'', ''b'', ''c'']\<rparr>)" by code_simp
  from this migrations_run_once [OF this] show ?thesis unfolding Let_def by blast
qed

text \<open>
  C36. A migration that fails is not rolled back: the version is that of the last file that went
  through, but the statements of the failing script up to the one that raised stay done. If
  one of them cannot be done again (a \<open>CREATE TABLE\<close> without \<open>IF NOT EXISTS\<close>) and those before it change
  nothing the second time, the next start fails there and leaves everything as it is, and so do those after it, whatever the script is repaired to after it.
\<close>

theorem failed_migration_stays_half_done:
  assumes "migration_files dir = done @ (name, pre @ stmt # script) # rest"
    and "for_each (apply_one exec) done d = (Inr (), d1)" and "md_version d1 < migration_version name"
    and "executescript exec (pre @ stmt # script) (md_tables d1) = (Inl e, s)"
    and "executescript exec pre s = (Inr (), s)" and "exec stmt s = None"
    and "migration_files dir' = done @ (name, pre @ stmt # script') # rest'"
  shows "open_db exec ''ok'' (Some dir) d = (Inl (MigrationError name), d1\<lparr>md_tables := s\<rparr>) \<and>
    open_db exec ''ok'' (Some dir') (d1\<lparr>md_tables := s\<rparr>) = (Inl (MigrationError name), d1\<lparr>md_tables := s\<rparr>)"
proof
  show "open_db exec ''ok'' (Some dir) d = (Inl (MigrationError name), d1\<lparr>md_tables := s\<rparr>)"
    using assms(2-4) by (simp add: open_db_def apply_migrations_def assms(1) for_each_append apply_one_def)
  have "\<forall>f \<in> set done. migration_version (fst f) \<le> md_version (d1\<lparr>md_tables := s\<rparr>)"
    using for_each_version [OF assms(2)] by simp
  then have "for_each (apply_one exec) done (d1\<lparr>md_tables := s\<rparr>) = (Inr (), d1\<lparr>md_tables := s\<rparr>)"
    by (rule nothing_to_do)
  moreover have "executescript exec (pre @ stmt # script') s = (Inl OperationalError, s)"
    using assms(5) by (simp add: executescript_def for_each_append execute_def assms(6))
  ultimately show "open_db exec ''ok'' (Some dir') (d1\<lparr>md_tables := s\<rparr>) = (Inl (MigrationError name), d1\<lparr>md_tables := s\<rparr>)"
    using assms(3) by (simp add: open_db_def apply_migrations_def assms(7) for_each_append apply_one_def)
qed

lemma failed_migration_stays_half_done_witness:
  "let exec = (\<lambda>q s. if q = ''kv'' then Some s else if q = ''bad'' \<or> q \<in> set s then None else Some (s @ [q]));
       dir = [(''001_a.sql'', [''create a'']), (''002_b.sql'', [''kv'', ''create b'', ''bad''])];
       fixed = [(''001_a.sql'', [''create a'']), (''002_b.sql'', [''kv'', ''create b'', ''create c''])]
   in open_db exec ''ok'' (Some dir) \<lparr>md_version = 0, md_tables = []\<rparr> =
        (Inl (MigrationError ''002_b.sql''), \<lparr>md_version = 1, md_tables = [''create a'', ''create b'']\<rparr>) \<and>
      open_db exec ''ok'' (Some fixed) \<lparr>md_version = 1, md_tables = [''create a'', ''create b'']\<rparr> =
        (Inl (MigrationError ''002_b.sql''), \<lparr>md_version = 1, md_tables = [''create a'', ''create b'']\<rparr>)"
proof -
  let ?exec = "\<lambda>q s. if q = ''kv'' then Some s else if q = ''bad'' \<or> q \<in> set s then None else Some (s @ [q])"
  let ?d1 = "\<lparr>md_version = 1, md_tables = [''create a'']\<rparr>"
  have 1: "migration_files [(''001_a.sql'', [''create a'']), (''002_b.sql'', [''kv'', ''create b'', ''bad''])] =
      [(''001_a.sql'', [''create a''])] @ (''002_b.sql'', [''kv''] @ ''create b'' # [''bad'']) # []" by code_simp
  have 2: "migration_files [(''001_a.sql'', [''create a'']), (''002_b.sql'', [''kv'', ''create b'', ''create c''])] =
      [(''001_a.sql'', [''create a''])] @ (''002_b.sql'', [''kv''] @ ''create b'' # [''create c'']) # []" by code_simp
  have 3: "for_each (apply_one ?exec) [(''001_a.sql'', [''create a''])] \<lparr>md_version = 0, md_tables = []\<rparr> = (Inr (), ?d1)"
    by code_simp
  have 4: "md_version ?d1 < migration_version ''002_b.sql''" by code_simp
  have 5: "executescript ?exec ([''kv''] @ ''create b'' # [''bad'']) (md_tables ?d1) = (Inl OperationalError, [''create a'', ''create b''])"
    by code_simp
  have 6: "executescript ?exec [''kv''] [''create a'', ''create b''] = (Inr (), [''create a'', ''create b''])"
    by code_simp
  from failed_migration_stays_half_done [where exec = ?exec, OF 1 3 4 5 6 _ 2] show ?thesis by (simp add: Let_def)
qed

end
