(* ===== verification/SchemaVersion.thy ===== *)
theory SchemaVersion
  imports Migrations PyText
begin

text \<open>
  Where \<open>src/ai_ha/store/db.py\<close> keeps the version: as text in the row \<open>schema_version\<close> of \<open>kv_meta\<close>, a table that
  \<open>Database.open\<close> makes itself, before any migration. This theory models \<open>open\<close> over that table and shows that
  it does what the abstract \<open>open_db\<close> of \<open>Migrations\<close> does over a number.

  The table is an association list from \<open>key\<close> to \<open>value\<close> and \<open>updated_at\<close>, or \<open>None\<close> as long as it has not been
  created; \<open>now\<close> gives the wall clock at the moment a file's version is written. Scripts leave the rows of \<open>kv_meta\<close>
  alone (the one in the repository only creates the table if it is missing), and writing the row of the version succeeds.
\<close>

section \<open>The table\<close>

type_synonym kv_rows = "(string \<times> string \<times> int) list"

record 's kdb =
  kd_meta :: "kv_rows option"
  kd_tables :: 's

definition ensure_kv_meta_table :: "'s kdb \<Rightarrow> 's kdb" where
  "ensure_kv_meta_table d = d\<lparr>kd_meta := Some (case kd_meta d of None \<Rightarrow> [] | Some rows \<Rightarrow> rows)\<rparr>"

definition get_schema_version :: "'s kdb \<Rightarrow> int res" where
  "get_schema_version d =
     (case kd_meta d of
        None \<Rightarrow> Inl OperationalError
      | Some rows \<Rightarrow>
          (case map_of rows ''schema_version'' of
             None \<Rightarrow> Inr 0
           | Some (value, _) \<Rightarrow> (case py_int value of None \<Rightarrow> Inl ValueError | Some v \<Rightarrow> Inr v)))"

definition set_schema_version :: "int \<Rightarrow> int \<Rightarrow> 's kdb \<Rightarrow> unit res \<times> 's kdb" where
  "set_schema_version now v d =
     (case kd_meta d of
        None \<Rightarrow> (Inl OperationalError, d)
      | Some rows \<Rightarrow> (Inr (), d\<lparr>kd_meta := Some (AList.update ''schema_version'' (int_str v, now) rows)\<rparr>))"

section \<open>Opening\<close>

text \<open>Only what is raised inside the \<open>try\<close> becomes a \<open>MigrationError\<close>; reading the version is outside of it.\<close>

definition apply_file ::
  "('q \<Rightarrow> 's \<Rightarrow> 's option) \<Rightarrow> (string \<Rightarrow> int) \<Rightarrow> 'q migration \<Rightarrow> 's kdb \<Rightarrow> unit res \<times> 's kdb" where
  "apply_file exec now = (\<lambda>(name, script) d.
     let version = migration_version name in
     case get_schema_version d of
       Inl e \<Rightarrow> (Inl e, d)
     | Inr current \<Rightarrow>
         if version \<le> current then (Inr (), d)
         else case executescript exec script (kd_tables d) of
            (Inl e, s) \<Rightarrow> (Inl (MigrationError name), d\<lparr>kd_tables := s\<rparr>)
          | (Inr _, s) \<Rightarrow>
              (case set_schema_version (now name) version (d\<lparr>kd_tables := s\<rparr>) of
                 (Inl e, d') \<Rightarrow> (Inl (MigrationError name), d')
               | (Inr _, d') \<Rightarrow> (Inr (), d')))"

definition open_database ::
  "('q \<Rightarrow> 's \<Rightarrow> 's option) \<Rightarrow> (string \<Rightarrow> int) \<Rightarrow> string \<Rightarrow> 'q migration list option \<Rightarrow> 's kdb \<Rightarrow> unit res \<times> 's kdb" where
  "open_database exec now integrity migrations_dir d =
     (case verify_integrity integrity of
        Inl e \<Rightarrow> (Inl e, d)
      | Inr _ \<Rightarrow>
          let d' = ensure_kv_meta_table d in
          (case migrations_dir of
             None \<Rightarrow> (Inr (), d')
           | Some dir \<Rightarrow> for_each (apply_file exec now) (migration_files dir) d'))"

section \<open>The abstraction\<close>

definition stored_version :: "'s kdb \<Rightarrow> int res" where
  "stored_version d = get_schema_version (ensure_kv_meta_table d)"

definition abs_db :: "'s kdb \<Rightarrow> 's mdb" where
  "abs_db d = \<lparr>md_version = projr (stored_version d), md_tables = kd_tables d\<rparr>"

definition other_rows :: "'s kdb \<Rightarrow> string \<Rightarrow> (string \<times> int) option" where
  "other_rows d k = (if k = ''schema_version'' then None else map_of (the (kd_meta (ensure_kv_meta_table d))) k)"

lemma ensure_fields [simp]:
  "kd_tables (ensure_kv_meta_table d) = kd_tables d" "kd_meta (ensure_kv_meta_table d) \<noteq> None"
  "stored_version (ensure_kv_meta_table d) = stored_version d"
  "other_rows (ensure_kv_meta_table d) = other_rows d"
  by (auto simp: ensure_kv_meta_table_def stored_version_def other_rows_def fun_eq_iff)

lemma abs_ensure [simp]: "abs_db (ensure_kv_meta_table d) = abs_db d"
  by (simp add: abs_db_def)

text \<open>The number of a migration file has three digits, so its text reads back.\<close>

lemma digit_val_bound: "is_digit c \<Longrightarrow> digit_val c \<le> 9"
  by (auto simp: is_digit_def digit_val_def)

lemma version_bounds:
  assumes "rx_match migration_pattern name"
  shows "0 \<le> migration_version name \<and> migration_version name \<le> 999"
proof -
  from assms obtain a b c v where n: "name = a # b # c # v" and d: "is_digit a" "is_digit b" "is_digit c"
    unfolding rx_match_iff migration_pattern_def by (auto simp: in_seq_set simp del: in_rx.simps)
  show ?thesis using digit_val_bound [OF d(1)] digit_val_bound [OF d(2)] digit_val_bound [OF d(3)]
    by (simp add: migration_version_def n nat_of_str_def)
qed

lemma version_reads_back:
  "rx_match migration_pattern name \<Longrightarrow> py_int (int_str (migration_version name)) = Some (migration_version name)"
  using version_bounds [of name] by (intro py_int_int_str) auto

section \<open>One file\<close>

lemma stored_version_made:
  "kd_meta d \<noteq> None \<Longrightarrow> stored_version d = get_schema_version d"
  by (auto simp: stored_version_def ensure_kv_meta_table_def get_schema_version_def)

lemma get_after_tables [simp]:
  "get_schema_version (d\<lparr>kd_tables := s\<rparr>) = get_schema_version d"
  "stored_version (d\<lparr>kd_tables := s\<rparr>) = stored_version d"
  "other_rows (d\<lparr>kd_tables := s\<rparr>) = other_rows d"
  by (simp_all add: get_schema_version_def stored_version_def ensure_kv_meta_table_def other_rows_def fun_eq_iff)

lemma set_then_get:
  assumes "rx_match migration_pattern name" and "kd_meta d \<noteq> None"
  shows "\<exists>d'. set_schema_version now (migration_version name) d = (Inr (), d') \<and> kd_meta d' \<noteq> None \<and>
    stored_version d' = Inr (migration_version name) \<and> kd_tables d' = kd_tables d \<and> other_rows d' = other_rows d"
  using assms(2) version_reads_back [OF assms(1)]
  by (auto simp: set_schema_version_def stored_version_made get_schema_version_def update_conv other_rows_def
    ensure_kv_meta_table_def fun_eq_iff)

definition table_ok :: "'s kdb \<Rightarrow> bool" where
  "table_ok d \<longleftrightarrow> kd_meta d \<noteq> None \<and> ok (stored_version d)"

lemma apply_file_refines:
  assumes "rx_match migration_pattern (fst f)" and "table_ok d"
  shows "\<exists>r d'. apply_file exec now f d = (r, d') \<and> apply_one exec f (abs_db d) = (r, abs_db d') \<and>
    table_ok d' \<and> other_rows d' = other_rows d"
proof -
  obtain name script where f: "f = (name, script)" by fastforce
  obtain v where v: "stored_version d = Inr v" using assms(2) by (cases "stored_version d") (auto simp: table_ok_def)
  with assms(2) have g: "get_schema_version d = Inr v" by (simp add: table_ok_def stored_version_made)
  have m: "kd_meta (d\<lparr>kd_tables := s\<rparr>) \<noteq> None" for s using assms(2) by (simp add: table_ok_def)
  obtain r s where x: "executescript exec script (kd_tables d) = (r, s)" by fastforce
  from assms(1) have nm: "rx_match migration_pattern name" by (simp add: f)
  from set_then_get [OF nm m, of "now name" s]
  obtain d' where s: "set_schema_version (now name) (migration_version name) (d\<lparr>kd_tables := s\<rparr>) = (Inr (), d')"
    and d': "kd_meta d' \<noteq> None" "stored_version d' = Inr (migration_version name)" "kd_tables d' = s"
      "other_rows d' = other_rows d"
    by auto
  consider "migration_version name \<le> v" | "v < migration_version name" "isl r" | "v < migration_version name" "ok r"
    by linarith
  then show ?thesis
  proof cases
    case 1
    then show ?thesis using assms(2) by (simp add: f apply_file_def apply_one_def g abs_db_def v)
  next
    case 2
    then obtain e where "r = Inl e" by (cases r) auto
    with 2 show ?thesis using assms(2) by (simp add: f apply_file_def apply_one_def g abs_db_def v x table_ok_def)
  next
    case 3
    then have "r = Inr ()" by (cases r) auto
    with 3 show ?thesis using d' by (simp add: f apply_file_def apply_one_def g abs_db_def v x s table_ok_def)
  qed
qed

lemma apply_files_refine:
  assumes "\<forall>f \<in> set fs. rx_match migration_pattern (fst f)" and "table_ok d"
  shows "\<exists>r d'. for_each (apply_file exec now) fs d = (r, d') \<and> for_each (apply_one exec) fs (abs_db d) = (r, abs_db d') \<and>
    table_ok d' \<and> other_rows d' = other_rows d"
  using assms
proof (induction fs arbitrary: d)
  case Nil
  then show ?case by simp
next
  case (Cons f fs)
  from Cons.prems have m: "rx_match migration_pattern (fst f)" by simp
  from apply_file_refines [OF m Cons.prems(2), of exec now]
  obtain r d1 where 1: "apply_file exec now f d = (r, d1)" "apply_one exec f (abs_db d) = (r, abs_db d1)"
    "table_ok d1" "other_rows d1 = other_rows d" by blast
  show ?case
  proof (cases r)
    case (Inl e)
    with 1 show ?thesis by simp
  next
    case (Inr u)
    with 1 Cons.IH [of d1] Cons.prems(1) show ?thesis by auto
  qed
qed

section \<open>Properties\<close>

text \<open>
  C37. Where the stored version is readable, opening the database with the version kept as text in \<open>kv_meta\<close> raises
  what the abstract opening raises and leaves the same version and the same tables; afterwards the version is readable
  again, and every other row of \<open>kv_meta\<close> is as it was.
\<close>

theorem stored_version_refines_the_number:
  assumes "ok (stored_version d)"
  shows "open_db exec integrity dir (abs_db d) =
      (fst (open_database exec now integrity dir d), abs_db (snd (open_database exec now integrity dir d))) \<and>
    ok (stored_version (snd (open_database exec now integrity dir d))) \<and>
    other_rows (snd (open_database exec now integrity dir d)) = other_rows d"
proof (cases "verify_integrity integrity")
  case (Inl e)
  with assms show ?thesis by (simp add: open_db_def open_database_def)
next
  case (Inr u)
  have t: "table_ok (ensure_kv_meta_table d)" using assms by (simp add: table_ok_def)
  show ?thesis
  proof (cases dir)
    case None
    with Inr assms show ?thesis by (simp add: open_db_def open_database_def)
  next
    case (Some files)
    have "\<forall>f \<in> set (migration_files files). rx_match migration_pattern (fst f)" by (auto simp: migration_files_def)
    from apply_files_refine [OF this t, of exec now]
    show ?thesis using Inr Some by (auto simp: open_db_def open_database_def apply_migrations_def table_ok_def)
  qed
qed

lemma stored_version_refines_the_number_witness:
  "let exec = (\<lambda>q s. Some (s @ [q])); dir = Some [(''002_b.sql'', [''b'']), (''001_a.sql'', [''a''])];
       d = \<lparr>kd_meta = Some [(''lang'', ''de'', 5), (''schema_version'', ''1'', 7)], kd_tables = [''a'']\<rparr>;
       d' = \<lparr>kd_meta = Some [(''lang'', ''de'', 5), (''schema_version'', ''2'', 9)], kd_tables = [''a'', ''b'']\<rparr>
   in open_database exec (\<lambda>_. 9) ''ok'' dir d = (Inr (), d') \<and>
      open_db exec ''ok'' dir \<lparr>md_version = 1, md_tables = [''a'']\<rparr> = (Inr (), \<lparr>md_version = 2, md_tables = [''a'', ''b'']\<rparr>)"
proof -
  let ?exec = "\<lambda>q s. Some (s @ [q])"
  let ?dir = "Some [(''002_b.sql'', [''b'']), (''001_a.sql'', [''a''])]"
  let ?d = "\<lparr>kd_meta = Some [(''lang'', ''de'', 5), (''schema_version'', ''1'', 7)], kd_tables = [''a'']\<rparr>"
  let ?d' = "\<lparr>kd_meta = Some [(''lang'', ''de'', 5), (''schema_version'', ''2'', 9)], kd_tables = [''a'', ''b'']\<rparr>"
  have v: "stored_version ?d = Inr 1" by code_simp
  then have k: "ok (stored_version ?d)" by simp
  have o: "open_database ?exec (\<lambda>_. 9) ''ok'' ?dir ?d = (Inr (), ?d')" by code_simp
  have a: "abs_db ?d = \<lparr>md_version = 1, md_tables = [''a'']\<rparr>" by (simp add: abs_db_def v)
  have "stored_version ?d' = Inr 2" by code_simp
  then have a': "abs_db ?d' = \<lparr>md_version = 2, md_tables = [''a'', ''b'']\<rparr>" by (simp add: abs_db_def)
  from stored_version_refines_the_number [OF k, of ?exec "''ok''" ?dir "\<lambda>_. 9"] show ?thesis
    unfolding Let_def by (simp add: o a a')
qed

text \<open>A version that is no number refuses every start that finds a migration file: \<open>int\<close> raises outside the \<open>try\<close>.\<close>

lemma unreadable_version_refuses_to_open:
  assumes "kd_meta d = Some rows" and "map_of rows ''schema_version'' = Some (value, t)" and "py_int value = None"
    and "migration_files files \<noteq> []"
  shows "open_database exec now ''ok'' (Some files) d = (Inl ValueError, d)"
proof -
  have e: "ensure_kv_meta_table d = d" using assms(1) by (simp add: ensure_kv_meta_table_def)
  obtain f fs where "migration_files files = f # fs" using assms(4) by (cases "migration_files files") auto
  then show ?thesis using assms(1-3)
    by (cases f) (simp add: open_database_def e apply_file_def get_schema_version_def)
qed

end
