(* ===== verification/HaAdapter.thy ===== *)
theory HaAdapter
  imports Snapshots
begin

text \<open>
  The two one-shot clients of \<open>src/ai_ha/ha_adapter\<close>: \<open>TopologyFetcher\<close> (\<open>topology_fetcher.py\<close>), which pulls the
  three registries over one web socket, and \<open>HAClient.fetch_states\<close> (\<open>client.py\<close>), a REST call with
  retries. A web socket is the list of frames that it delivers before it closes; a REST
  call is the function from the number of the attempt to what that attempt meets.
\<close>

section \<open>Fetching the topology\<close>

text \<open>\<open>bool(v)\<close> of a JSON value.\<close>

definition json_truthy :: "json \<Rightarrow> bool" where
  "json_truthy v = (case v of
     JNull \<Rightarrow> False
   | JBool b \<Rightarrow> b
   | JInt i \<Rightarrow> i \<noteq> 0
   | JFloat t \<Rightarrow> list_ex (\<lambda>c. is_digit c \<and> c \<noteq> CHR ''0'') (takeWhile (\<lambda>c. c \<noteq> CHR ''e'' \<and> c \<noteq> CHR ''E'') t)
   | JStr s \<Rightarrow> s \<noteq> []
   | JArr xs \<Rightarrow> xs \<noteq> []
   | JObj kvs \<Rightarrow> kvs \<noteq> [])"

text \<open>\<open>msg.get("id") == rid\<close>; a Boolean is the number 0 or 1.\<close>

definition id_is :: "int \<Rightarrow> (string \<times> json) list \<Rightarrow> bool" where
  "id_is rid msg = (case map_of msg ''id'' of
     Some (JInt i) \<Rightarrow> i = rid
   | Some (JBool b) \<Rightarrow> rid = (if b then 1 else 0)
   | _ \<Rightarrow> False)"

definition parse_object :: "string \<Rightarrow> (string \<times> json) list res" where
  "parse_object raw = (case loads raw of Inl e \<Rightarrow> Inl e | Inr (JObj kvs) \<Rightarrow> Inr kvs | Inr _ \<Rightarrow> Inl AttributeError)"

text \<open>\<open>_request\<close>: the result (\<open>[]\<close> when the key is missing) and the frames not yet read.\<close>

fun request :: "int \<Rightarrow> string \<Rightarrow> string list \<Rightarrow> (entry list \<times> string list) res" where
  "request rid cmd [] = Inl (RuntimeError ''connection closed'')"
| "request rid cmd (raw # frames) =
     (case parse_object raw of
        Inl e \<Rightarrow> Inl e
      | Inr msg \<Rightarrow>
          if id_is rid msg \<and> map_of msg ''type'' = Some (JStr ''result'') then
            (if \<not> (case map_of msg ''success'' of None \<Rightarrow> False | Some v \<Rightarrow> json_truthy v)
             then Inl (RuntimeError cmd)
             else case raw_entries msg ''result'' of Inl e \<Rightarrow> Inl e | Inr es \<Rightarrow> Inr (es, frames))
          else request rid cmd frames)"

definition fetch_once :: "string list \<Rightarrow> payload res" where
  "fetch_once frames =
     (case frames of
        hello # ack # frames \<Rightarrow>
          (case parse_object ack of
             Inl e \<Rightarrow> Inl e
           | Inr a \<Rightarrow>
           if map_of a ''type'' \<noteq> Some (JStr ''auth_ok'') then Inl (RuntimeError ''auth failed'')
           else
           (case request 1 ''config/area_registry/list'' frames of
              Inl e \<Rightarrow> Inl e
            | Inr (areas, frames) \<Rightarrow>
           (case request 2 ''config/device_registry/list'' frames of
              Inl e \<Rightarrow> Inl e
            | Inr (devices, frames) \<Rightarrow>
           (case request 3 ''config/entity_registry/list'' frames of
              Inl e \<Rightarrow> Inl e
            | Inr (entities, frames) \<Rightarrow>
                Inr \<lparr>pl_areas = areas, pl_devices = devices, pl_entities = entities\<rparr>))))
      | _ \<Rightarrow> Inl (RuntimeError ''connection closed''))"

text \<open>A frame that is a JSON object but not the result of request \<open>rid\<close>.\<close>

definition unrelated :: "int \<Rightarrow> string \<Rightarrow> bool" where
  "unrelated rid raw = (case parse_object raw of
     Inl _ \<Rightarrow> False | Inr msg \<Rightarrow> \<not> (id_is rid msg \<and> map_of msg ''type'' = Some (JStr ''result'')))"

definition result_frame :: "int \<Rightarrow> string \<Rightarrow> entry list \<Rightarrow> bool" where
  "result_frame rid raw es \<longleftrightarrow> (\<exists>msg. parse_object raw = Inr msg \<and> id_is rid msg \<and>
     map_of msg ''type'' = Some (JStr ''result'') \<and>
     (\<exists>v. map_of msg ''success'' = Some v \<and> json_truthy v) \<and> raw_entries msg ''result'' = Inr es)"

lemma request_skips:
  "list_all (unrelated rid) xs \<Longrightarrow> request rid cmd (xs @ frames) = request rid cmd frames"
  by (induction xs) (auto simp: unrelated_def split: sum.splits)

lemma request_answered:
  "result_frame rid raw es \<Longrightarrow> request rid cmd (raw # frames) = Inr (es, frames)"
  by (auto simp: result_frame_def)

text \<open>
  A fetch finds the three registries whatever other frames the server sends in between: each
  request takes the first successful result with its id, and the payload consists of those results.
\<close>

theorem fetch_finds_the_results:
  assumes "parse_object ack = Inr a" and "map_of a ''type'' = Some (JStr ''auth_ok'')"
    and "list_all (unrelated 1) xs" and "result_frame 1 r1 areas"
    and "list_all (unrelated 2) ys" and "result_frame 2 r2 devices"
    and "list_all (unrelated 3) zs" and "result_frame 3 r3 entities"
  shows "fetch_once (hello # ack # xs @ r1 # ys @ r2 # zs @ r3 # rest) =
    Inr \<lparr>pl_areas = areas, pl_devices = devices, pl_entities = entities\<rparr>"
  using assms by (simp add: fetch_once_def request_skips request_answered del: request.simps)

lemma fetch_finds_the_results_witness:
  "fetch_once (''x'' # ''{\"type\":\"auth_ok\"}'' # [''{\"id\":9}''] @ ''{\"id\":1,\"type\":\"result\",\"success\":true,\"result\":[{\"area_id\":\"h\"}]}''
     # [] @ ''{\"id\":2,\"type\":\"result\",\"success\":true}'' # [] @ ''{\"id\":3,\"type\":\"result\",\"success\":true,\"result\":[]}'' # []) =
   Inr \<lparr>pl_areas = [[(''area_id'', JStr ''h'')]], pl_devices = [], pl_entities = []\<rparr>"
proof -
  have 1: "parse_object ''{\"type\":\"auth_ok\"}'' = Inr [(''type'', JStr ''auth_ok'')]" by code_simp
  have 2: "map_of [(''type'', JStr ''auth_ok'')] ''type'' = Some (JStr ''auth_ok'')" by simp
  have 3: "list_all (unrelated 1) [''{\"id\":9}'']" by code_simp
  have p: "parse_object ''{\"id\":1,\"type\":\"result\",\"success\":true,\"result\":[{\"area_id\":\"h\"}]}'' =
      Inr [(''id'', JInt 1), (''type'', JStr ''result''), (''success'', JBool True), (''result'', JArr [JObj [(''area_id'', JStr ''h'')]])]"
    "parse_object ''{\"id\":2,\"type\":\"result\",\"success\":true}'' =
      Inr [(''id'', JInt 2), (''type'', JStr ''result''), (''success'', JBool True)]"
    "parse_object ''{\"id\":3,\"type\":\"result\",\"success\":true,\"result\":[]}'' =
      Inr [(''id'', JInt 3), (''type'', JStr ''result''), (''success'', JBool True), (''result'', JArr [])]"
    by code_simp+
  show ?thesis
    by (rule fetch_finds_the_results [OF 1 2 3])
      (simp_all add: result_frame_def p id_is_def json_truthy_def raw_entries_def)
qed

section \<open>The REST call\<close>

datatype http_try =
    ConnectError
  | ReadTimeout
  | OtherTransportError
  | Response int json     \<comment> \<open>status code, body\<close>

datatype rest_error =
    HAUnreachable string
  | HAAuthInvalid int
  | HTTPStatusError int
  | TransportError

text \<open>\<open>n\<close> attempts are left; \<open>attempt\<close> is the number of the next one. Also the sleeps made.\<close>

fun fetch_from :: "(nat \<Rightarrow> http_try) \<Rightarrow> nat \<Rightarrow> nat \<Rightarrow> int \<Rightarrow> (rest_error + json) \<times> int list" where
  "fetch_from world 0 attempt delay = (Inl (HAUnreachable ''retries exhausted''), [])"
| "fetch_from world (Suc n) attempt delay =
     (case world attempt of
        OtherTransportError \<Rightarrow> (Inl TransportError, [])
      | Response status body \<Rightarrow>
          if status = 401 \<or> status = 403 then (Inl (HAAuthInvalid status), [])
          else if \<not> (200 \<le> status \<and> status \<le> 299) then (Inl (HTTPStatusError status), [])
          else (Inr body, [])
      | _ \<Rightarrow>
          if n = 0 then (Inl (HAUnreachable ''after the last attempt''), [])
          else (case fetch_from world n (attempt + 1) (min 60 (delay * 2)) of
                  (r, sleeps) \<Rightarrow> (r, delay # sleeps)))"

text \<open>\<open>HAClient\<close>: base address and headers go to the \<open>httpx\<close> client with the timeout, which is not modelled.\<close>

record ha_client =
  hc_base :: string
  hc_headers :: "(string \<times> string) list"
  hc_retries :: int

definition rstrip_chr :: "char \<Rightarrow> string \<Rightarrow> string" where
  "rstrip_chr c s = rev (dropWhile (\<lambda>x. x = c) (rev s))"

definition new_ha_client :: "string \<Rightarrow> string \<Rightarrow> int \<Rightarrow> ha_client" where
  "new_ha_client base_url token connect_retries =
     \<lparr>hc_base = rstrip_chr (CHR ''/'') base_url, hc_headers = [(''Authorization'', ''Bearer '' @ token)],
      hc_retries = connect_retries\<rparr>"

definition fetch_states :: "ha_client \<Rightarrow> (nat \<Rightarrow> http_try) \<Rightarrow> (rest_error + json) \<times> int list" where
  "fetch_states c world = fetch_from world (nat (hc_retries c)) 0 1"

lemma rstrip_chr_spec:
  "\<exists>k. s = rstrip_chr c s @ replicate k c" and "rstrip_chr c s = [] \<or> last (rstrip_chr c s) \<noteq> c"
proof -
  have "\<forall>x \<in> set (takeWhile (\<lambda>x. x = c) (rev s)). x = c" by (blast dest: set_takeWhileD)
  then have "takeWhile (\<lambda>x. x = c) (rev s) = replicate (length (takeWhile (\<lambda>x. x = c) (rev s))) c"
    by (simp add: map_replicate_const list_eq_iff_nth_eq)
  then obtain k where "takeWhile (\<lambda>x. x = c) (rev s) = replicate k c" by blast
  then have "rev s = replicate k c @ dropWhile (\<lambda>x. x = c) (rev s)"
    using takeWhile_dropWhile_id [of "\<lambda>x. x = c" "rev s"] by simp
  then have "s = rstrip_chr c s @ replicate k c"
    unfolding rstrip_chr_def by (metis rev_append rev_replicate rev_rev_ident)
  then show "\<exists>k. s = rstrip_chr c s @ replicate k c" ..
  show "rstrip_chr c s = [] \<or> last (rstrip_chr c s) \<noteq> c"
    using hd_dropWhile [of "\<lambda>x. x = c" "rev s"] by (auto simp: rstrip_chr_def last_rev)
qed

definition unreachable :: "http_try \<Rightarrow> bool" where
  "unreachable t \<longleftrightarrow> t = ConnectError \<or> t = ReadTimeout"

lemma fetch_from_retries:
  assumes "\<forall>i < k. unreachable (world (a + i))" and "k < n"
  shows "fetch_from world n a d =
    (case fetch_from world (n - k) (a + k) (if k = 0 then d else min 60 (d * 2 ^ k)) of
       (r, sleeps) \<Rightarrow> (r, map (\<lambda>i. if i = 0 then d else min 60 (d * 2 ^ i)) [0..<k] @ sleeps))"
  using assms
proof (induction k)
  case 0
  then show ?case by simp
next
  case (Suc k)
  then have IH: "fetch_from world n a d =
    (case fetch_from world (n - k) (a + k) (if k = 0 then d else min 60 (d * 2 ^ k)) of
       (r, sleeps) \<Rightarrow> (r, map (\<lambda>i. if i = 0 then d else min 60 (d * 2 ^ i)) [0..<k] @ sleeps))" by simp
  have u: "unreachable (world (a + k))" using Suc.prems by simp
  obtain m where m: "n - k = Suc m" "m = n - Suc k" "m \<noteq> 0" using Suc.prems(2) by (cases "n - k") auto
  have dbl: "min 60 (min 60 x * 2) = min 60 (x * 2)" for x :: int by (simp add: min_def)
  obtain r sl where r: "fetch_from world m (a + Suc k) (min 60 (d * 2 ^ Suc k)) = (r, sl)" by fastforce
  have dk: "min 60 ((if k = 0 then d else min 60 (d * 2 ^ k)) * 2) = min 60 (d * 2 ^ Suc k)"
    by (simp add: dbl mult.assoc mult.commute [of 2])
  have "fetch_from world (n - k) (a + k) (if k = 0 then d else min 60 (d * 2 ^ k)) =
      (r, (if k = 0 then d else min 60 (d * 2 ^ k)) # sl)"
    using u m(3) r dk unfolding m(1) unreachable_def by (auto simp del: power_Suc)
  with IH r m(2) show ?case by simp
qed

text \<open>
  The REST call tries at most \<open>connect_retries\<close> times: when the first k attempts do not reach the
  server and the next one is answered, it returns the body of a 2xx answer, gives up at once on 401 or 403 and
  on any other status, and has slept 1, 2, 4, ... seconds, at most 60 each; when no attempt
  reaches the server it gives up as unreachable after one sleep less than attempts.
\<close>

theorem rest_retries:
  assumes "\<forall>i < k. unreachable (world i)" and "0 < hc_retries c" and "k \<le> nat (hc_retries c)"
    and "k = nat (hc_retries c) \<or> world k = Response status body"
  shows "snd (fetch_states c world) = map (\<lambda>i. min 60 (2 ^ i)) [0..<min k (nat (hc_retries c) - 1)] \<and>
    (if k = nat (hc_retries c) then (\<exists>t. fst (fetch_states c world) = Inl (HAUnreachable t))
     else if status = 401 \<or> status = 403 then fst (fetch_states c world) = Inl (HAAuthInvalid status)
     else if 200 \<le> status \<and> status \<le> 299 then fst (fetch_states c world) = Inr body
     else fst (fetch_states c world) = Inl (HTTPStatusError status))"
proof -
  have m: "map (\<lambda>i. if i = 0 then 1 else min 60 (1 * 2 ^ i)) [0..<j] = map (\<lambda>i. min 60 (2 ^ i :: int)) [0..<j]" for j
    by (rule map_cong) auto
  show ?thesis
  proof (cases "k = nat (hc_retries c)")
    case True
    then obtain j where j: "nat (hc_retries c) = Suc j" "k = Suc j" using assms(2) by (cases "nat (hc_retries c)") auto
    have u: "\<forall>i < j. unreachable (world (0 + i))" "unreachable (world j)" using assms(1) j by auto
    show ?thesis
      using fetch_from_retries [OF u(1), of "Suc j" 1] u(2) j
      by (auto simp: fetch_states_def m unreachable_def)
  next
    case False
    with assms(3,4) have k: "k < nat (hc_retries c)" "world k = Response status body" by auto
    then obtain j where j: "nat (hc_retries c) - k = Suc j" by (cases "nat (hc_retries c) - k") auto
    have "\<forall>i < k. unreachable (world (0 + i))" using assms(1) by simp
    from fetch_from_retries [OF this k(1), of 1] show ?thesis
      using k j False by (auto simp: fetch_states_def m)
  qed
qed

lemma rest_retries_witness:
  "fetch_states (new_ha_client ''http://ha/'' ''t'' 5) (\<lambda>i. if i < 2 then ConnectError else Response 200 (JArr [])) = (Inr (JArr []), [1, 2])"
proof -
  let ?world = "\<lambda>i. if i < 2 then ConnectError else Response 200 (JArr [])"
  have "[0..<2] = [0, 1 :: nat]" by (simp add: upt_rec)
  then show ?thesis
    using rest_retries [of 2 ?world "new_ha_client ''http://ha/'' ''t'' 5" 200 "JArr []"] by (simp add: unreachable_def prod_eq_iff new_ha_client_def)
qed

end
