(* ===== verification/Stream.thy ===== *)
theory Stream
  imports Prelude "HOL-Library.Sublist"
begin

text \<open>
  \<open>EventBroadcaster\<close> of \<open>src/ai_ha/web/routes/stream.py\<close>: each open web socket has a bounded queue;
  \<open>publish\<close> puts an event into every queue and drops the oldest of a full one. A queue is a list,
  oldest first, under the number of its subscription. \<open>put\<close> never waits, because a full queue has
  just been made room in, so \<open>publish\<close> is one step.
\<close>

record 'e broadcaster =
  bc_queues :: "(nat \<times> 'e list) list"
  bc_queue_size :: int
  bc_next :: nat

definition new_broadcaster :: "int \<Rightarrow> 'e broadcaster" where
  "new_broadcaster queue_size = \<lparr>bc_queues = [], bc_queue_size = queue_size, bc_next = 0\<rparr>"

text \<open>\<open>asyncio.Queue.full\<close>: a queue whose \<open>maxsize\<close> is not positive is never full.\<close>

definition queue_full :: "int \<Rightarrow> 'e list \<Rightarrow> bool" where
  "queue_full maxsize q \<longleftrightarrow> 0 < maxsize \<and> maxsize \<le> int (length q)"

definition offer :: "int \<Rightarrow> 'e \<Rightarrow> 'e list \<Rightarrow> 'e list" where
  "offer maxsize event q = (if queue_full maxsize q then tl q else q) @ [event]"

definition publish :: "'e \<Rightarrow> 'e broadcaster \<Rightarrow> 'e broadcaster" where
  "publish event b = b\<lparr>bc_queues := map (\<lambda>(i, q). (i, offer (bc_queue_size b) event q)) (bc_queues b)\<rparr>"

text \<open>\<open>subscribe\<close> adds an empty queue; each turn of its loop takes one event; closing discards the queue.\<close>

definition subscribe :: "'e broadcaster \<Rightarrow> nat \<times> 'e broadcaster" where
  "subscribe b = (bc_next b, b\<lparr>bc_queues := bc_queues b @ [(bc_next b, [])], bc_next := bc_next b + 1\<rparr>)"

definition next_event :: "nat \<Rightarrow> 'e broadcaster \<Rightarrow> 'e option \<times> 'e broadcaster" where
  "next_event i b =
     (case map_of (bc_queues b) i of
        Some (x # q) \<Rightarrow> (Some x, b\<lparr>bc_queues := AList.update i q (bc_queues b)\<rparr>)
      | _ \<Rightarrow> (None, b))"

definition unsubscribe :: "nat \<Rightarrow> 'e broadcaster \<Rightarrow> 'e broadcaster" where
  "unsubscribe i b = b\<lparr>bc_queues := filter (\<lambda>(j, q). j \<noteq> i) (bc_queues b)\<rparr>"

section \<open>Runs\<close>

datatype 'e stream_op = Publish 'e | Subscribe | Next nat | Close nat

definition sstep :: "'e stream_op \<Rightarrow> 'e broadcaster \<Rightarrow> 'e broadcaster" where
  "sstep op b =
     (case op of
        Publish e \<Rightarrow> publish e b
      | Subscribe \<Rightarrow> snd (subscribe b)
      | Next i \<Rightarrow> snd (next_event i b)
      | Close i \<Rightarrow> unsubscribe i b)"

definition srun :: "'e stream_op list \<Rightarrow> 'e broadcaster \<Rightarrow> 'e broadcaster" where
  "srun ops b = fold sstep ops b"

fun published :: "'e stream_op list \<Rightarrow> 'e list" where
  "published [] = []"
| "published (Publish e # ops) = e # published ops"
| "published (_ # ops) = published ops"

text \<open>What subscription \<open>i\<close> receives along a run.\<close>

fun received :: "nat \<Rightarrow> 'e stream_op list \<Rightarrow> 'e broadcaster \<Rightarrow> 'e list" where
  "received i [] b = []"
| "received i (op # ops) b =
     (case op of Next j \<Rightarrow> if j = i then (case fst (next_event i b) of None \<Rightarrow> [] | Some e \<Rightarrow> [e]) else [] | _ \<Rightarrow> [])
       @ received i ops (sstep op b)"

definition queue_of :: "nat \<Rightarrow> 'e broadcaster \<Rightarrow> 'e list option" where
  "queue_of i b = map_of (bc_queues b) i"

section \<open>One subscriber\<close>

lemma queue_publish: "queue_of i (publish e b) = map_option (offer (bc_queue_size b) e) (queue_of i b)"
  by (simp add: queue_of_def publish_def map_of_map)

lemma queue_subscribe: "i \<noteq> bc_next b \<Longrightarrow> queue_of i (snd (subscribe b)) = queue_of i b"
  by (simp add: queue_of_def subscribe_def map_add_def split: option.split)

lemma queue_unsubscribe: "i \<noteq> j \<Longrightarrow> queue_of i (unsubscribe j b) = queue_of i b"
proof -
  assume "i \<noteq> j"
  then have "map_of (filter (\<lambda>(k, q). k \<noteq> j) xs) i = map_of xs i" for xs :: "(nat \<times> 'a list) list"
    by (induction xs) auto
  then show ?thesis by (simp add: queue_of_def unsubscribe_def)
qed

lemma queue_next: "queue_of i (snd (next_event j b)) =
  (if i = j then map_option tl (queue_of i b) else queue_of i b)"
  by (auto simp: queue_of_def next_event_def update_conv' split: option.split list.split)

lemma size_sstep [simp]: "bc_queue_size (sstep op b) = bc_queue_size b"
  by (cases op) (auto simp: sstep_def publish_def subscribe_def next_event_def unsubscribe_def
      split: option.split list.split)

lemma next_sstep: "bc_next b \<le> bc_next (sstep op b)"
  by (cases op) (auto simp: sstep_def publish_def subscribe_def next_event_def unsubscribe_def
      split: option.split list.split)

text \<open>
  A queue that starts as \<open>q0\<close> ends as a suffix of \<open>q0\<close> and the publications since; what was received
  and what still waits come in order and none is repeated; without overflow nothing is lost.
\<close>

lemma offer_facts:
  "suffix q xs \<Longrightarrow> suffix (offer n e q) (xs @ [e])"
  "subseq (got @ q) xs \<Longrightarrow> subseq (got @ offer n e q) (xs @ [e])"
  "0 < n \<Longrightarrow> int (length q) \<le> n \<Longrightarrow> int (length (offer n e q)) \<le> n"
  "n \<le> 0 \<or> int (length q) < n \<Longrightarrow> offer n e q = q @ [e]"
proof -
  show "suffix (offer n e q) (xs @ [e])" if "suffix q xs"
    using that suffix_order.trans [OF suffix_tl that] by (auto simp: offer_def)
  show "subseq (got @ offer n e q) (xs @ [e])" if "subseq (got @ q) xs"
  proof -
    have "subseq (tl q) q" by (cases q) (auto simp: subseq_Cons')
    then have "subseq (got @ tl q) (got @ q)" by (simp add: list_emb_append_mono)
    then have "subseq (got @ tl q) xs" using that by (rule subseq_order.trans)
    then have "subseq ((got @ tl q) @ [e]) (xs @ [e])" "subseq ((got @ q) @ [e]) (xs @ [e])"
      using that list_emb_append_mono [OF _ subseq_order.refl] by blast+
    then show ?thesis by (simp add: offer_def)
  qed
  show "int (length (offer n e q)) \<le> n" if "0 < n" "int (length q) \<le> n"
    using that by (cases q) (auto simp: offer_def queue_full_def)
  show "offer n e q = q @ [e]" if "n \<le> 0 \<or> int (length q) < n"
    using that by (auto simp: offer_def queue_full_def)
qed

lemma received_append: "received i (a @ b) s = received i a s @ received i b (srun a s)"
  by (induction a arbitrary: s) (auto simp: srun_def)

lemma published_append: "published (a @ b) = published a @ published b"
  by (induction a rule: published.induct) auto

lemma srun_snoc: "srun (ops @ [op]) b = sstep op (srun ops b)"
  by (simp add: srun_def)

lemma srun_size [simp]: "bc_queue_size (srun ops b) = bc_queue_size b"
  by (induction ops rule: rev_induct) (simp_all add: srun_snoc, simp add: srun_def)

lemma srun_next: "bc_next b \<le> bc_next (srun ops b)"
  by (induction ops rule: rev_induct) (auto simp: srun_snoc intro: le_trans next_sstep, simp add: srun_def)

text \<open>What a subscriber has got so far and what its queue holds.\<close>

definition fed :: "nat \<Rightarrow> 'e stream_op list \<Rightarrow> 'e broadcaster \<Rightarrow> 'e list \<Rightarrow> bool" where
  "fed i ops b q \<longleftrightarrow> queue_of i (srun ops b) = Some q \<and> suffix q (published ops) \<and>
     subseq (received i ops b @ q) (published ops) \<and>
     (0 < bc_queue_size b \<longrightarrow> int (length q) \<le> bc_queue_size b) \<and>
     (bc_queue_size b \<le> 0 \<or> int (length (published ops)) \<le> bc_queue_size b \<longrightarrow>
        received i ops b @ q = published ops)"

lemma fed_publish:
  assumes "fed i ops b q"
  shows "fed i (ops @ [Publish e]) b (offer (bc_queue_size b) e q)"
proof -
  let ?q = "offer (bc_queue_size b) e q"
  note q = assms [unfolded fed_def]
  have len: "length q \<le> length (published ops)" using q by (auto intro: suffix_length_le)
  have "queue_of i (srun (ops @ [Publish e]) b) = Some ?q"
    using q by (simp add: srun_snoc sstep_def queue_publish)
  moreover have "received i (ops @ [Publish e]) b = received i ops b" "published (ops @ [Publish e]) = published ops @ [e]"
    by (simp_all add: received_append published_append)
  moreover have "received i ops b @ ?q = published ops @ [e]"
    if "bc_queue_size b \<le> 0 \<or> int (length (published ops @ [e])) \<le> bc_queue_size b"
    using that q len offer_facts(4) [of "bc_queue_size b" q e] by auto
  ultimately show ?thesis
    using q offer_facts(1) [of q "published ops" "bc_queue_size b" e]
      offer_facts(2) [of "received i ops b" q "published ops" "bc_queue_size b" e] offer_facts(3) [of "bc_queue_size b" q e]
    by (simp add: fed_def)
qed

lemma fed_next:
  assumes "fed i ops b q"
  shows "\<exists>q'. fed i (ops @ [Next j]) b q'"
proof (cases "i = j \<and> q \<noteq> []")
  case True
  note q = assms [unfolded fed_def]
  obtain x q' where c: "q = x # q'" using True by (cases q) auto
  have "queue_of i (srun (ops @ [Next j]) b) = Some q'"
    using True c q by (simp add: srun_snoc sstep_def queue_next)
  moreover have "received i (ops @ [Next j]) b = received i ops b @ [x]" "published (ops @ [Next j]) = published ops"
    using True c q by (simp_all add: received_append published_append next_event_def queue_of_def)
  moreover have "suffix q' (published ops)" using q c suffix_ConsD by metis
  ultimately have "fed i (ops @ [Next j]) b q'" using q c by (auto simp: fed_def)
  then show ?thesis ..
next
  case False
  note q = assms [unfolded fed_def]
  have "queue_of i (srun (ops @ [Next j]) b) = Some q"
    using False q by (auto simp: srun_snoc sstep_def queue_next)
  moreover have "received i (ops @ [Next j]) b = received i ops b" "published (ops @ [Next j]) = published ops"
    using False q by (auto simp: received_append published_append next_event_def queue_of_def)
  ultimately have "fed i (ops @ [Next j]) b q" using q by (simp add: fed_def)
  then show ?thesis ..
qed

lemma subscriber_run:
  assumes "queue_of i b = Some []" and "i < bc_next b" and "Close i \<notin> set ops"
  shows "\<exists>q. fed i ops b q"
  using assms(3)
proof (induction ops rule: rev_induct)
  case Nil
  with assms(1) show ?case by (simp add: srun_def fed_def)
next
  case (snoc op ops)
  then obtain q where q: "fed i ops b q" by auto
  have lt: "i < bc_next (srun ops b)" using assms(2) srun_next [of b ops] by simp
  show ?case
  proof (cases op)
    case (Publish e)
    with fed_publish [OF q] show ?thesis by blast
  next
    case Subscribe
    with q lt show ?thesis
      by (intro exI [of _ q]) (simp add: fed_def srun_snoc sstep_def queue_subscribe received_append published_append)
  next
    case (Close j)
    with snoc.prems have "i \<noteq> j" by auto
    with Close q show ?thesis
      by (intro exI [of _ q]) (simp add: fed_def srun_snoc sstep_def queue_unsubscribe received_append published_append)
  next
    case (Next j)
    with fed_next [OF q] show ?thesis by blast
  qed
qed

text \<open>
  A web socket that stays open receives published events in order and none of them twice; what
  waits in its queue are the latest publications, at most \<open>queue_size\<close> of them; and nothing
  published since it subscribed is missing while those fit into the queue.
\<close>

theorem subscriber_sees_the_latest_events:
  assumes "subscribe b = (i, b0)" and "i \<notin> fst ` set (bc_queues b)" and "Close i \<notin> set ops"
    and "0 < bc_queue_size b"
  shows "\<exists>q. queue_of i (srun ops b0) = Some q \<and> suffix q (published ops) \<and>
    int (length q) \<le> bc_queue_size b \<and>
    subseq (received i ops b0 @ q) (published ops) \<and>
    (int (length (published ops)) \<le> bc_queue_size b \<longrightarrow> received i ops b0 @ q = published ops)"
proof -
  have "map_of (bc_queues b) i = None" using assms(2) by (simp add: map_of_eq_None_iff)
  then have "queue_of i b0 = Some []" "i < bc_next b0" "bc_queue_size b0 = bc_queue_size b"
    using assms(1) by (auto simp: subscribe_def queue_of_def map_add_def)
  with subscriber_run [of i b0 ops, unfolded fed_def] assms(3,4) show ?thesis by auto
qed

lemma subscriber_sees_the_latest_events_witness:
  "\<exists>q. queue_of 0 (srun [Publish 1, Publish 2, Next 0, Publish 3, Publish (4 :: int)] (snd (subscribe (new_broadcaster 2)))) = Some q \<and>
    suffix q [1, 2, 3, 4] \<and> int (length q) \<le> 2 \<and> subseq ([1] @ q) [1, 2, 3, 4]"
  using subscriber_sees_the_latest_events [of "new_broadcaster 2" 0 "snd (subscribe (new_broadcaster 2))"
      "[Publish 1, Publish 2, Next 0, Publish 3, Publish (4 :: int)]"]
  by (simp add: subscribe_def new_broadcaster_def sstep_def publish_def offer_def queue_full_def next_event_def)

end
