(* ===== verification/Archive.thy ===== *)
theory Archive
  imports Json
begin

text \<open>
  \<open>src/ai_ha/archive/jsonl_writer.py\<close>: one JSONL file per UTC day. The directory is an association
  list from file name to lines; an open handle has the name of its file and the lines that
  are not yet flushed to it. A day is the date of \<open>datetime.fromtimestamp(ts_ms / 1000, UTC)\<close>,
  computed as the standard library does it, and \<open>ValueError\<close> outside the years 1 to 9999.
  The text of a record (\<open>json.dumps\<close>) is an argument of \<open>append\<close>: one line.
\<close>

section \<open>The date of a timestamp\<close>

definition days_before_month :: "nat \<Rightarrow> nat" where
  "days_before_month m = [0, 0, 31, 59, 90, 120, 151, 181, 212, 243, 273, 304, 334] ! m"

definition days_in_month :: "nat \<Rightarrow> nat" where
  "days_in_month m = [0, 31, 28, 31, 30, 31, 30, 31, 31, 30, 31, 30, 31] ! m"

text \<open>Month and day of the month from the day of the year, counted from 0.\<close>

definition month_day :: "bool \<Rightarrow> nat \<Rightarrow> nat \<times> nat" where
  "month_day leap n =
     (let month = (n + 50) div 32;
          preceding = days_before_month month + (if 2 < month \<and> leap then 1 else 0)
      in if n < preceding
         then let month = month - 1;
                  preceding = preceding - (days_in_month month + (if month = 2 \<and> leap then 1 else 0))
              in (month, n - preceding + 1)
         else (month, n - preceding + 1))"

text \<open>\<open>_ord2ymd\<close>: day 1 is 1 January of the year 1.\<close>

definition ord2ymd :: "int \<Rightarrow> int \<times> nat \<times> nat" where
  "ord2ymd ord =
     (let n = ord - 1;
          n400 = n div 146097; n = n mod 146097;
          n100 = n div 36524; n = n mod 36524;
          n4 = n div 1461; n = n mod 1461;
          n1 = n div 365; n = n mod 365;
          year = n400 * 400 + 1 + n100 * 100 + n4 * 4 + n1
      in if n1 = 4 \<or> n100 = 4 then (year - 1, 12, 31)
         else let leapyear = (n1 = 3 \<and> (n4 \<noteq> 24 \<or> n100 = 3))
              in (year, month_day leapyear (nat n)))"

definition pad2 :: "nat \<Rightarrow> string" where
  "pad2 n = (if n < 10 then CHR ''0'' # nat_str n else nat_str n)"

definition day_string :: "int \<times> nat \<times> nat \<Rightarrow> string" where
  "day_string = (\<lambda>(y, m, d). nat_str (nat y) @ CHR ''-'' # pad2 m @ CHR ''-'' # pad2 d)"

definition day_number :: "int \<Rightarrow> int" where
  "day_number ts_ms = ts_ms div 86400000"

definition day_of :: "int \<Rightarrow> string res" where
  "day_of ts_ms =
     (let ord = day_number ts_ms + 719163 in
      if 1 \<le> ord \<and> ord \<le> 3652059 then Inr (day_string (ord2ymd ord)) else Inl ValueError)"

section \<open>The writer\<close>

record jsonl_writer =
  jw_dir :: "(string \<times> string list) list"
  jw_compress :: bool
  jw_current_day :: "string option"
  jw_handle :: "(string \<times> string list) option"

definition new_writer :: "bool \<Rightarrow> jsonl_writer" where
  "new_writer compress = \<lparr>jw_dir = [], jw_compress = compress, jw_current_day = None, jw_handle = None\<rparr>"

definition path_for_day :: "string \<Rightarrow> jsonl_writer \<Rightarrow> string" where
  "path_for_day day w = day @ (if jw_compress w then ''.jsonl.gz'' else ''.jsonl'')"

definition file_lines :: "string \<Rightarrow> jsonl_writer \<Rightarrow> string list" where
  "file_lines path w = (case map_of (jw_dir w) path of None \<Rightarrow> [] | Some ls \<Rightarrow> ls)"

text \<open>What the handle holds goes to the end of its file; opening for append creates the file.\<close>

definition flush_handle :: "jsonl_writer \<Rightarrow> jsonl_writer" where
  "flush_handle w =
     (case jw_handle w of
        None \<Rightarrow> w
      | Some (path, buf) \<Rightarrow>
          w\<lparr>jw_dir := AList.update path (file_lines path w @ buf) (jw_dir w), jw_handle := Some (path, [])\<rparr>)"

definition open_append :: "string \<Rightarrow> jsonl_writer \<Rightarrow> jsonl_writer" where
  "open_append path w =
     w\<lparr>jw_dir := AList.update path (file_lines path w) (jw_dir w), jw_handle := Some (path, [])\<rparr>"

definition ensure_day :: "string \<Rightarrow> jsonl_writer \<Rightarrow> jsonl_writer" where
  "ensure_day day w =
     (if jw_current_day w = Some day \<and> jw_handle w \<noteq> None then w
      else (open_append (path_for_day day w) (flush_handle w))\<lparr>jw_current_day := Some day\<rparr>)"

definition append_record :: "string \<Rightarrow> int \<Rightarrow> jsonl_writer \<Rightarrow> unit res \<times> jsonl_writer" where
  "append_record line ts_ms w =
     (case day_of ts_ms of
        Inl e \<Rightarrow> (Inl e, w)
      | Inr day \<Rightarrow>
          (let w = ensure_day day w in
           (Inr (), w\<lparr>jw_handle := map_option (\<lambda>(path, buf). (path, buf @ [line])) (jw_handle w)\<rparr>)))"

definition flush_writer :: "jsonl_writer \<Rightarrow> jsonl_writer" where
  "flush_writer w = flush_handle w"

definition close_writer :: "jsonl_writer \<Rightarrow> jsonl_writer" where
  "close_writer w =
     (if jw_handle w = None then w
      else (flush_handle w)\<lparr>jw_handle := None, jw_current_day := None\<rparr>)"

section \<open>Dates and days are one to one\<close>

definition ymd2ord :: "int \<times> nat \<times> nat \<Rightarrow> int" where
  "ymd2ord = (\<lambda>(y, m, d).
     (y - 1) * 365 + (y - 1) div 4 - (y - 1) div 100 + (y - 1) div 400 +
     int (days_before_month m + (if 2 < m \<and> (y mod 4 = 0 \<and> (y mod 100 \<noteq> 0 \<or> y mod 400 = 0)) then 1 else 0)) + int d)"

lemma month_day_inverse:
  assumes "n < (if leap then 366 else 365)" and "month_day leap n = (m, d)"
  shows "days_before_month m + (if 2 < m \<and> leap then 1 else 0) + d = n + 1 \<and> 1 \<le> d \<and> d \<le> 31 \<and> 1 \<le> m \<and> m \<le> 12"
proof -
  define k where "k = (n + 50) div 32"
  have k: "32 * k \<le> n + 50" "n + 50 < 32 * k + 32" by (simp_all add: k_def)
  have "1 \<le> k" "k \<le> 12" using k assms(1) by (auto split: if_splits)
  then have c: "k = 1 \<or> k = 2 \<or> k = 3 \<or> k = 4 \<or> k = 5 \<or> k = 6 \<or> k = 7 \<or> k = 8 \<or> k = 9 \<or> k = 10 \<or> k = 11 \<or> k = 12" by presburger
  show ?thesis
  proof (cases leap)
    case True
    with assms k c show ?thesis unfolding month_day_def Let_def k_def [symmetric]
      by (elim disjE; hypsubst) (simp add: days_before_month_def days_in_month_def split: if_splits; linarith)+
  next
    case False
    with assms k c show ?thesis unfolding month_day_def Let_def k_def [symmetric]
      by (elim disjE; hypsubst) (simp add: days_before_month_def days_in_month_def split: if_splits; linarith)+
  qed
qed

lemma mod_zero_end: "1 \<le> x \<Longrightarrow> x \<le> n \<Longrightarrow> (x + n * q) mod n = 0 \<longleftrightarrow> x = n" for x n q :: int
  by (cases "x = n") simp_all

text \<open>The quotients that name a year, and the leap year rule, from its place in its cycles.\<close>

lemma year_parts:
  fixes a b c d :: int
  assumes "0 \<le> b" "b \<le> 3" "0 \<le> c" "c \<le> 24" "0 \<le> d" "d \<le> 3"
  defines "y \<equiv> a * 400 + 1 + b * 100 + c * 4 + d"
  shows "(y - 1) * 365 + (y - 1) div 4 - (y - 1) div 100 + (y - 1) div 400 =
      a * 146097 + b * 36524 + c * 1461 + d * 365"
    and "(y mod 4 = 0 \<and> (y mod 100 \<noteq> 0 \<or> y mod 400 = 0)) \<longleftrightarrow> d = 3 \<and> (c \<noteq> 24 \<or> b = 3)"
proof -
  have q4: "(y - 1) div 4 = a * 100 + b * 25 + c"
    by (rule int_div_pos_eq [where r = d]) (use assms(1-6) in \<open>simp_all add: y_def\<close>)
  have q100: "(y - 1) div 100 = a * 4 + b"
    by (rule int_div_pos_eq [where r = "c * 4 + d"]) (use assms(1-6) in \<open>simp_all add: y_def\<close>)
  have q400: "(y - 1) div 400 = a"
    by (rule int_div_pos_eq [where r = "b * 100 + c * 4 + d"]) (use assms(1-6) in \<open>simp_all add: y_def\<close>)
  show "(y - 1) * 365 + (y - 1) div 4 - (y - 1) div 100 + (y - 1) div 400 =
      a * 146097 + b * 36524 + c * 1461 + d * 365"
    unfolding q4 q100 q400 by (simp add: y_def algebra_simps)
  have y: "y = d + 1 + 4 * (a * 100 + b * 25 + c)" "y = c * 4 + d + 1 + 100 * (a * 4 + b)"
    "y = b * 100 + c * 4 + d + 1 + 400 * a" by (simp_all add: y_def)
  have "y mod 4 = 0 \<longleftrightarrow> d = 3" unfolding y(1) using assms(5,6) by (subst mod_zero_end) auto
  moreover have "y mod 100 = 0 \<longleftrightarrow> c = 24 \<and> d = 3"
    unfolding y(2) using assms(3-6) by (subst mod_zero_end) presburger+
  moreover have "y mod 400 = 0 \<longleftrightarrow> b = 3 \<and> c = 24 \<and> d = 3"
    unfolding y(3) using assms(1-6) by (subst mod_zero_end) presburger+
  ultimately show "(y mod 4 = 0 \<and> (y mod 100 \<noteq> 0 \<or> y mod 400 = 0)) \<longleftrightarrow> d = 3 \<and> (c \<noteq> 24 \<or> b = 3)"
    by auto
qed

text \<open>The parts of an ordinal: 400, 100 and 4 years, years and days.\<close>

lemma ord_parts:
  assumes "1 \<le> ord"
  obtains a b c d r where "ord = 146097 * a + 36524 * b + 1461 * c + 365 * d + r + 1"
    and "0 \<le> a" "0 \<le> b" "b \<le> 4" "0 \<le> c" "c \<le> 24" "0 \<le> d" "d \<le> 4" "0 \<le> r" "r < 365"
    and "b = 4 \<longrightarrow> c = 0 \<and> d = 0 \<and> r = 0" and "d = 4 \<longrightarrow> r = 0" and "d = 4 \<longrightarrow> b \<noteq> 4 \<longrightarrow> c \<noteq> 24"
    and "ord2ymd ord = (if d = 4 \<or> b = 4 then (a * 400 + b * 100 + c * 4 + d, 12, 31)
      else (a * 400 + 1 + b * 100 + c * 4 + d, month_day (d = 3 \<and> (c \<noteq> 24 \<or> b = 3)) (nat r)))"
proof -
  define n where "n = ord - 1"
  define a where "a = n div 146097"
  define r1 where "r1 = n mod 146097"
  define b where "b = r1 div 36524"
  define r2 where "r2 = r1 mod 36524"
  define c where "c = r2 div 1461"
  define r3 where "r3 = r2 mod 1461"
  define d where "d = r3 div 365"
  define r4 where "r4 = r3 mod 365"
  have n: "n = 146097 * a + r1" "0 \<le> r1" "r1 < 146097" by (simp_all add: a_def r1_def)
  have r1: "r1 = 36524 * b + r2" "0 \<le> r2" "r2 < 36524" by (simp_all add: b_def r2_def)
  have r2: "r2 = 1461 * c + r3" "0 \<le> r3" "r3 < 1461" by (simp_all add: c_def r3_def)
  have r3: "r3 = 365 * d + r4" "0 \<le> r4" "r4 < 365" by (simp_all add: d_def r4_def)
  have bnd: "0 \<le> a" "0 \<le> b" "b \<le> 4" "0 \<le> c" "c \<le> 24" "0 \<le> d" "d \<le> 4"
    using assms n r1 r2 r3 by (simp_all add: n_def)
  show thesis
  proof (rule that [of a b c d r4])
    show "ord2ymd ord = (if d = 4 \<or> b = 4 then (a * 400 + b * 100 + c * 4 + d, 12, 31)
      else (a * 400 + 1 + b * 100 + c * 4 + d, month_day (d = 3 \<and> (c \<noteq> 24 \<or> b = 3)) (nat r4)))"
      by (simp add: ord2ymd_def Let_def n_def [symmetric] a_def [symmetric] r1_def [symmetric] b_def [symmetric]
        r2_def [symmetric] c_def [symmetric] r3_def [symmetric] d_def [symmetric] r4_def [symmetric])
    show "b = 4 \<longrightarrow> c = 0 \<and> d = 0 \<and> r4 = 0"
    proof
      assume "b = 4"
      then have "r2 = 0" using n r1 by simp
      then show "c = 0 \<and> d = 0 \<and> r4 = 0" using r2 r3 bnd by simp
    qed
    show "d = 4 \<longrightarrow> b \<noteq> 4 \<longrightarrow> c \<noteq> 24" using r1 r2 r3 by auto
  qed (use bnd n r1 r2 r3 in \<open>simp_all add: n_def\<close>)
qed

lemma ymd2ord_ord2ymd:
  assumes "1 \<le> ord"
  shows "ymd2ord (ord2ymd ord) = ord" and "1 \<le> fst (ord2ymd ord)"
proof -
  from assms obtain a b c d r where ord: "ord = 146097 * a + 36524 * b + 1461 * c + 365 * d + r + 1"
    and bnd: "0 \<le> a" "0 \<le> b" "b \<le> 4" "0 \<le> c" "c \<le> 24" "0 \<le> d" "d \<le> 4" and r: "0 \<le> r" "r < 365"
    and b4: "b = 4 \<longrightarrow> c = 0 \<and> d = 0 \<and> r = 0" and d4: "d = 4 \<longrightarrow> r = 0" "d = 4 \<longrightarrow> b \<noteq> 4 \<longrightarrow> c \<noteq> 24"
    and unf: "ord2ymd ord = (if d = 4 \<or> b = 4 then (a * 400 + b * 100 + c * 4 + d, 12, 31)
      else (a * 400 + 1 + b * 100 + c * 4 + d, month_day (d = 3 \<and> (c \<noteq> 24 \<or> b = 3)) (nat r)))"
    by (rule ord_parts)
  show "1 \<le> fst (ord2ymd ord)" using bnd by (auto simp: unf)
  consider "b = 4" | "b \<noteq> 4" "d = 4" | (mid) "b \<noteq> 4" "d \<noteq> 4" by blast
  then show "ymd2ord (ord2ymd ord) = ord"
  proof cases
    case 1
    have e: "ord2ymd ord = (a * 400 + 1 + 3 * 100 + 24 * 4 + 3, 12, 31)" using b4 1 by (simp add: unf)
    show ?thesis
      using year_parts [of 3 24 3 a] b4 1 unfolding e ymd2ord_def prod.case by (simp add: days_before_month_def ord)
  next
    case 2
    have e: "ord2ymd ord = (a * 400 + 1 + b * 100 + c * 4 + 3, 12, 31)" using 2 by (simp add: unf)
    show ?thesis
      using year_parts [of b c 3 a] bnd d4 2 unfolding e ymd2ord_def prod.case by (simp add: days_before_month_def ord)
  next
    case mid
    let ?leap = "d = 3 \<and> (c \<noteq> 24 \<or> b = 3)"
    obtain m dd where md: "month_day ?leap (nat r) = (m, dd)" by fastforce
    have "nat r < (if ?leap then 366 else 365)" using r by auto
    from month_day_inverse [OF this md]
    have "int (days_before_month m + (if 2 < m \<and> ?leap then 1 else 0)) + int dd = r + 1" using r(1) by linarith
    moreover have e: "ord2ymd ord = (a * 400 + 1 + b * 100 + c * 4 + d, m, dd)" unfolding unf md using mid by simp
    ultimately show ?thesis
      using year_parts [of b c d a] bnd mid unfolding e ymd2ord_def prod.case by (simp add: ord)
  qed
qed

lemma ord2ymd_inj: "1 \<le> i \<Longrightarrow> 1 \<le> j \<Longrightarrow> ord2ymd i = ord2ymd j \<Longrightarrow> i = j"
  using ymd2ord_ord2ymd(1) by metis

subsection \<open>Day names\<close>

definition not_dash :: "char \<Rightarrow> bool" where
  "not_dash c \<longleftrightarrow> c \<noteq> CHR ''-''"

lemma is_digit_not_dash: "is_digit c \<Longrightarrow> not_dash c"
  by (auto simp: is_digit_def not_dash_def)

lemma split_at_first:
  "\<forall>x \<in> set a. x \<noteq> c \<Longrightarrow> \<forall>x \<in> set a'. x \<noteq> c \<Longrightarrow> a @ c # r = a' @ c # r' \<Longrightarrow> a = a' \<and> r = r'"
proof (induction a arbitrary: a')
  case Nil
  then show ?case by (cases a') auto
next
  case (Cons x a)
  then show ?case by (cases a') auto
qed

lemma split_at_dash:
  "\<forall>c \<in> set a. not_dash c \<Longrightarrow> \<forall>c \<in> set a'. not_dash c \<Longrightarrow> a @ CHR ''-'' # r = a' @ CHR ''-'' # r' \<Longrightarrow>
     a = a' \<and> r = r'"
  unfolding not_dash_def by (rule split_at_first)

lemma pad2_digits: "\<forall>c \<in> set (pad2 n). is_digit c"
  using nat_str_digits by (auto simp: pad2_def is_digit_def)

lemma nat_of_pad2: "nat_of_str (pad2 n) = n"
proof -
  have "digit_val (CHR ''0'') = 0" by (simp add: digit_val_def)
  then have "nat_of_str (CHR ''0'' # nat_str n) = nat_of_str (nat_str n)" by (simp add: nat_of_str_def)
  then show ?thesis by (simp add: pad2_def)
qed

lemma day_string_inj:
  assumes "day_string (y, m, d) = day_string (y', m', d')" and "0 \<le> y" and "0 \<le> y'"
  shows "y = y' \<and> m = m' \<and> d = d'"
proof -
  have nd: "\<forall>c \<in> set (nat_str k). not_dash c" "\<forall>c \<in> set (pad2 k). not_dash c" for k
    using nat_str_digits pad2_digits is_digit_not_dash by blast+
  have 1: "nat_str (nat y) = nat_str (nat y') \<and> pad2 m @ CHR ''-'' # pad2 d = pad2 m' @ CHR ''-'' # pad2 d'"
    using assms(1) by (intro split_at_dash nd) (simp add: day_string_def)
  then have "pad2 m = pad2 m' \<and> pad2 d = pad2 d'" by (intro split_at_dash nd) simp
  with 1 assms(2,3) show ?thesis by (metis nat_of_nat_str nat_of_pad2 nat_eq_iff)
qed

lemma day_of_Inr:
  "day_of s = Inr a \<Longrightarrow> 1 \<le> day_number s + 719163 \<and> a = day_string (ord2ymd (day_number s + 719163))"
  unfolding day_of_def Let_def by (simp split: if_splits)

lemma day_of_eq_iff:
  assumes "day_of s = Inr a" and "day_of t = Inr b"
  shows "a = b \<longleftrightarrow> day_number s = day_number t"
proof
  assume "day_number s = day_number t"
  with day_of_Inr [OF assms(1)] day_of_Inr [OF assms(2)] show "a = b" by metis
next
  let ?i = "day_number s + 719163" and ?j = "day_number t + 719163"
  assume "a = b"
  with day_of_Inr [OF assms(1)] day_of_Inr [OF assms(2)]
  have r: "1 \<le> ?i" "1 \<le> ?j" "day_string (ord2ymd ?i) = day_string (ord2ymd ?j)" by metis+
  obtain y m d where i: "ord2ymd ?i = (y, m, d)" by (metis surj_pair)
  obtain y' m' d' where j: "ord2ymd ?j = (y', m', d')" by (metis surj_pair)
  have "1 \<le> y" using ymd2ord_ord2ymd(2) [OF r(1)] i by simp
  moreover have "1 \<le> y'" using ymd2ord_ord2ymd(2) [OF r(2)] j by simp
  ultimately have "y = y' \<and> m = m' \<and> d = d'"
    using r(3) unfolding i j by (intro day_string_inj) simp_all
  then have "ord2ymd ?i = ord2ymd ?j" unfolding i j by simp
  then have "?i = ?j" using ord2ymd_inj r(1,2) by blast
  then show "day_number s = day_number t" by simp
qed

section \<open>Files\<close>

datatype writer_op = Append string int | FlushWriter | CloseWriter

definition wstep :: "writer_op \<Rightarrow> jsonl_writer \<Rightarrow> jsonl_writer" where
  "wstep op w =
     (case op of
        Append line ts \<Rightarrow> snd (append_record line ts w)
      | FlushWriter \<Rightarrow> flush_writer w
      | CloseWriter \<Rightarrow> close_writer w)"

definition wrun :: "writer_op list \<Rightarrow> jsonl_writer \<Rightarrow> jsonl_writer" where
  "wrun ops w = fold wstep ops w"

text \<open>The lines appended on a day.\<close>

fun lines_of :: "int \<Rightarrow> writer_op list \<Rightarrow> string list" where
  "lines_of day [] = []"
| "lines_of day (Append line ts # ops) = (if day_number ts = day then line # lines_of day ops else lines_of day ops)"
| "lines_of day (_ # ops) = lines_of day ops"

text \<open>What a file will hold once the handle is closed.\<close>

definition contents :: "string \<Rightarrow> jsonl_writer \<Rightarrow> string list" where
  "contents path w = file_lines path w @
     (case jw_handle w of Some (p, buf) \<Rightarrow> if p = path then buf else [] | None \<Rightarrow> [])"

definition writer_ok :: "jsonl_writer \<Rightarrow> bool" where
  "writer_ok w \<longleftrightarrow> (case jw_handle w of
     None \<Rightarrow> True
   | Some (p, _) \<Rightarrow> \<exists>day. jw_current_day w = Some day \<and> p = path_for_day day w)"

lemma file_lines_update: "map_of (jw_dir w') = map_of (AList.update p ls (jw_dir w)) \<Longrightarrow>
  file_lines q w' = (if q = p then ls else file_lines q w)"
  by (simp add: file_lines_def update_conv')

lemma contents_flush: "contents path (flush_handle w) = contents path w"
  by (auto simp: contents_def flush_handle_def file_lines_def update_conv' split: option.split)

lemma contents_open: "contents path (open_append p w) = file_lines path w"
  by (auto simp: contents_def open_append_def file_lines_def update_conv' split: option.split)

lemma flush_empties: "file_lines path (flush_handle w) = contents path w"
  by (auto simp: contents_def flush_handle_def file_lines_def update_conv' split: option.split)

lemma compress_flush [simp]: "jw_compress (flush_handle w) = jw_compress w"
  by (simp add: flush_handle_def split: option.split)

lemma contents_ensure: "contents path (ensure_day day w) = contents path w"
proof (cases "jw_current_day w = Some day \<and> jw_handle w \<noteq> None")
  case True
  then show ?thesis by (simp add: ensure_day_def)
next
  case False
  have "contents path (x\<lparr>jw_current_day := c\<rparr>) = contents path x" for x c
    by (simp add: contents_def file_lines_def)
  with False show ?thesis by (simp add: ensure_day_def contents_open flush_empties)
qed

lemma ensure_day_handle:
  "writer_ok w \<Longrightarrow> \<exists>buf. jw_handle (ensure_day day w) = Some (path_for_day day w, buf) \<and>
     jw_current_day (ensure_day day w) = Some day \<and> jw_compress (ensure_day day w) = jw_compress w"
  by (auto simp: ensure_day_def writer_ok_def open_append_def path_for_day_def split: option.splits)

lemma wstep_facts:
  assumes "writer_ok w"
  shows "writer_ok (wstep op w) \<and> jw_compress (wstep op w) = jw_compress w \<and>
    contents path (wstep op w) = contents path w @
      (case op of
         Append line ts \<Rightarrow> (case day_of ts of Inl e \<Rightarrow> [] | Inr day \<Rightarrow> if path = path_for_day day w then [line] else [])
       | _ \<Rightarrow> [])"
proof (cases op)
  case (Append line ts)
  show ?thesis
  proof (cases "day_of ts")
    case (Inl e)
    with Append assms show ?thesis by (simp add: wstep_def append_record_def)
  next
    case (Inr day)
    let ?w = "ensure_day day w"
    obtain buf where h: "jw_handle ?w = Some (path_for_day day w, buf)" "jw_current_day ?w = Some day"
      "jw_compress ?w = jw_compress w" using ensure_day_handle [OF assms] by blast
    have "contents path (?w\<lparr>jw_handle := Some (path_for_day day w, buf @ [line])\<rparr>) =
        contents path ?w @ (if path = path_for_day day w then [line] else [])"
      by (simp add: contents_def file_lines_def h(1))
    then show ?thesis using Append Inr h
      by (auto simp: wstep_def append_record_def Let_def writer_ok_def path_for_day_def contents_ensure)
  qed
next
  case FlushWriter
  have "writer_ok (flush_handle w)"
    using assms by (auto simp: writer_ok_def flush_handle_def path_for_day_def split: option.splits)
  with FlushWriter show ?thesis
    by (simp add: wstep_def flush_writer_def contents_flush)
next
  case CloseWriter
  have "contents path ((flush_handle w)\<lparr>jw_handle := None, jw_current_day := None\<rparr>) = file_lines path (flush_handle w)"
    by (simp add: contents_def file_lines_def)
  with CloseWriter assms show ?thesis
    by (simp add: wstep_def close_writer_def flush_empties writer_ok_def)
qed

lemma wrun_contents:
  assumes "writer_ok w" and "day_of t = Inr day"
  shows "writer_ok (wrun ops w) \<and> jw_compress (wrun ops w) = jw_compress w \<and>
    contents (path_for_day day w) (wrun ops w) = contents (path_for_day day w) w @ lines_of (day_number t) ops"
  using assms(1)
proof (induction ops arbitrary: w)
  case Nil
  then show ?case by (simp add: wrun_def)
next
  case (Cons op ops)
  note f = wstep_facts [OF Cons.prems, of op "path_for_day day w"]
  have p: "path_for_day day (wstep op w) = path_for_day day w" using f by (simp add: path_for_day_def)
  have l: "(case op of
         Append line ts \<Rightarrow> (case day_of ts of Inl e \<Rightarrow> [] | Inr day' \<Rightarrow> if path_for_day day w = path_for_day day' w then [line] else [])
       | _ \<Rightarrow> []) @ lines_of (day_number t) ops = lines_of (day_number t) (op # ops)"
  proof (cases op)
    case (Append line ts)
    show ?thesis
    proof (cases "day_of ts")
      case (Inl e)
      with assms(2) have "day_number ts \<noteq> day_number t"
        by (auto simp: day_of_def Let_def split: if_splits)
      with Append Inl show ?thesis by simp
    next
      case (Inr day')
      have "path_for_day day w = path_for_day day' w \<longleftrightarrow> day = day'" by (simp add: path_for_day_def)
      with Append Inr day_of_eq_iff [OF assms(2) Inr] show ?thesis by auto
    qed
  qed simp_all
  from Cons.IH [of "wstep op w"] f l show ?case by (simp add: wrun_def p)
qed

text \<open>
  C33. The archive is a partition by UTC day: after any sequence of appends, flushes and closes, ended by a
  close, the file of a day holds exactly the lines appended with a timestamp of that day, in
  order, and files of different days have different names.
\<close>

theorem archive_is_partitioned_by_day:
  assumes "day_of s = Inr a" and "day_of t = Inr b"
  shows "(let w = wrun (ops @ [CloseWriter]) (new_writer compress) in
      file_lines (path_for_day a w) w = lines_of (s div 86400000) ops \<and>
      (path_for_day a w = path_for_day b w \<longleftrightarrow> s div 86400000 = t div 86400000))"
proof -
  let ?w = "wrun (ops @ [CloseWriter]) (new_writer compress)"
  have lo: "lines_of d (ops @ [CloseWriter]) = lines_of d ops" for d
    by (induction ops rule: lines_of.induct) simp_all
  have new: "writer_ok (new_writer compress)" "contents p (new_writer compress) = []" for p
    by (simp_all add: writer_ok_def new_writer_def contents_def file_lines_def)
  note f = wrun_contents [OF new(1) assms(1), of "ops @ [CloseWriter]"]
  have p: "path_for_day x ?w = path_for_day x (new_writer compress)" for x
    using f by (simp add: path_for_day_def)
  have "jw_handle ?w = None"
    by (simp add: wrun_def wstep_def close_writer_def)
  then have "file_lines (path_for_day a ?w) ?w = contents (path_for_day a ?w) ?w" by (simp add: contents_def)
  also have "\<dots> = lines_of (day_number s) ops" using f by (simp add: p new(2) lo)
  finally show ?thesis
    using day_of_eq_iff [OF assms] by (simp add: Let_def day_number_def path_for_day_def)
qed

lemma archive_is_partitioned_by_day_witness:
  "(let w = wrun ([Append ''a'' 86399999, Append ''b'' 86400000, FlushWriter, Append ''c'' 5] @ [CloseWriter]) (new_writer False) in
      file_lines (path_for_day ''1970-01-01'' w) w = [''a'', ''c''])"
proof -
  have "day_of 0 = Inr ''1970-01-01''" by code_simp
  from archive_is_partitioned_by_day [OF this this, of "[Append ''a'' 86399999, Append ''b'' 86400000, FlushWriter, Append ''c'' 5]" False]
  show ?thesis by (simp add: Let_def day_number_def)
qed

end
