(* ===== verification/Config.thy ===== *)
theory Config
  imports PyText
begin

text \<open>
  \<open>src/ai_ha/config/loader.py\<close>: the settings, their defaults, the overrides from the environment and the
  loader. TOML is parsed by \<open>tomllib\<close>, a parameter that gives the table of a text or \<open>None\<close>
  for a syntax error. The sections are pydantic models: how pydantic turns a TOML value into a
  \<open>str\<close>, \<open>int\<close>, \<open>bool\<close> or \<open>float\<close> field is the parameter \<open>coercions\<close> (\<open>None\<close>: a validation error); that it
  accepts a value of the right type as it is stands as a hypothesis where it is needed.
\<close>

section \<open>Values\<close>

datatype toml =
    TStr string
  | TInt int
  | TFloat string
  | TBool bool
  | TDate string
  | TArr "toml list"
  | TTab "(string \<times> toml) list"

type_synonym table = "(string \<times> toml) list"

record coercions =
  co_str :: "toml \<Rightarrow> string option"
  co_int :: "toml \<Rightarrow> int option"
  co_bool :: "toml \<Rightarrow> bool option"
  co_float :: "toml \<Rightarrow> string option"

section \<open>The settings\<close>

record ha_config =
  ha_url :: string
  ha_token :: string

record behavior_config =
  bh_history_retention_days :: int
  bh_preference_half_life_days :: int
  bh_min_observations_for_pattern :: int

record digest_config =
  dg_max_tokens :: int
  dg_recent_event_window_minutes :: int
  dg_include_entities_pattern :: "string list"

record llm_provider =
  lp_key :: string
  lp_label :: string
  lp_base_url :: string
  lp_default_model :: string
  lp_role :: string

record llm_config =
  lm_fast_tier :: string
  lm_capable_tier :: string
  lm_escalation_threshold :: string
  lm_budget_usd_monthly :: string
  lm_providers :: "llm_provider list"

record audit_config =
  au_retention_days :: int
  au_hash_chain :: bool

record privacy_config =
  pv_allow_cloud_llm_with_digest :: bool
  pv_hide_entities_pattern :: "string list"

record web_config =
  wb_host :: string
  wb_port :: int
  wb_require_auth :: bool

record soft_intention_config =
  so_auto_dismiss_after_hours :: int
  so_max_queue_size :: int
  so_require_dual_confirm_for_critical :: bool

record archive_config =
  ac_retention_days :: int
  ac_compress :: bool

record app_config =
  cf_ha :: ha_config
  cf_behavior :: behavior_config
  cf_digest :: digest_config
  cf_llm :: llm_config
  cf_audit :: audit_config
  cf_privacy :: privacy_config
  cf_web :: web_config
  cf_soft_intention :: soft_intention_config
  cf_archive :: archive_config

section \<open>Validation\<close>

text \<open>A field with a default, a required one, and a list.\<close>

definition field :: "(toml \<Rightarrow> 'a option) \<Rightarrow> string \<Rightarrow> 'a \<Rightarrow> table \<Rightarrow> 'a option" where
  "field co k dflt t = (case map_of t k of None \<Rightarrow> Some dflt | Some v \<Rightarrow> co v)"

definition required :: "(toml \<Rightarrow> 'a option) \<Rightarrow> string \<Rightarrow> table \<Rightarrow> 'a option" where
  "required co k t = (case map_of t k of None \<Rightarrow> None | Some v \<Rightarrow> co v)"

fun all_some :: "'a option list \<Rightarrow> 'a list option" where
  "all_some [] = Some []"
| "all_some (None # xs) = None"
| "all_some (Some x # xs) = map_option (\<lambda>ys. x # ys) (all_some xs)"

definition list_of :: "(toml \<Rightarrow> 'a option) \<Rightarrow> toml \<Rightarrow> 'a list option" where
  "list_of co v = (case v of TArr xs \<Rightarrow> all_some (map co xs) | _ \<Rightarrow> None)"

definition model :: "(table \<Rightarrow> 'a option) \<Rightarrow> toml \<Rightarrow> 'a option" where
  "model f v = (case v of TTab t \<Rightarrow> f t | _ \<Rightarrow> None)"

text \<open>\<open>Field(min_length=1)\<close>\<close>

definition min_length_1 :: "string option \<Rightarrow> string option" where
  "min_length_1 s = (case s of None \<Rightarrow> None | Some x \<Rightarrow> if x = [] then None else Some x)"

definition validate_ha :: "coercions \<Rightarrow> table \<Rightarrow> ha_config option" where
  "validate_ha co t =
     (case (min_length_1 (required (co_str co) ''url'' t), min_length_1 (required (co_str co) ''token'' t)) of
        (Some u, Some k) \<Rightarrow> Some \<lparr>ha_url = u, ha_token = k\<rparr>
      | _ \<Rightarrow> None)"

definition validate_behavior :: "coercions \<Rightarrow> table \<Rightarrow> behavior_config option" where
  "validate_behavior co t =
     (case (field (co_int co) ''history_retention_days'' 30 t,
            field (co_int co) ''preference_half_life_days'' 14 t,
            field (co_int co) ''min_observations_for_pattern'' 5 t) of
        (Some a, Some b, Some c) \<Rightarrow> Some \<lparr>bh_history_retention_days = a,
          bh_preference_half_life_days = b, bh_min_observations_for_pattern = c\<rparr>
      | _ \<Rightarrow> None)"

definition validate_digest :: "coercions \<Rightarrow> table \<Rightarrow> digest_config option" where
  "validate_digest co t =
     (case (field (co_int co) ''max_tokens'' 500 t,
            field (co_int co) ''recent_event_window_minutes'' 30 t,
            field (list_of (co_str co)) ''include_entities_pattern'' [] t) of
        (Some a, Some b, Some c) \<Rightarrow> Some \<lparr>dg_max_tokens = a,
          dg_recent_event_window_minutes = b, dg_include_entities_pattern = c\<rparr>
      | _ \<Rightarrow> None)"

definition validate_provider :: "coercions \<Rightarrow> table \<Rightarrow> llm_provider option" where
  "validate_provider co t =
     (case (required (co_str co) ''key'' t, field (co_str co) ''label'' [] t,
            field (co_str co) ''base_url'' [] t, field (co_str co) ''default_model'' [] t,
            field (co_str co) ''role'' ''capable'' t) of
        (Some a, Some b, Some c, Some d, Some e) \<Rightarrow> Some \<lparr>lp_key = a, lp_label = b, lp_base_url = c,
          lp_default_model = d, lp_role = e\<rparr>
      | _ \<Rightarrow> None)"

definition validate_llm :: "coercions \<Rightarrow> table \<Rightarrow> llm_config option" where
  "validate_llm co t =
     (case (field (co_str co) ''fast_tier'' [] t, field (co_str co) ''capable_tier'' [] t,
            field (co_float co) ''escalation_threshold'' ''0.7'' t,
            field (co_float co) ''budget_usd_monthly'' ''5.0'' t,
            field (list_of (model (validate_provider co))) ''providers'' [] t) of
        (Some a, Some b, Some c, Some d, Some e) \<Rightarrow> Some \<lparr>lm_fast_tier = a, lm_capable_tier = b,
          lm_escalation_threshold = c, lm_budget_usd_monthly = d, lm_providers = e\<rparr>
      | _ \<Rightarrow> None)"

definition validate_audit :: "coercions \<Rightarrow> table \<Rightarrow> audit_config option" where
  "validate_audit co t =
     (case (field (co_int co) ''retention_days'' 90 t, field (co_bool co) ''hash_chain'' True t) of
        (Some a, Some b) \<Rightarrow> Some \<lparr>au_retention_days = a, au_hash_chain = b\<rparr>
      | _ \<Rightarrow> None)"

definition validate_privacy :: "coercions \<Rightarrow> table \<Rightarrow> privacy_config option" where
  "validate_privacy co t =
     (case (field (co_bool co) ''allow_cloud_llm_with_digest'' False t,
            field (list_of (co_str co)) ''hide_entities_pattern'' [] t) of
        (Some a, Some b) \<Rightarrow> Some \<lparr>pv_allow_cloud_llm_with_digest = a, pv_hide_entities_pattern = b\<rparr>
      | _ \<Rightarrow> None)"

definition validate_web :: "coercions \<Rightarrow> table \<Rightarrow> web_config option" where
  "validate_web co t =
     (case (field (co_str co) ''host'' ''0.0.0.0'' t, field (co_int co) ''port'' 8124 t,
            field (co_bool co) ''require_auth'' True t) of
        (Some a, Some b, Some c) \<Rightarrow> Some \<lparr>wb_host = a, wb_port = b, wb_require_auth = c\<rparr>
      | _ \<Rightarrow> None)"

definition validate_soft_intention :: "coercions \<Rightarrow> table \<Rightarrow> soft_intention_config option" where
  "validate_soft_intention co t =
     (case (field (co_int co) ''auto_dismiss_after_hours'' 72 t, field (co_int co) ''max_queue_size'' 50 t,
            field (co_bool co) ''require_dual_confirm_for_critical'' True t) of
        (Some a, Some b, Some c) \<Rightarrow> Some \<lparr>so_auto_dismiss_after_hours = a, so_max_queue_size = b,
          so_require_dual_confirm_for_critical = c\<rparr>
      | _ \<Rightarrow> None)"

definition validate_archive :: "coercions \<Rightarrow> table \<Rightarrow> archive_config option" where
  "validate_archive co t =
     (case (field (co_int co) ''retention_days'' 365 t, field (co_bool co) ''compress'' True t) of
        (Some a, Some b) \<Rightarrow> Some \<lparr>ac_retention_days = a, ac_compress = b\<rparr>
      | _ \<Rightarrow> None)"

text \<open>The default of a section is the section of an empty table.\<close>

definition section_of :: "(table \<Rightarrow> 'a option) \<Rightarrow> string \<Rightarrow> table \<Rightarrow> 'a option" where
  "section_of f k t = (case map_of t k of None \<Rightarrow> f [] | Some v \<Rightarrow> model f v)"

definition model_validate :: "coercions \<Rightarrow> table \<Rightarrow> app_config option" where
  "model_validate co t =
     (case (required (model (validate_ha co)) ''ha'' t,
            section_of (validate_behavior co) ''behavior'' t, section_of (validate_digest co) ''digest'' t,
            section_of (validate_llm co) ''llm'' t, section_of (validate_audit co) ''audit'' t,
            section_of (validate_privacy co) ''privacy'' t, section_of (validate_web co) ''web'' t,
            section_of (validate_soft_intention co) ''soft_intention'' t,
            section_of (validate_archive co) ''archive'' t) of
        (Some a, Some b, Some c, Some d, Some e, Some f, Some g, Some h, Some i) \<Rightarrow>
          Some \<lparr>cf_ha = a, cf_behavior = b, cf_digest = c, cf_llm = d, cf_audit = e, cf_privacy = f,
            cf_web = g, cf_soft_intention = h, cf_archive = i\<rparr>
      | _ \<Rightarrow> None)"

section \<open>Loading\<close>

datatype load_error = ConfigError string | Uncaught err

text \<open>The three variables of \<open>os.environ\<close>.\<close>

record environ =
  en_ha_url :: "string option"
  en_ha_token :: "string option"
  en_web_port :: "string option"

text \<open>\<open>raw.setdefault(sect, {})[k] = v\<close>: only a table takes a string key.\<close>

definition set_in :: "string \<Rightarrow> string \<Rightarrow> toml \<Rightarrow> table \<Rightarrow> table res" where
  "set_in sect k v raw =
     (case map_of raw sect of
        None \<Rightarrow> Inr (AList.update sect (TTab [(k, v)]) raw)
      | Some (TTab t) \<Rightarrow> Inr (AList.update sect (TTab (AList.update k v t)) raw)
      | Some _ \<Rightarrow> Inl TypeError)"

definition override :: "string option \<Rightarrow> string \<Rightarrow> string \<Rightarrow> table \<Rightarrow> load_error + table" where
  "override env sect k raw =
     (case env of
        None \<Rightarrow> Inr raw
      | Some s \<Rightarrow> if s = [] then Inr raw
                 else case set_in sect k (TStr s) raw of Inl e \<Rightarrow> Inl (Uncaught e) | Inr raw' \<Rightarrow> Inr raw')"

definition override_port :: "string option \<Rightarrow> table \<Rightarrow> load_error + table" where
  "override_port env raw =
     (case env of
        None \<Rightarrow> Inr raw
      | Some s \<Rightarrow>
          if s = [] then Inr raw
          else case py_int s of
             None \<Rightarrow> Inl (ConfigError ''AI_HA_WEB_PORT must be an integer'')
           | Some p \<Rightarrow> (case set_in ''web'' ''port'' (TInt p) raw of
               Inl e \<Rightarrow> Inl (Uncaught e) | Inr raw' \<Rightarrow> Inr raw'))"

definition apply_env_overrides :: "environ \<Rightarrow> table \<Rightarrow> load_error + table" where
  "apply_env_overrides env raw =
     (case override (en_ha_url env) ''ha'' ''url'' raw of
        Inl e \<Rightarrow> Inl e
      | Inr raw \<Rightarrow>
     (case override (en_ha_token env) ''ha'' ''token'' raw of
        Inl e \<Rightarrow> Inl e
      | Inr raw \<Rightarrow> override_port (en_web_port env) raw))"

text \<open>What reading the file gives: its text, an \<open>OSError\<close>, or bytes that are not UTF-8.\<close>

datatype file_text = Text string | Unreadable | NotUtf8

definition load_config ::
  "(string \<Rightarrow> table option) \<Rightarrow> coercions \<Rightarrow> environ \<Rightarrow> file_text \<Rightarrow> load_error + app_config" where
  "load_config parse co env f =
     (case f of
        Unreadable \<Rightarrow> Inl (ConfigError ''config file IO error'')
      | NotUtf8 \<Rightarrow> Inl (Uncaught ValueError)
      | Text s \<Rightarrow>
          (case parse s of
             None \<Rightarrow> Inl (ConfigError ''TOML parse error'')
           | Some raw \<Rightarrow>
               (case apply_env_overrides env raw of
                  Inl e \<Rightarrow> Inl e
                | Inr raw \<Rightarrow>
                    (case model_validate co raw of
                       None \<Rightarrow> Inl (ConfigError ''config validation failed'')
                     | Some cfg \<Rightarrow> Inr cfg))))"

section \<open>Overrides\<close>

definition is_table :: "string \<Rightarrow> table \<Rightarrow> bool" where
  "is_table k t \<longleftrightarrow> (case map_of t k of None \<Rightarrow> True | Some (TTab _) \<Rightarrow> True | _ \<Rightarrow> False)"

text \<open>The field \<open>k\<close> of the section \<open>sect\<close>.\<close>

definition at_path :: "string \<Rightarrow> string \<Rightarrow> table \<Rightarrow> toml option" where
  "at_path sect k t = (case map_of t sect of Some (TTab s) \<Rightarrow> map_of s k | _ \<Rightarrow> None)"

lemma set_in_cases:
  assumes "set_in sect k v raw = Inr raw'"
  obtains t where "raw' = AList.update sect (TTab (AList.update k v t)) raw"
    "is_table sect raw" "\<And>q. map_of t q = at_path sect q raw"
proof (cases "map_of raw sect")
  case None
  with assms show thesis
    by (intro that [of "[]"]) (simp_all add: set_in_def is_table_def at_path_def)
next
  case (Some x)
  then show thesis
  proof (cases x)
    case (TTab t)
    with Some assms show thesis
      by (intro that [of t]) (simp_all add: set_in_def is_table_def at_path_def)
  qed (use Some assms in \<open>simp_all add: set_in_def\<close>)
qed

lemma set_in_facts:
  assumes "set_in sect k v raw = Inr raw'"
  shows "at_path s q raw' = (if s = sect \<and> q = k then Some v else at_path s q raw)"
    and "s \<noteq> sect \<Longrightarrow> map_of raw' s = map_of raw s" and "is_table s raw' = is_table s raw"
proof -
  obtain t where t: "raw' = AList.update sect (TTab (AList.update k v t)) raw" "is_table sect raw"
    "\<And>q. map_of t q = at_path sect q raw" using set_in_cases [OF assms] by metis
  show "s \<noteq> sect \<Longrightarrow> map_of raw' s = map_of raw s" by (simp add: t(1) update_conv')
  show "at_path s q raw' = (if s = sect \<and> q = k then Some v else at_path s q raw)"
  proof (cases "s = sect")
    case True
    have "at_path sect q raw' = (if q = k then Some v else map_of t q)"
      by (simp add: at_path_def t(1) update_conv')
    with True t(3) show ?thesis by simp
  next
    case False
    then show ?thesis by (simp add: at_path_def t(1) update_conv')
  qed
  show "is_table s raw' = is_table s raw"
    using t(2) by (cases "s = sect") (simp_all add: is_table_def t(1) update_conv')
qed

lemma set_in_Inl: "set_in sect k v raw = Inl e \<longleftrightarrow> e = TypeError \<and> \<not> is_table sect raw"
  by (auto simp: set_in_def is_table_def split: option.split toml.split)

lemma override_facts:
  assumes "override env sect k raw = Inr raw'"
  shows "at_path s q raw' = (if s = sect \<and> q = k \<and> truthy env then map_option TStr env else at_path s q raw)"
    and "s \<noteq> sect \<Longrightarrow> map_of raw' s = map_of raw s" and "is_table s raw' = is_table s raw"
proof -
  have "raw' = raw \<and> \<not> truthy env \<or> (\<exists>x. env = Some x \<and> x \<noteq> [] \<and> set_in sect k (TStr x) raw = Inr raw')"
    using assms by (auto simp: override_def split: option.splits if_splits sum.splits)
  then show "at_path s q raw' = (if s = sect \<and> q = k \<and> truthy env then map_option TStr env else at_path s q raw)"
    "s \<noteq> sect \<Longrightarrow> map_of raw' s = map_of raw s" "is_table s raw' = is_table s raw"
    by (auto simp: set_in_facts)
qed

lemma override_Inl:
  "override env sect k raw = Inl e \<longleftrightarrow> e = Uncaught TypeError \<and> truthy env \<and> \<not> is_table sect raw"
  by (auto simp: override_def set_in_def is_table_def split: option.split sum.split toml.split)

lemma override_port_facts:
  assumes "override_port env raw = Inr raw'"
  shows "at_path s q raw' = (if s = ''web'' \<and> q = ''port'' \<and> truthy env then map_option TInt (py_int (the env)) else at_path s q raw)"
    and "s \<noteq> ''web'' \<Longrightarrow> map_of raw' s = map_of raw s"
proof -
  have "raw' = raw \<and> \<not> truthy env \<or> (\<exists>x p. env = Some x \<and> x \<noteq> [] \<and> py_int x = Some p \<and>
      set_in ''web'' ''port'' (TInt p) raw = Inr raw')"
    using assms by (auto simp: override_port_def split: option.splits if_splits sum.splits)
  then show "at_path s q raw' = (if s = ''web'' \<and> q = ''port'' \<and> truthy env then map_option TInt (py_int (the env)) else at_path s q raw)"
    "s \<noteq> ''web'' \<Longrightarrow> map_of raw' s = map_of raw s"
    by (auto simp: set_in_facts)
qed

text \<open>After the overrides, each of the three settings is the variable's where it is set and not empty.\<close>

lemma overrides_facts:
  assumes "apply_env_overrides env raw = Inr raw'"
  shows "at_path ''ha'' ''url'' raw' = (if truthy (en_ha_url env) then map_option TStr (en_ha_url env) else at_path ''ha'' ''url'' raw)"
    and "at_path ''ha'' ''token'' raw' = (if truthy (en_ha_token env) then map_option TStr (en_ha_token env) else at_path ''ha'' ''token'' raw)"
    and "at_path ''web'' ''port'' raw' = (if truthy (en_web_port env) then map_option TInt (py_int (the (en_web_port env))) else at_path ''web'' ''port'' raw)"
    and "s \<noteq> ''ha'' \<Longrightarrow> s \<noteq> ''web'' \<Longrightarrow> map_of raw' s = map_of raw s"
proof -
  obtain r1 r2 where 1: "override (en_ha_url env) ''ha'' ''url'' raw = Inr r1"
    and 2: "override (en_ha_token env) ''ha'' ''token'' r1 = Inr r2"
    and 3: "override_port (en_web_port env) r2 = Inr raw'"
    using assms by (auto simp: apply_env_overrides_def split: sum.splits)
  note f = override_facts [OF 1] override_facts [OF 2] override_port_facts [OF 3]
  show "at_path ''ha'' ''url'' raw' = (if truthy (en_ha_url env) then map_option TStr (en_ha_url env) else at_path ''ha'' ''url'' raw)"
    "at_path ''ha'' ''token'' raw' = (if truthy (en_ha_token env) then map_option TStr (en_ha_token env) else at_path ''ha'' ''token'' raw)"
    "at_path ''web'' ''port'' raw' = (if truthy (en_web_port env) then map_option TInt (py_int (the (en_web_port env))) else at_path ''web'' ''port'' raw)"
    "s \<noteq> ''ha'' \<Longrightarrow> s \<noteq> ''web'' \<Longrightarrow> map_of raw' s = map_of raw s"
    by (simp_all add: f)
qed

section \<open>What a loaded configuration holds\<close>

definition plain :: "coercions \<Rightarrow> bool" where
  "plain co \<longleftrightarrow> (\<forall>s. co_str co (TStr s) = Some s) \<and> (\<forall>i. co_int co (TInt i) = Some i)"

lemma validate_ha_Some:
  "validate_ha co h = Some x \<Longrightarrow>
     (\<exists>v. map_of h ''url'' = Some v \<and> co_str co v = Some (ha_url x)) \<and>
     (\<exists>v. map_of h ''token'' = Some v \<and> co_str co v = Some (ha_token x))"
  by (auto simp: validate_ha_def required_def min_length_1_def split: option.splits if_splits)

lemma validate_web_Some:
  "validate_web co h = Some x \<Longrightarrow> map_of h ''port'' = Some v \<Longrightarrow> co_int co v = Some (wb_port x)"
  by (auto simp: validate_web_def field_def split: option.splits)

lemma validate_ha_facts:
  assumes "model_validate co t = Some cfg"
  shows "\<exists>v. at_path ''ha'' ''url'' t = Some v \<and> co_str co v = Some (ha_url (cf_ha cfg))"
    and "\<exists>v. at_path ''ha'' ''token'' t = Some v \<and> co_str co v = Some (ha_token (cf_ha cfg))"
proof -
  have req: "required (model (validate_ha co)) ''ha'' t = Some (cf_ha cfg)"
    using assms by (auto simp: model_validate_def split: option.splits)
  then obtain h where h: "map_of t ''ha'' = Some (TTab h)" "validate_ha co h = Some (cf_ha cfg)"
    by (auto simp: required_def model_def split: option.splits toml.splits)
  then show "\<exists>v. at_path ''ha'' ''url'' t = Some v \<and> co_str co v = Some (ha_url (cf_ha cfg))"
    "\<exists>v. at_path ''ha'' ''token'' t = Some v \<and> co_str co v = Some (ha_token (cf_ha cfg))"
    using validate_ha_Some [OF h(2)] by (simp_all add: at_path_def)
qed

lemma validate_web_port:
  assumes "model_validate co t = Some cfg" and "at_path ''web'' ''port'' t = Some v"
  shows "co_int co v = Some (wb_port (cf_web cfg))"
proof -
  obtain h where h: "map_of t ''web'' = Some (TTab h)" "map_of h ''port'' = Some v"
    using assms(2) by (auto simp: at_path_def split: option.splits toml.splits)
  have "section_of (validate_web co) ''web'' t = Some (cf_web cfg)"
    using assms(1) by (auto simp: model_validate_def split: option.splits)
  then have "validate_web co h = Some (cf_web cfg)" by (simp add: section_of_def model_def h(1))
  from validate_web_Some [OF this h(2)] show ?thesis .
qed

lemma load_config_Inr:
  assumes "load_config parse co env f = Inr cfg"
  obtains s raw raw' where "f = Text s" "parse s = Some raw" "apply_env_overrides env raw = Inr raw'"
    "model_validate co raw' = Some cfg"
  using assms by (auto simp: load_config_def split: file_text.splits option.splits sum.splits)

lemma overrides_uncaught:
  "(\<exists>e. apply_env_overrides env raw = Inl (Uncaught e)) \<longleftrightarrow>
    (truthy (en_ha_url env) \<or> truthy (en_ha_token env)) \<and> \<not> is_table ''ha'' raw \<or>
     truthy (en_web_port env) \<and> py_int (the (en_web_port env)) \<noteq> None \<and> \<not> is_table ''web'' raw"
proof (cases "override (en_ha_url env) ''ha'' ''url'' raw")
  case (Inl e)
  with override_Inl [of "en_ha_url env" "''ha''" "''url''" raw e] show ?thesis
    by (simp add: apply_env_overrides_def)
next
  case 1: (Inr r1)
  have n1: "\<not> (truthy (en_ha_url env) \<and> \<not> is_table ''ha'' raw)"
    using override_Inl [of "en_ha_url env" "''ha''" "''url''" raw "Uncaught TypeError"] 1 by auto
  show ?thesis
  proof (cases "override (en_ha_token env) ''ha'' ''token'' r1")
    case (Inl e)
    with override_Inl [of "en_ha_token env" "''ha''" "''token''" r1 e] override_facts(3) [OF 1] 1 show ?thesis
      by (simp add: apply_env_overrides_def)
  next
    case 2: (Inr r2)
    have n2: "\<not> (truthy (en_ha_token env) \<and> \<not> is_table ''ha'' raw)"
      using override_Inl [of "en_ha_token env" "''ha''" "''token''" r1 "Uncaught TypeError"] 2 override_facts(3) [OF 1] by auto
    have w: "is_table ''web'' r2 = is_table ''web'' raw" using override_facts(3) [OF 1] override_facts(3) [OF 2] by simp
    have "(\<exists>e. override_port (en_web_port env) r2 = Inl (Uncaught e)) \<longleftrightarrow>
        truthy (en_web_port env) \<and> py_int (the (en_web_port env)) \<noteq> None \<and> \<not> is_table ''web'' r2"
      by (cases "en_web_port env") (auto simp: override_port_def set_in_Inl split: option.split sum.split,
        auto simp: set_in_def is_table_def split: option.splits toml.splits)
    with 1 2 n1 n2 w show ?thesis by (auto simp: apply_env_overrides_def)
  qed
qed

lemma load_uncaught:
  "(\<exists>e. load_config parse co env f = Inl (Uncaught e)) \<longleftrightarrow>
    f = NotUtf8 \<or> (\<exists>s raw. f = Text s \<and> parse s = Some raw \<and>
      ((truthy (en_ha_url env) \<or> truthy (en_ha_token env)) \<and> \<not> is_table ''ha'' raw \<or>
       truthy (en_web_port env) \<and> py_int (the (en_web_port env)) \<noteq> None \<and> \<not> is_table ''web'' raw))"
proof (cases f)
  case (Text x)
  show ?thesis
  proof (cases "parse x")
    case None
    with Text show ?thesis by (simp add: load_config_def)
  next
    case (Some raw)
    have "(\<exists>e. load_config parse co env f = Inl (Uncaught e)) \<longleftrightarrow>
        (\<exists>e. apply_env_overrides env raw = Inl (Uncaught e))"
      by (cases "apply_env_overrides env raw") (simp_all add: load_config_def Text Some split: option.split)
    with overrides_uncaught [of env raw] Text Some show ?thesis by simp
  qed
qed (simp_all add: load_config_def)

text \<open>
  C40. A configuration that loads takes the address and the token of Home Assistant and the port of the web
  interface from the environment where the variable is set and not empty; loading raises
  something else than \<open>ConfigError\<close> exactly when the file is not UTF-8, or an override
  meets a section that is not a table.
\<close>

theorem environment_overrides_the_file:
  assumes "plain co"
  shows "(\<forall>cfg. load_config parse co env f = Inr cfg \<longrightarrow>
      (truthy (en_ha_url env) \<longrightarrow> Some (ha_url (cf_ha cfg)) = en_ha_url env) \<and>
      (truthy (en_ha_token env) \<longrightarrow> Some (ha_token (cf_ha cfg)) = en_ha_token env) \<and>
      (truthy (en_web_port env) \<longrightarrow> Some (wb_port (cf_web cfg)) = py_int (the (en_web_port env)))) \<and>
    ((\<exists>e. load_config parse co env f = Inl (Uncaught e)) \<longleftrightarrow>
      f = NotUtf8 \<or> (\<exists>s raw. f = Text s \<and> parse s = Some raw \<and>
        ((truthy (en_ha_url env) \<or> truthy (en_ha_token env)) \<and> \<not> is_table ''ha'' raw \<or>
         truthy (en_web_port env) \<and> py_int (the (en_web_port env)) \<noteq> None \<and> \<not> is_table ''web'' raw)))"
proof (intro conjI allI impI)
  fix cfg assume l: "load_config parse co env f = Inr cfg"
  obtain s raw raw' where r: "apply_env_overrides env raw = Inr raw'" "model_validate co raw' = Some cfg"
    using load_config_Inr [OF l] by metis
  note o = overrides_facts [OF r(1)]
  show "Some (ha_url (cf_ha cfg)) = en_ha_url env" if "truthy (en_ha_url env)"
    using validate_ha_facts(1) [OF r(2)] o(1) that assms by (auto simp: plain_def)
  show "Some (ha_token (cf_ha cfg)) = en_ha_token env" if "truthy (en_ha_token env)"
    using validate_ha_facts(2) [OF r(2)] o(2) that assms by (auto simp: plain_def)
  show "Some (wb_port (cf_web cfg)) = py_int (the (en_web_port env))" if t: "truthy (en_web_port env)"
  proof -
    have "py_int (the (en_web_port env)) \<noteq> None"
      using r(1) t by (auto simp: apply_env_overrides_def override_port_def elim!: truthyE split: sum.splits option.splits)
    then obtain p where p: "py_int (the (en_web_port env)) = Some p" by blast
    then have "at_path ''web'' ''port'' raw' = Some (TInt p)" using o(3) t by simp
    from validate_web_port [OF r(2) this] assms p show ?thesis by (simp add: plain_def)
  qed
qed (rule load_uncaught)

text \<open>Strict coercions: a field takes the values of its own type.\<close>

definition strict :: coercions where
  "strict = \<lparr>co_str = \<lambda>v. case v of TStr s \<Rightarrow> Some s | _ \<Rightarrow> None,
     co_int = \<lambda>v. case v of TInt i \<Rightarrow> Some i | _ \<Rightarrow> None,
     co_bool = \<lambda>v. case v of TBool b \<Rightarrow> Some b | _ \<Rightarrow> None,
     co_float = \<lambda>v. case v of TFloat s \<Rightarrow> Some s | _ \<Rightarrow> None\<rparr>"

lemma plain_strict: "plain strict"
  by (simp add: plain_def strict_def)

theorem environment_overrides_the_file_witness:
  "let env = \<lparr>en_ha_url = Some ''env'', en_ha_token = Some [], en_web_port = Some ''81''\<rparr>;
       good = [(''ha'', TTab [(''url'', TStr ''file''), (''token'', TStr ''t'')])] :: table;
       bad = [(''ha'', TStr ''x'')] :: table in
   (\<forall>cfg. load_config (\<lambda>_. Some good) strict env (Text ''s'') = Inr cfg \<longrightarrow>
      ha_url (cf_ha cfg) = ''env'' \<and> Some (wb_port (cf_web cfg)) = py_int ''81'') \<and>
   (\<exists>e. load_config (\<lambda>_. Some bad) strict env (Text ''s'') = Inl (Uncaught e))"
proof -
  define env where "env = \<lparr>en_ha_url = Some ''env'', en_ha_token = Some [], en_web_port = Some ''81''\<rparr>"
  note t = environment_overrides_the_file [OF plain_strict, where env = env]
  have "\<exists>e. load_config (\<lambda>_. Some [(''ha'', TStr ''x'')]) strict env (Text ''s'') = Inl (Uncaught e)"
    using t [where parse = "\<lambda>_. Some [(''ha'', TStr ''x'')]" and f = "Text ''s''"]
    by (simp add: env_def is_table_def)
  moreover have "ha_url (cf_ha cfg) = ''env'' \<and> Some (wb_port (cf_web cfg)) = py_int ''81''"
    if "load_config parse strict env (Text ''s'') = Inr cfg" for parse cfg
    using t [where parse = parse and f = "Text ''s''"] that by (simp add: env_def)
  ultimately show ?thesis by (simp add: Let_def env_def)
qed

lemma a_file_that_loads:
  "\<exists>cfg. load_config (\<lambda>_. Some [(''ha'', TTab [(''url'', TStr ''file''), (''token'', TStr ''t'')])]) strict
     \<lparr>en_ha_url = Some ''env'', en_ha_token = Some [], en_web_port = None\<rparr> (Text ''s'') = Inr cfg"
  by (simp add: load_config_def apply_env_overrides_def override_def override_port_def set_in_def model_validate_def
      required_def section_of_def model_def strict_def validate_ha_def validate_behavior_def validate_digest_def
      validate_llm_def validate_audit_def validate_privacy_def validate_web_def validate_soft_intention_def
      validate_archive_def field_def min_length_1_def)

end
