(* ===== verification/Settings.thy ===== *)
theory Settings
  imports Config Auth
begin

text \<open>
  The privacy settings: the routes of \<open>src/ai_ha/web/routes/settings.py\<close>, the reload by
  \<open>ConfigWatcher\<close> (\<open>config/watcher.py\<close>) and \<open>on_cfg_change\<close> of \<open>main.py\<close>. \<open>tomllib.loads\<close> and \<open>tomli_w.dumps\<close> are the
  parameters \<open>parse\<close> and \<open>render\<close>; writing the file succeeds. The state is the part of
  the application these operations touch.
\<close>

section \<open>State\<close>

record privacy_state =
  ps_file :: file_text                 \<comment> \<open>\<open>config.toml\<close>\<close>
  ps_hide_pattern :: "string list"     \<comment> \<open>\<open>AppState.hide_pattern\<close>\<close>
  ps_matcher :: hide_matcher           \<comment> \<open>\<open>pipeline._hide\<close>\<close>
  ps_reload_fails :: int               \<comment> \<open>calls of \<open>health.inc_config_reload_fail\<close>\<close>
  ps_watching :: bool                  \<comment> \<open>the task of \<open>ConfigWatcher.run\<close> is alive\<close>

record privacy_view =
  vw_hide_entities_pattern :: "string list"
  vw_allow_cloud_llm_with_digest :: bool

section \<open>Routes\<close>

definition get_privacy :: "privacy_state option \<Rightarrow> privacy_view" where
  "get_privacy state =
     (case state of
        None \<Rightarrow> \<lparr>vw_hide_entities_pattern = [], vw_allow_cloud_llm_with_digest = False\<rparr>
      | Some s \<Rightarrow> \<lparr>vw_hide_entities_pattern = ps_hide_pattern s, vw_allow_cloud_llm_with_digest = False\<rparr>)"

text \<open>The \<open>hide_pattern\<close> that \<open>settings_page\<close> of \<open>web/routes/pages.py\<close> renders.\<close>

definition settings_page :: "privacy_state option \<Rightarrow> string list" where
  "settings_page state = (case state of None \<Rightarrow> [] | Some s \<Rightarrow> ps_hide_pattern s)"

definition strings :: "string list \<Rightarrow> toml" where
  "strings ps = TArr (map TStr ps)"

definition update_privacy ::
  "(string \<Rightarrow> table option) \<Rightarrow> (table \<Rightarrow> string) \<Rightarrow> (string \<Rightarrow> (string \<Rightarrow> bool) option)
    \<Rightarrow> string list \<Rightarrow> privacy_state option \<Rightarrow> privacy_view http \<times> privacy_state option" where
  "update_privacy parse render compile patterns state =
     (case state of
        None \<Rightarrow> (Inl (HTTPException 503 []), None)
      | Some s \<Rightarrow>
          (case make_hide_matcher compile patterns of
             Inl e \<Rightarrow> (Inl (HTTPException 422 ''hide-pattern-invalid''), state)
           | Inr _ \<Rightarrow>
               (case ps_file s of
                  Unreadable \<Rightarrow> (Inl (Unhandled OSError), state)
                | NotUtf8 \<Rightarrow> (Inl (Unhandled ValueError), state)
                | Text x \<Rightarrow>
                    (case parse x of
                       None \<Rightarrow> (Inl (Unhandled ValueError), state)
                     | Some raw \<Rightarrow>
                         (case set_in ''privacy'' ''hide_entities_pattern'' (strings patterns) raw of
                            Inl e \<Rightarrow> (Inl (Unhandled e), state)
                          | Inr raw \<Rightarrow>
                              (Inr \<lparr>vw_hide_entities_pattern = patterns, vw_allow_cloud_llm_with_digest = False\<rparr>,
                               Some (s\<lparr>ps_file := Text (render raw)\<rparr>)))))))"

text \<open>The body of the request; a list that is left out is empty, and the flag is not read.\<close>

record privacy_payload =
  py_hide_entities_pattern :: "string list option"
  py_allow_cloud_llm_with_digest :: "bool option"

definition post_privacy ::
  "(string \<Rightarrow> table option) \<Rightarrow> (table \<Rightarrow> string) \<Rightarrow> (string \<Rightarrow> (string \<Rightarrow> bool) option)
    \<Rightarrow> privacy_payload \<Rightarrow> privacy_state option \<Rightarrow> privacy_view http \<times> privacy_state option" where
  "post_privacy parse render compile payload state =
     update_privacy parse render compile
       (case py_hide_entities_pattern payload of None \<Rightarrow> [] | Some patterns \<Rightarrow> patterns) state"

section \<open>Reload\<close>

definition on_cfg_change ::
  "(string \<Rightarrow> (string \<Rightarrow> bool) option) \<Rightarrow> app_config \<Rightarrow> privacy_state \<Rightarrow> privacy_state" where
  "on_cfg_change compile new_cfg s =
     (case make_hide_matcher compile (pv_hide_entities_pattern (cf_privacy new_cfg)) of
        Inl e \<Rightarrow> s\<lparr>ps_reload_fails := ps_reload_fails s + 1\<rparr>
      | Inr new_matcher \<Rightarrow>
          s\<lparr>ps_matcher := new_matcher, ps_hide_pattern := pv_hide_entities_pattern (cf_privacy new_cfg)\<rparr>)"

text \<open>
  One change of the file that \<open>awatch\<close> reports. Without \<open>on_error\<close>, as in \<open>main.py\<close>, a \<open>ConfigError\<close> only
  leaves a warning; any other exception ends the task.
\<close>

definition watcher_turn ::
  "(string \<Rightarrow> table option) \<Rightarrow> coercions \<Rightarrow> environ \<Rightarrow> (string \<Rightarrow> (string \<Rightarrow> bool) option)
    \<Rightarrow> privacy_state \<Rightarrow> privacy_state" where
  "watcher_turn parse co env compile s =
     (if \<not> ps_watching s then s
      else case load_config parse co env (ps_file s) of
        Inl (ConfigError _) \<Rightarrow> s
      | Inl (Uncaught _) \<Rightarrow> s\<lparr>ps_watching := False\<rparr>
      | Inr cfg \<Rightarrow> on_cfg_change compile cfg s)"

section \<open>Loading after a change of the patterns\<close>

text \<open>Two tables that differ in the section \<open>privacy\<close> only.\<close>

definition same_but :: "string \<Rightarrow> table \<Rightarrow> table \<Rightarrow> bool" where
  "same_but k t u \<longleftrightarrow> (\<forall>s. s \<noteq> k \<longrightarrow> map_of t s = map_of u s)"

lemma set_in_same_but:
  assumes "same_but k t u" and "sect \<noteq> k" and "set_in sect f v t = Inr t'"
  shows "\<exists>u'. set_in sect f v u = Inr u' \<and> same_but k t' u'"
proof -
  have "map_of u sect = map_of t sect" using assms(1,2) by (simp add: same_but_def)
  with assms(1,3) show ?thesis
    by (cases "map_of t sect") (auto simp: set_in_def same_but_def update_conv' split: toml.splits)
qed

lemma override_same_but:
  assumes "same_but k t u" and "sect \<noteq> k" and "override e sect f t = Inr t'"
  shows "\<exists>u'. override e sect f u = Inr u' \<and> same_but k t' u'"
proof (cases "e = None \<or> e = Some []")
  case True
  then show ?thesis using assms by (auto simp: override_def)
next
  case False
  then obtain x where x: "e = Some x" "x \<noteq> []" by auto
  then have "set_in sect f (TStr x) t = Inr t'" using assms(3) by (auto simp: override_def split: sum.splits)
  from set_in_same_but [OF assms(1,2) this] x show ?thesis by (auto simp: override_def)
qed

lemma override_port_same_but:
  assumes "same_but k t u" and "''web'' \<noteq> k" and "override_port e t = Inr t'"
  shows "\<exists>u'. override_port e u = Inr u' \<and> same_but k t' u'"
proof (cases "e = None \<or> e = Some []")
  case True
  then show ?thesis using assms by (auto simp: override_port_def)
next
  case False
  then obtain x where x: "e = Some x" "x \<noteq> []" by auto
  with assms(3) obtain p where p: "py_int x = Some p" "set_in ''web'' ''port'' (TInt p) t = Inr t'"
    by (auto simp: override_port_def split: option.splits sum.splits)
  from set_in_same_but [OF assms(1,2) p(2)] x p(1) show ?thesis by (auto simp: override_port_def)
qed

lemma apply_env_overrides_same_but:
  assumes "same_but ''privacy'' t u" and "apply_env_overrides env t = Inr t'"
  obtains u' where "apply_env_overrides env u = Inr u'" "same_but ''privacy'' t' u'"
proof -
  from assms(2) obtain t1 t2 where t: "override (en_ha_url env) ''ha'' ''url'' t = Inr t1"
    "override (en_ha_token env) ''ha'' ''token'' t1 = Inr t2" "override_port (en_web_port env) t2 = Inr t'"
    by (auto simp: apply_env_overrides_def split: sum.splits)
  obtain u1 where 1: "override (en_ha_url env) ''ha'' ''url'' u = Inr u1" "same_but ''privacy'' t1 u1"
    using override_same_but [OF assms(1) _ t(1)] by auto
  obtain u2 where 2: "override (en_ha_token env) ''ha'' ''token'' u1 = Inr u2" "same_but ''privacy'' t2 u2"
    using override_same_but [OF 1(2) _ t(2)] by auto
  obtain u' where 3: "override_port (en_web_port env) u2 = Inr u'" "same_but ''privacy'' t' u'"
    using override_port_same_but [OF 2(2) _ t(3)] by auto
  show thesis by (rule that [OF _ 3(2)]) (simp add: apply_env_overrides_def 1 2 3)
qed

text \<open>The section of the patterns after \<open>set_in\<close>, read back.\<close>

lemma all_some_map: "all_some (map Some xs) = Some xs"
  by (induction xs) simp_all

lemma list_of_strings: "plain co \<Longrightarrow> list_of (co_str co) (strings ps) = Some ps"
  by (simp add: list_of_def strings_def plain_def comp_def all_some_map)

lemma validate_privacy_update:
  assumes "plain co" and "validate_privacy co t = Some p"
  shows "validate_privacy co (AList.update ''hide_entities_pattern'' (strings ps) t) = Some (p\<lparr>pv_hide_entities_pattern := ps\<rparr>)"
  using assms(2) list_of_strings [OF assms(1), of ps]
  by (auto simp: validate_privacy_def field_def update_conv' split: option.splits)

lemma section_privacy_update:
  assumes "plain co" and "section_of (validate_privacy co) ''privacy'' t = Some p"
    and "set_in ''privacy'' ''hide_entities_pattern'' (strings ps) t = Inr t'"
  shows "section_of (validate_privacy co) ''privacy'' t' = Some (p\<lparr>pv_hide_entities_pattern := ps\<rparr>)"
proof (cases "map_of t ''privacy''")
  case None
  with assms(2) have "validate_privacy co [] = Some p" by (simp add: section_of_def)
  from validate_privacy_update [OF assms(1) this, of ps] None assms(3) show ?thesis
    by (auto simp: set_in_def section_of_def model_def update_conv')
next
  case (Some x)
  with assms(3) obtain s where x: "x = TTab s" by (cases x) (auto simp: set_in_def)
  with Some assms(2) have "validate_privacy co s = Some p" by (simp add: section_of_def model_def)
  from validate_privacy_update [OF assms(1) this, of ps] Some x assms(3) show ?thesis
    by (auto simp: set_in_def section_of_def model_def update_conv')
qed

lemma model_validate_same_but:
  assumes "same_but ''privacy'' t u" and "model_validate co t = Some cfg"
    and "section_of (validate_privacy co) ''privacy'' u = Some p"
  shows "model_validate co u = Some (cfg\<lparr>cf_privacy := p\<rparr>)"
proof -
  have s: "map_of u k = map_of t k" if "k \<noteq> ''privacy''" for k
    using assms(1) that by (simp add: same_but_def)
  have sec: "section_of f k u = section_of f k t" if "k \<noteq> ''privacy''" for f :: "table \<Rightarrow> 'a option" and k
    using s [OF that] by (simp add: section_of_def)
  have req: "required f ''ha'' u = required f ''ha'' t" for f :: "toml \<Rightarrow> 'a option"
    using s [of "''ha''"] by (simp add: required_def)
  from assms(2,3) show ?thesis
    by (auto simp: model_validate_def sec req split: option.splits)
qed

lemma section_of_cong: "map_of t k = map_of u k \<Longrightarrow> section_of f k t = section_of f k u"
  by (simp add: section_of_def)

text \<open>What \<open>tomli_w\<close> writes for an update, \<open>tomllib\<close> reads back.\<close>

definition reads_back ::
  "(string \<Rightarrow> table option) \<Rightarrow> (table \<Rightarrow> string) \<Rightarrow> string list \<Rightarrow> privacy_state \<Rightarrow> bool" where
  "reads_back parse render ps s \<longleftrightarrow>
     (case ps_file s of
        Text x \<Rightarrow>
          (case parse x of
             None \<Rightarrow> True
           | Some raw \<Rightarrow>
               (case set_in ''privacy'' ''hide_entities_pattern'' (strings ps) raw of
                  Inl _ \<Rightarrow> True
                | Inr raw' \<Rightarrow> parse (render raw') = Some raw'))
      | _ \<Rightarrow> True)"

lemma model_validate_privacy:
  "model_validate co t = Some cfg \<Longrightarrow> section_of (validate_privacy co) ''privacy'' t = Some (cf_privacy cfg)"
  by (auto simp: model_validate_def split: option.splits)

lemma load_after_update:
  assumes "plain co" and "parse x = Some raw" and "load_config parse co env (Text x) = Inr cfg"
    and set: "set_in ''privacy'' ''hide_entities_pattern'' (strings ps) raw = Inr raw'"
    and "parse x' = Some raw'"
  shows "load_config parse co env (Text x') =
    Inr (cfg\<lparr>cf_privacy := (cf_privacy cfg)\<lparr>pv_hide_entities_pattern := ps\<rparr>\<rparr>)"
proof -
  obtain r where r: "apply_env_overrides env raw = Inr r" "model_validate co r = Some cfg"
    using load_config_Inr [OF assms(3)] assms(2) by (metis file_text.inject option.inject)
  have "same_but ''privacy'' raw raw'" using set_in_facts(2) [OF set] by (simp add: same_but_def)
  then obtain r' where r': "apply_env_overrides env raw' = Inr r'" "same_but ''privacy'' r r'"
    using apply_env_overrides_same_but r(1) by blast
  have kept: "section_of (validate_privacy co) ''privacy'' r = section_of (validate_privacy co) ''privacy'' raw"
    "section_of (validate_privacy co) ''privacy'' r' = section_of (validate_privacy co) ''privacy'' raw'"
    by (rule section_of_cong, rule overrides_facts(4) [OF r(1)]; simp)
      (rule section_of_cong, rule overrides_facts(4) [OF r'(1)]; simp)
  from section_privacy_update [OF assms(1) model_validate_privacy [OF r(2), unfolded kept(1)] set]
  have "section_of (validate_privacy co) ''privacy'' r' = Some ((cf_privacy cfg)\<lparr>pv_hide_entities_pattern := ps\<rparr>)"
    by (simp add: kept(2))
  from model_validate_same_but [OF r'(2) r(2) this] show ?thesis
    by (simp add: load_config_def assms(5) r'(1))
qed

lemma update_privacy_Inr:
  assumes "update_privacy parse render compile ps (Some s) = (Inr v, Some s')"
  obtains m x raw raw' where "make_hide_matcher compile ps = Inr m" "ps_file s = Text x"
    "parse x = Some raw" "set_in ''privacy'' ''hide_entities_pattern'' (strings ps) raw = Inr raw'"
    "s' = s\<lparr>ps_file := Text (render raw')\<rparr>"
    "v = \<lparr>vw_hide_entities_pattern = ps, vw_allow_cloud_llm_with_digest = False\<rparr>"
  using assms by (auto simp: update_privacy_def split: sum.splits file_text.splits option.splits)

text \<open>
  New privacy patterns: an accepted update changes the file only, and the pipeline keeps
  the patterns it had; at the watcher's next turn an entity is hidden exactly when one of the new
  patterns matches its whole id, and the settings page and route show the new list. A refused update changes nothing.
\<close>

theorem update_and_reload_install_the_patterns:
  assumes "plain co" and "reads_back parse render ps s"
    and "load_config parse co env (ps_file s) = Inr cfg" and "ps_watching s"
  shows "(case update_privacy parse render compile ps (Some s) of
      (Inl e, s') \<Rightarrow> s' = Some s
    | (Inr v, s') \<Rightarrow> \<exists>t. s' = Some (s\<lparr>ps_file := t\<rparr>) \<and>
        (let s'' = watcher_turn parse co env compile (s\<lparr>ps_file := t\<rparr>) in
         (\<forall>eid. matches (ps_matcher s'') eid \<longleftrightarrow> (\<exists>p \<in> set ps. \<exists>f. compile p = Some f \<and> f eid)) \<and>
         get_privacy (Some s'') = v \<and> settings_page (Some s'') = ps \<and> vw_hide_entities_pattern v = ps \<and> ps_watching s''))"
proof -
  obtain r s1 where eq: "update_privacy parse render compile ps (Some s) = (r, s1)" by fastforce
  show ?thesis
  proof (cases r)
    case (Inl e)
    with eq have "s1 = Some s"
      by (auto simp: update_privacy_def split: sum.splits file_text.splits option.splits)
    with eq Inl show ?thesis by simp
  next
    case (Inr v)
    obtain s' where "s1 = Some s'"
      using eq Inr by (auto simp: update_privacy_def split: sum.splits file_text.splits option.splits)
    with eq Inr obtain m x raw raw' where u: "make_hide_matcher compile ps = Inr m" "ps_file s = Text x"
      "parse x = Some raw" "set_in ''privacy'' ''hide_entities_pattern'' (strings ps) raw = Inr raw'"
      "s1 = Some (s\<lparr>ps_file := Text (render raw')\<rparr>)"
      "v = \<lparr>vw_hide_entities_pattern = ps, vw_allow_cloud_llm_with_digest = False\<rparr>"
      using update_privacy_Inr [of parse render compile ps s v s'] by metis
    have "load_config parse co env (Text (render raw')) =
        Inr (cfg\<lparr>cf_privacy := (cf_privacy cfg)\<lparr>pv_hide_entities_pattern := ps\<rparr>\<rparr>)"
      using load_after_update [OF assms(1) u(3) assms(3) [unfolded u(2)] u(4)] assms(2) by (simp add: reads_back_def u)
    then have w: "watcher_turn parse co env compile (s\<lparr>ps_file := Text (render raw')\<rparr>) =
        s\<lparr>ps_file := Text (render raw'), ps_matcher := m, ps_hide_pattern := ps\<rparr>"
      using assms(4) u(1) by (simp add: watcher_turn_def on_cfg_change_def)
    show ?thesis
      unfolding eq Inr u(5,6) Let_def
      using matches_patterns [OF u(1)] assms(4)
      by (simp only: prod.case sum.case) (rule exI [of _ "Text (render raw')"], simp add: w get_privacy_def settings_page_def)
  qed
qed

text \<open>A concrete file, before and after an update.\<close>

definition example_table :: table where
  "example_table = [(''ha'', TTab [(''url'', TStr ''u''), (''token'', TStr ''t'')])]"

definition example_parse :: "string \<Rightarrow> table option" where
  "example_parse x = (if x = ''old'' then Some example_table
     else Some (example_table @ [(''privacy'', TTab [(''hide_entities_pattern'', strings [''lock'', ''door''])])]))"

definition example_state :: privacy_state where
  "example_state = \<lparr>ps_file = Text ''old'', ps_hide_pattern = [], ps_matcher = \<lparr>hm_compiled = []\<rparr>,
     ps_reload_fails = 0, ps_watching = True\<rparr>"

definition example_env :: environ where
  "example_env = \<lparr>en_ha_url = None, en_ha_token = None, en_web_port = None\<rparr>"

definition example_compile :: "string \<Rightarrow> (string \<Rightarrow> bool) option" where
  "example_compile p = Some (\<lambda>eid. eid = p)"

lemma example_set: "set_in ''privacy'' ''hide_entities_pattern'' (strings ps) example_table =
    Inr (example_table @ [(''privacy'', TTab [(''hide_entities_pattern'', strings ps)])])"
  by (simp add: set_in_def example_table_def)

lemma example_loads: "\<exists>cfg. load_config example_parse strict example_env (ps_file example_state) = Inr cfg"
  by (simp add: load_config_def example_parse_def example_env_def example_table_def example_state_def
    apply_env_overrides_def override_def override_port_def
    model_validate_def required_def section_of_def model_def strict_def validate_ha_def validate_behavior_def
    validate_digest_def validate_llm_def validate_audit_def validate_privacy_def validate_web_def
    validate_soft_intention_def validate_archive_def field_def min_length_1_def)

lemma example_guard: "\<not> rx_search redos_re ''lock''" "\<not> rx_search redos_re ''door''"
  by code_simp+

lemma update_and_reload_install_the_patterns_witness:
  "\<exists>v t. update_privacy example_parse (\<lambda>_. ''new'') example_compile [''lock'', ''door''] (Some example_state) =
      (Inr v, Some (example_state\<lparr>ps_file := t\<rparr>)) \<and>
    (\<forall>eid. matches (ps_matcher (watcher_turn example_parse strict example_env example_compile
        (example_state\<lparr>ps_file := t\<rparr>))) eid \<longleftrightarrow> eid = ''lock'' \<or> eid = ''door'')"
proof -
  obtain cfg where cfg: "load_config example_parse strict example_env (ps_file example_state) = Inr cfg"
    using example_loads by blast
  have rb: "reads_back example_parse (\<lambda>_. ''new'') [''lock'', ''door''] example_state"
    by (simp add: reads_back_def example_state_def example_parse_def example_set)
  have w: "ps_watching example_state" by (simp add: example_state_def)
  let ?u = "update_privacy example_parse (\<lambda>_. ''new'') example_compile [''lock'', ''door''] (Some example_state)"
  have "\<exists>v s'. ?u = (Inr v, s')"
    by (simp add: update_privacy_def make_hide_matcher_def complexity_guard_def example_guard example_compile_def
      example_state_def example_parse_def example_set)
  then obtain v s' where u: "?u = (Inr v, s')" by blast
  from update_and_reload_install_the_patterns [OF plain_strict rb cfg w, of example_compile, unfolded u Let_def prod.case sum.case]
  obtain t where t: "s' = Some (example_state\<lparr>ps_file := t\<rparr>)"
    "\<forall>eid. matches (ps_matcher (watcher_turn example_parse strict example_env example_compile
        (example_state\<lparr>ps_file := t\<rparr>))) eid \<longleftrightarrow>
      (\<exists>p \<in> set [''lock'', ''door'']. \<exists>f. example_compile p = Some f \<and> f eid)"
    by blast
  have "(\<exists>p \<in> set [''lock'', ''door'']. \<exists>f. example_compile p = Some f \<and> f eid) \<longleftrightarrow> eid = ''lock'' \<or> eid = ''door''" for eid
    by (simp only: list.set bex_simps example_compile_def option.inject) blast
  then show ?thesis unfolding u t(1) using t(2) by (intro exI [of _ v] exI [of _ t] conjI refl) (simp only: simp_thms)
qed

end
