(* ===== verification/Wiring.thy ===== *)
theory Wiring
  imports IngestSystem HaAdapter Stream Archive Health Settings
begin

text \<open>
  \<open>src/ai_ha/main.py\<close>: the handler of the web socket's messages, the first topology fetch, the start and the
  shutdown. Each is one step on the state of the whole application. \<open>wake\<close> is what a call of the
  handler finds: the clock and, where it asks Home Assistant for the registries, the
  frames that come back (\<open>None\<close> if connecting fails). Home Assistant's \<open>entity_id\<close> is a string and the ids
  of its contexts are strings or null, as the annotations of \<open>HAEvent\<close> say.
\<close>

section \<open>State\<close>

record app =
  ap_sys :: isys
  ap_jsonl :: jsonl_writer
  ap_broadcaster :: "json broadcaster"
  ap_health :: health

record wake =
  wk_now :: int
  wk_clock :: clock
  wk_frames :: "string list option"

section \<open>Reading a message\<close>

datatype ws_message =
    StateChanged ha_event
  | RegistryUpdated
  | OtherEvent

text \<open>\<open>x.get(...)\<close> on a value that is no object raises; \<open>x.get(k) or {}\<close>.\<close>

definition as_obj :: "json \<Rightarrow> entry res" where
  "as_obj v = (case v of JObj kvs \<Rightarrow> Inr kvs | _ \<Rightarrow> Inl AttributeError)"

definition get_default :: "entry \<Rightarrow> string \<Rightarrow> json \<Rightarrow> json" where
  "get_default e k dflt = (case map_of e k of None \<Rightarrow> dflt | Some v \<Rightarrow> v)"

definition or_empty :: "entry \<Rightarrow> string \<Rightarrow> json" where
  "or_empty e k = (case map_of e k of None \<Rightarrow> JObj [] | Some v \<Rightarrow> if json_truthy v then v else JObj [])"

definition state_text :: "json \<Rightarrow> string option res" where
  "state_text s =
     (if \<not> json_truthy s then Inr None
      else case as_obj s of Inl e \<Rightarrow> Inl e | Inr kvs \<Rightarrow> Inr (Some (py_str (get_default kvs ''state'' JNull))))"

definition context_field :: "json \<Rightarrow> string \<Rightarrow> string option res" where
  "context_field new k =
     (case as_obj new of
        Inl e \<Rightarrow> Inl e
      | Inr kvs \<Rightarrow> (case as_obj (or_empty kvs ''context'') of Inl e \<Rightarrow> Inl e | Inr c \<Rightarrow> Inr (get_s c k)))"

definition state_event :: "int \<Rightarrow> entry \<Rightarrow> ha_event res" where
  "state_event now d =
     (let new = or_empty d ''new_state''; old = or_empty d ''old_state'' in
      case state_text old of Inl e \<Rightarrow> Inl e | Inr old_state \<Rightarrow>
      (case state_text new of Inl e \<Rightarrow> Inl e | Inr new_state \<Rightarrow>
      (case context_field new ''user_id'' of Inl e \<Rightarrow> Inl e | Inr user \<Rightarrow>
      (case context_field new ''parent_id'' of Inl e \<Rightarrow> Inl e | Inr parent \<Rightarrow>
        Inr \<lparr>he_ts_ms = now, he_entity_id = (case get_s d ''entity_id'' of None \<Rightarrow> [] | Some i \<Rightarrow> i),
             he_event_type = ''state_changed'', he_old_state = old_state, he_new_state = new_state,
             he_context_user_id = user, he_context_parent_id = parent\<rparr>))))"

definition read_message :: "int \<Rightarrow> json \<Rightarrow> ws_message res" where
  "read_message now msg =
     (case as_obj msg of Inl e \<Rightarrow> Inl e | Inr m \<Rightarrow>
     (case as_obj (get_default m ''event'' (JObj [])) of Inl e \<Rightarrow> Inl e | Inr ev \<Rightarrow>
     (case get_default ev ''event_type'' (JStr []) of
        JStr ev_type \<Rightarrow>
          if ev_type = ''state_changed'' then
            (case as_obj (get_default ev ''data'' (JObj [])) of
               Inl e \<Rightarrow> Inl e
             | Inr d \<Rightarrow> (case state_event now d of Inl e \<Rightarrow> Inl e | Inr x \<Rightarrow> Inr (StateChanged x)))
          else if endswith ev_type ''_registry_updated'' then Inr RegistryUpdated
          else Inr OtherEvent
      | _ \<Rightarrow> Inl AttributeError)))"

section \<open>The handler\<close>

definition opt_str :: "string option \<Rightarrow> json" where
  "opt_str s = (case s of None \<Rightarrow> JNull | Some x \<Rightarrow> JStr x)"

text \<open>The line of the archive and the event of the stream.\<close>

definition archive_line :: "ha_event \<Rightarrow> string" where
  "archive_line ev = dumps_plain (JObj [(''ts_ms'', JInt (he_ts_ms ev)), (''entity_id'', JStr (he_entity_id ev)),
     (''event_type'', JStr (he_event_type ev)), (''old_state'', opt_str (he_old_state ev)),
     (''new_state'', opt_str (he_new_state ev))])"

definition stream_event :: "ha_event \<Rightarrow> json" where
  "stream_event ev = JObj [(''ts'', JInt (he_ts_ms ev)), (''entity_id'', JStr (he_entity_id ev)),
     (''event_type'', JStr (he_event_type ev))]"

definition on_state_changed ::
  "(string \<Rightarrow> string) \<Rightarrow> clock \<Rightarrow> ha_event \<Rightarrow> app \<Rightarrow> unit res \<times> app" where
  "on_state_changed sha ck ev a =
     (case istep sha (Submit ck ev) (ap_sys a) of
        (Inl e, s) \<Rightarrow> (Inl e, a\<lparr>ap_sys := s\<rparr>)
      | (Inr _, s) \<Rightarrow>
          (case append_record (archive_line ev) (he_ts_ms ev) (ap_jsonl a) of
             (Inl e, w) \<Rightarrow> (Inl e, a\<lparr>ap_sys := s, ap_jsonl := w\<rparr>)
           | (Inr _, w) \<Rightarrow>
               (Inr (), a\<lparr>ap_sys := s, ap_jsonl := w,
                  ap_broadcaster := publish (stream_event ev) (ap_broadcaster a),
                  ap_health := record_event (he_ts_ms ev) (ap_health a)\<rparr>)))"

text \<open>Fetch and apply: the common part of the handler and of \<open>initial_sync\<close>; exceptions are logged.\<close>

definition refetch :: "(string \<Rightarrow> string) \<Rightarrow> wake \<Rightarrow> app \<Rightarrow> bool \<times> app" where
  "refetch sha w a =
     (case wk_frames w of
        None \<Rightarrow> (False, a)
      | Some frames \<Rightarrow>
          (case fetch_once frames of
             Inl e \<Rightarrow> (False, a)
           | Inr p \<Rightarrow>
               (case apply_topology sha p (wk_now w) (is_idx (ap_sys a), is_db (ap_sys a)) of
                  (r, idx, d) \<Rightarrow>
                    (let a = a\<lparr>ap_sys := (ap_sys a)\<lparr>is_idx := idx, is_db := d\<rparr>\<rparr> in
                     case r of
                       Inl e \<Rightarrow> (False, a)
                     | Inr (sid, _) \<Rightarrow> (True, a\<lparr>ap_health := set_topology_snapshot_id sid (ap_health a)\<rparr>)))))"

definition on_ws_event :: "(string \<Rightarrow> string) \<Rightarrow> wake \<Rightarrow> json \<Rightarrow> app \<Rightarrow> unit res \<times> app" where
  "on_ws_event sha w msg a =
     (case read_message (wk_now w) msg of
        Inl e \<Rightarrow> (Inl e, a)
      | Inr (StateChanged ev) \<Rightarrow> on_state_changed sha (wk_clock w) ev a
      | Inr RegistryUpdated \<Rightarrow> (Inr (), snd (refetch sha w a))
      | Inr OtherEvent \<Rightarrow> (Inr (), a))"

definition initial_sync :: "(string \<Rightarrow> string) \<Rightarrow> wake \<Rightarrow> app \<Rightarrow> app" where
  "initial_sync sha w a =
     (case refetch sha w a of
        (False, a) \<Rightarrow> a
      | (True, a) \<Rightarrow> a\<lparr>ap_health := set_ws_connected True (ap_health a)\<rparr>)"

section \<open>Start and shutdown\<close>

definition ws_url :: "string \<Rightarrow> string" where
  "ws_url http_url =
     (if startswith http_url ''https://'' then ''wss://'' @ drop 8 http_url @ ''/api/websocket''
      else if startswith http_url ''http://'' then ''ws://'' @ drop 7 http_url @ ''/api/websocket''
      else http_url @ ''/api/websocket'')"

text \<open>
  \<open>_run\<close> up to \<open>server.serve()\<close>: an exit code, an exception that no handler catches, or the
  application with its admin token file. \<open>opened\<close> is what \<open>Database.open\<close> gives (\<open>Migrations\<close>).
\<close>

datatype start_result = Exit int | Crash err | Started app "string option"

definition startup ::
  "(string \<Rightarrow> (string \<Rightarrow> bool) option) \<Rightarrow> load_error + app_config \<Rightarrow> db res \<Rightarrow> int \<Rightarrow> string
    \<Rightarrow> string option \<Rightarrow> start_result" where
  "startup compile loaded opened now fresh token_file =
     (case loaded of
        Inl (ConfigError _) \<Rightarrow> Exit 78
      | Inl (Uncaught e) \<Rightarrow> Crash e
      | Inr cfg \<Rightarrow>
          (case make_hide_matcher compile (pv_hide_entities_pattern (cf_privacy cfg)) of
             Inl e \<Rightarrow> Exit 78
           | Inr hide_matcher \<Rightarrow>
               (case opened of
                  Inl e \<Rightarrow> Exit 70
                | Inr d \<Rightarrow>
                    (case ensure_token fresh token_file of
                       (Inl e, tf) \<Rightarrow> Crash e
                     | (Inr token, tf) \<Rightarrow>
                         Started \<lparr>ap_sys = \<lparr>is_pipe = start (new_pipeline hide_matcher 100 1000), is_idx = [], is_db = d\<rparr>,
                                  ap_jsonl = new_writer (ac_compress (cf_archive cfg)),
                                  ap_broadcaster = new_broadcaster 500,
                                  ap_health = new_health now\<rparr> tf))))"

text \<open>The \<open>finally\<close> block: \<open>pipeline.stop()\<close> may raise, and then the archive is not closed.\<close>

definition shutdown :: "(string \<Rightarrow> string) \<Rightarrow> clock \<Rightarrow> app \<Rightarrow> unit res \<times> app" where
  "shutdown sha ck a =
     (case istep sha (Stop ck) (ap_sys a) of
        (Inl e, s) \<Rightarrow> (Inl e, a\<lparr>ap_sys := s\<rparr>)
      | (Inr _, s) \<Rightarrow> (Inr (), a\<lparr>ap_sys := s, ap_jsonl := close_writer (ap_jsonl a)\<rparr>))"

end
