(* ===== verification/WiringProps.thy ===== *)
theory WiringProps
  imports Wiring
begin

text \<open>
  What \<open>main.py\<close> makes of the components: where a state change goes, what the privacy patterns
  do and do not keep back, and what a start can end in.
\<close>

section \<open>A submission on a healthy database\<close>

lemma submit_returns:
  assumes "healthy (is_db s)"
  shows "istep sha (Submit ck ev) s = (Inr (), snd (istep sha (Submit ck ev) s))"
proof (cases "hidden (is_pipe s) ev")
  case True
  with assms show ?thesis
    by (simp add: istep_def submit_hidden increment_privacy_drop_def healthy_def case_prod_unfold)
next
  case False
  have c: "fst (commit_locked ck (is_idx s) (pl, is_db s)) = Inr ()" for pl
  proof -
    obtain d' where "write_batch (ck_wall ck) (is_idx s) (pp_buffer pl) (is_db s) = (Inr (), d')"
      using assms write_batch_ok unfolding healthy_def by metis
    then show ?thesis by (simp add: commit_locked_def)
  qed
  have "fst (submit ck (is_idx s) ev (is_pipe s, is_db s)) = Inr ()"
    using False c by (simp add: submit_def hidden_def Let_def)
  then show ?thesis by (simp add: istep_def case_prod_unfold)
qed

lemma commit_locked_hide: "commit_locked ck idx (pl, d) = (r, pl', d') \<Longrightarrow> pp_hide pl' = pp_hide pl"
  by (auto simp: commit_locked_def split: if_splits prod.splits sum.splits)

lemma submit_keeps:
  "is_idx (snd (istep sha (Submit ck ev) s)) = is_idx s"
  "pp_hide (is_pipe (snd (istep sha (Submit ck ev) s))) = pp_hide (is_pipe s)"
proof -
  obtain r pl d where eq: "submit ck (is_idx s) ev (is_pipe s, is_db s) = (r, pl, d)" by (metis surj_pair)
  then have "pp_hide pl = pp_hide (is_pipe s)"
    by (auto simp: submit_def Let_def dest!: commit_locked_hide split: if_splits prod.splits)
  with eq show "is_idx (snd (istep sha (Submit ck ev) s)) = is_idx s"
    "pp_hide (is_pipe (snd (istep sha (Submit ck ev) s))) = pp_hide (is_pipe s)"
    by (simp_all add: istep_def)
qed

section \<open>State changes\<close>

lemma state_event_time: "state_event now d = Inr ev \<Longrightarrow> he_ts_ms ev = now"
  by (auto simp: state_event_def Let_def split: sum.splits)

lemma read_message_time: "read_message now m = Inr (StateChanged ev) \<Longrightarrow> he_ts_ms ev = now"
  by (auto simp: read_message_def dest: state_event_time split: sum.splits json.splits if_splits)

text \<open>One message after another.\<close>

definition deliver :: "(string \<Rightarrow> string) \<Rightarrow> (wake \<times> json) list \<Rightarrow> app \<Rightarrow> app" where
  "deliver sha ms a = fold (\<lambda>(w, m) a. snd (on_ws_event sha w m a)) ms a"

text \<open>The state changes among them.\<close>

fun events_of :: "(wake \<times> json) list \<Rightarrow> ha_event list" where
  "events_of [] = []"
| "events_of ((w, m) # ms) =
     (case read_message (wk_now w) m of Inr (StateChanged ev) \<Rightarrow> [ev] | _ \<Rightarrow> []) @ events_of ms"

text \<open>A message that is no registry update, and whose date the archive can write if it is a state change.\<close>

definition plain_message :: "wake \<times> json \<Rightarrow> bool" where
  "plain_message = (\<lambda>(w, m). case read_message (wk_now w) m of
     Inr (StateChanged _) \<Rightarrow> ok (day_of (wk_now w)) | Inr RegistryUpdated \<Rightarrow> False | _ \<Rightarrow> True)"

lemma plain_message_cases:
  assumes "plain_message (w, m)"
  obtains (change) day ev where "day_of (wk_now w) = Inr day" "read_message (wk_now w) m = Inr (StateChanged ev)"
  | (other) "events_of [(w, m)] = []" "\<And>sha a. snd (on_ws_event sha w m a) = a"
proof (cases "read_message (wk_now w) m")
  case (Inl e)
  then show thesis by (intro other) (simp_all add: on_ws_event_def)
next
  case (Inr x)
  show thesis
  proof (cases x)
    case (StateChanged ev)
    with Inr assms have "ok (day_of (wk_now w))" by (simp add: plain_message_def)
    then obtain day where "day_of (wk_now w) = Inr day" by (cases "day_of (wk_now w)") auto
    with Inr StateChanged change show thesis by simp
  next
    case RegistryUpdated
    with Inr assms show thesis by (simp add: plain_message_def)
  next
    case OtherEvent
    with Inr show thesis by (intro other) (simp_all add: on_ws_event_def)
  qed
qed

lemma on_ws_event_state_change:
  assumes "healthy (is_db (ap_sys a))" and "read_message (wk_now w) m = Inr (StateChanged ev)"
    and "day_of (wk_now w) = Inr day"
  shows "snd (on_ws_event sha w m a) =
    a\<lparr>ap_sys := snd (istep sha (Submit (wk_clock w) ev) (ap_sys a)),
      ap_jsonl := wstep (Append (archive_line ev) (he_ts_ms ev)) (ap_jsonl a),
      ap_broadcaster := publish (stream_event ev) (ap_broadcaster a),
      ap_health := record_event (he_ts_ms ev) (ap_health a)\<rparr>"
proof -
  have t: "he_ts_ms ev = wk_now w" using read_message_time [OF assms(2)] .
  define s where "s = snd (istep sha (Submit (wk_clock w) ev) (ap_sys a))"
  have "istep sha (Submit (wk_clock w) ev) (ap_sys a) = (Inr (), s)"
    unfolding s_def by (rule submit_returns [OF assms(1)])
  with t assms(2,3) show ?thesis
    unfolding s_def [symmetric]
    by (simp add: on_ws_event_def on_state_changed_def wstep_def append_record_def Let_def)
qed

lemma wstep_append:
  assumes "writer_ok w" and "ok (day_of ts)" and "day_of t = Inr day"
  shows "writer_ok (wstep (Append line ts) w)" and "path_for_day d (wstep (Append line ts) w) = path_for_day d w"
    and "contents (path_for_day day w) (wstep (Append line ts) w) =
      contents (path_for_day day w) w @ (if day_number ts = day_number t then [line] else [])"
proof -
  note f = wstep_facts [OF assms(1), of "Append line ts" "path_for_day day w"]
  show "writer_ok (wstep (Append line ts) w)" using f by simp
  show "path_for_day d (wstep (Append line ts) w) = path_for_day d w" using f by (simp add: path_for_day_def)
  obtain day' where d': "day_of ts = Inr day'" using assms(2) by (cases "day_of ts") auto
  have "path_for_day day w = path_for_day day' w \<longleftrightarrow> day_number ts = day_number t"
    using day_of_eq_iff [OF assms(3) d'] by (auto simp: path_for_day_def)
  with f d' show "contents (path_for_day day w) (wstep (Append line ts) w) =
      contents (path_for_day day w) w @ (if day_number ts = day_number t then [line] else [])" by simp
qed

definition visible :: "app \<Rightarrow> ha_event \<Rightarrow> bool" where
  "visible a ev \<longleftrightarrow> \<not> hidden (is_pipe (ap_sys a)) ev"

text \<open>
  One message after another on a database that answers: the event store, now or at the next commit, gets exactly
  the state changes that no privacy pattern matches; archive, streams and metrics get all of them.
\<close>

lemma deliver_all:
  assumes "healthy (is_db (ap_sys a))" and "writer_ok (ap_jsonl a)" and "list_all plain_message ms"
  shows "iheld (ap_sys (deliver sha ms a)) = iheld (ap_sys a) @
      map (tagged (is_idx (ap_sys a))) (filter (visible a) (events_of ms)) \<and>
    (\<forall>t day. day_of t = Inr day \<longrightarrow> contents (path_for_day day (ap_jsonl a)) (ap_jsonl (deliver sha ms a)) =
      contents (path_for_day day (ap_jsonl a)) (ap_jsonl a) @
      map archive_line (filter (\<lambda>ev. day_number (he_ts_ms ev) = day_number t) (events_of ms))) \<and>
    ap_broadcaster (deliver sha ms a) = fold publish (map stream_event (events_of ms)) (ap_broadcaster a) \<and>
    ap_health (deliver sha ms a) = fold record_event (map he_ts_ms (events_of ms)) (ap_health a)"
  using assms
proof (induction ms arbitrary: a)
  case Nil
  then show ?case by (simp add: deliver_def)
next
  case (Cons x ms)
  obtain w m where x: "x = (w, m)" by fastforce
  have tl: "list_all plain_message ms" using Cons.prems(3) by simp
  have "plain_message (w, m)" using Cons.prems(3) by (simp add: x)
  then show ?case
  proof (cases rule: plain_message_cases)
    case other
    have "deliver sha (x # ms) a = deliver sha ms a" by (simp add: deliver_def x other(2))
    moreover have "events_of (x # ms) = events_of ms" using other(1) by (simp add: x)
    ultimately show ?thesis using Cons.IH [OF Cons.prems(1,2) tl] by simp
  next
    case (change day ev)
    note day = change(1) and ev = change(2)
    have t: "he_ts_ms ev = wk_now w" using read_message_time [OF ev] .
    define b where "b = snd (on_ws_event sha w m a)"
    note b = on_ws_event_state_change [OF Cons.prems(1) ev day, of sha, folded b_def]
    have fs: "healthy (is_db (ap_sys b))" using istep_healthy [OF Cons.prems(1)] by (simp add: b)
    have okd: "ok (day_of (he_ts_ms ev))" using day t by simp
    note wa = wstep_append [OF Cons.prems(2) okd]
    have fw: "writer_ok (ap_jsonl b)" using wa(1) [OF day] by (simp add: b)
    have p: "path_for_day d (ap_jsonl b) = path_for_day d (ap_jsonl a)" for d using wa(2) [OF day] by (simp add: b)
    note IH = Cons.IH [OF fs fw, unfolded p]
    have d: "deliver sha (x # ms) a = deliver sha ms b" by (simp add: deliver_def x b_def)
    have e: "events_of (x # ms) = ev # events_of ms" by (simp add: x ev)
    have idx: "is_idx (ap_sys b) = is_idx (ap_sys a)" by (simp add: b submit_keeps)
    have vis: "visible b = visible a" by (simp add: fun_eq_iff visible_def hidden_def b submit_keeps)
    have held: "iheld (ap_sys b) = iheld (ap_sys a) @ (if visible a ev then [tagged (is_idx (ap_sys a)) ev] else [])"
      using istep_healthy_held [OF Cons.prems(1), of sha "Submit (wk_clock w) ev"]
      by (simp add: b accepted_by_def visible_def)
    have cont: "contents (path_for_day dd (ap_jsonl a)) (ap_jsonl b) = contents (path_for_day dd (ap_jsonl a)) (ap_jsonl a) @
        (if day_number (he_ts_ms ev) = day_number tt then [archive_line ev] else [])" if "day_of tt = Inr dd" for tt dd
      using wa(3) [OF that] by (simp add: b)
    show ?thesis
      unfolding d e using IH [OF tl] by (auto simp: idx vis held cont) (simp_all add: b)
  qed
qed

section \<open>What a start can end in\<close>

lemma make_hide_matcher_Inl_iff:
  "(\<exists>e. make_hide_matcher compile ps = Inl e) \<longleftrightarrow> (\<exists>p \<in> set ps. nested_quantifier p \<or> compile p = None)"
  using compile_all_ok_iff [of compile ps]
  by (cases "compile_all compile ps") (auto simp: make_hide_matcher_def search_redos)

text \<open>
  A start ends with code 78 exactly when the configuration is refused or one of its privacy
  patterns is, with 70 exactly when those are good and the database does not open, and otherwise
  the server starts; only an exception that loading lets through ends it without an exit code.
\<close>

theorem startup_exit_codes:
  "(let r = startup compile loaded opened now fresh token_file;
        refused = (\<lambda>cfg. \<exists>p \<in> set (pv_hide_entities_pattern (cf_privacy cfg)). nested_quantifier p \<or> compile p = None)
    in (r = Exit 78 \<longleftrightarrow> (\<exists>m. loaded = Inl (ConfigError m)) \<or> (\<exists>cfg. loaded = Inr cfg \<and> refused cfg)) \<and>
       (r = Exit 70 \<longleftrightarrow> (\<exists>cfg e. loaded = Inr cfg \<and> \<not> refused cfg \<and> opened = Inl e)) \<and>
       ((\<exists>e. r = Crash e) \<longleftrightarrow> (\<exists>e. loaded = Inl (Uncaught e))) \<and>
       ((\<exists>a tf. r = Started a tf) \<longleftrightarrow> (\<exists>cfg d. loaded = Inr cfg \<and> \<not> refused cfg \<and> opened = Inr d)))"
proof (cases loaded)
  case (Inl e)
  then show ?thesis by (cases e) (simp_all add: startup_def)
next
  case (Inr cfg)
  let ?ps = "pv_hide_entities_pattern (cf_privacy cfg)"
  have tok: "\<exists>t tf. ensure_token fresh token_file = (Inr t, tf)"
    by (cases token_file) (simp_all add: ensure_token_def token_read_def)
  show ?thesis
  proof (cases "make_hide_matcher compile ?ps")
    case refused: (Inl e)
    then have "\<exists>p \<in> set ?ps. nested_quantifier p \<or> compile p = None"
      using make_hide_matcher_Inl_iff [of compile ?ps] by blast
    with refused Inr show ?thesis by (simp add: startup_def Let_def)
  next
    case (Inr m)
    then have "\<not> (\<exists>p \<in> set ?ps. nested_quantifier p \<or> compile p = None)"
      using make_hide_matcher_Inl_iff [of compile ?ps] by auto
    with Inr \<open>loaded = Inr cfg\<close> tok show ?thesis
      by (cases opened) (auto simp: startup_def Let_def)
  qed
qed

end
