(* ===== verification/Site.thy ===== *)
theory Site
  imports WiringProps
begin

text \<open>
  The running application as \<open>_run\<close> of \<open>main.py\<close> leaves it at \<open>server.serve()\<close>: the pipeline with its patterns, the
  archive, the streams and the metrics (\<open>app\<close>), and beside it the configuration file, the list the settings
  page shows and the watcher (\<open>privacy_state\<close>). The tasks and requests that follow may come in any order:
  messages of Home Assistant, the first sync, the flush task, updates of the privacy settings, edits of the
  file by hand, and turns of the watcher.
\<close>

section \<open>State and steps\<close>

record site =
  si_app :: app
  si_privacy :: privacy_state

text \<open>\<open>AppState\<close> takes its \<open>hide_pattern\<close> from the configuration that made the matcher.\<close>

definition running :: "app_config \<Rightarrow> file_text \<Rightarrow> app \<Rightarrow> site" where
  "running cfg config a =
     \<lparr>si_app = a,
      si_privacy = \<lparr>ps_file = config, ps_hide_pattern = pv_hide_entities_pattern (cf_privacy cfg),
        ps_matcher = pp_hide (is_pipe (ap_sys a)), ps_reload_fails = 0, ps_watching = True\<rparr>\<rparr>"

datatype site_op =
    Message wake json
  | FirstSync wake
  | FlushTask clock
  | PostPrivacy privacy_payload
  | EditFile file_text
  | FileChange

text \<open>\<open>on_cfg_change\<close> assigns \<open>pipeline._hide\<close>, and counts a refused reload in the metrics.\<close>

definition install :: "privacy_state \<Rightarrow> site \<Rightarrow> site" where
  "install p s = s\<lparr>si_privacy := p, si_app := (si_app s)\<lparr>
     ap_sys := (ap_sys (si_app s))\<lparr>is_pipe := (is_pipe (ap_sys (si_app s)))\<lparr>pp_hide := ps_matcher p\<rparr>\<rparr>,
     ap_health := (if ps_reload_fails p = ps_reload_fails (si_privacy s) then ap_health (si_app s)
                   else inc_config_reload_fail (ap_health (si_app s)))\<rparr>\<rparr>"

definition site_step ::
  "(string \<Rightarrow> string) \<Rightarrow> (string \<Rightarrow> table option) \<Rightarrow> (table \<Rightarrow> string) \<Rightarrow> coercions \<Rightarrow> environ
    \<Rightarrow> (string \<Rightarrow> (string \<Rightarrow> bool) option) \<Rightarrow> site_op \<Rightarrow> site \<Rightarrow> site" where
  "site_step sha parse render co env compile op s =
     (case op of
        Message w m \<Rightarrow> s\<lparr>si_app := snd (on_ws_event sha w m (si_app s))\<rparr>
      | FirstSync w \<Rightarrow> s\<lparr>si_app := initial_sync sha w (si_app s)\<rparr>
      | FlushTask ck \<Rightarrow> s\<lparr>si_app := (si_app s)\<lparr>ap_sys := snd (istep sha (Tick ck) (ap_sys (si_app s)))\<rparr>\<rparr>
      | PostPrivacy payload \<Rightarrow>
          (case post_privacy parse render compile payload (Some (si_privacy s)) of
             (_, None) \<Rightarrow> s
           | (_, Some p) \<Rightarrow> s\<lparr>si_privacy := p\<rparr>)
      | EditFile t \<Rightarrow> s\<lparr>si_privacy := (si_privacy s)\<lparr>ps_file := t\<rparr>\<rparr>
      | FileChange \<Rightarrow> install (watcher_turn parse co env compile (si_privacy s)) s)"

section \<open>The patterns in force\<close>

abbreviation in_force :: "site \<Rightarrow> hide_matcher" where
  "in_force s \<equiv> pp_hide (is_pipe (ap_sys (si_app s)))"

lemma tick_hide: "periodic_tick ck idx (pl, d) = (pl', d') \<Longrightarrow> pp_hide pl' = pp_hide pl"
  by (auto simp: periodic_tick_def dest!: commit_locked_hide split: if_splits prod.splits sum.splits option.splits)

lemma istep_tick_hide: "pp_hide (is_pipe (snd (istep sha (Tick ck) s))) = pp_hide (is_pipe s)"
proof -
  obtain pl d where eq: "periodic_tick ck (is_idx s) (is_pipe s, is_db s) = (pl, d)" by fastforce
  with tick_hide [OF eq] show ?thesis by (simp add: istep_def)
qed

lemma refetch_pipe: "is_pipe (ap_sys (snd (refetch sha w a))) = is_pipe (ap_sys a)"
  by (simp add: refetch_def Let_def split: option.split sum.split prod.split)

lemma initial_sync_pipe: "is_pipe (ap_sys (initial_sync sha w a)) = is_pipe (ap_sys a)"
  using refetch_pipe [of sha w a] by (cases "refetch sha w a"; cases "fst (refetch sha w a)") (auto simp: initial_sync_def)

lemma on_state_changed_sys: "ap_sys (snd (on_state_changed sha ck ev a)) = snd (istep sha (Submit ck ev) (ap_sys a))"
  by (simp add: on_state_changed_def split: prod.split sum.split)

lemma on_ws_event_hide: "pp_hide (is_pipe (ap_sys (snd (on_ws_event sha w m a)))) = pp_hide (is_pipe (ap_sys a))"
  by (simp add: on_ws_event_def refetch_pipe on_state_changed_sys submit_keeps split: sum.split ws_message.split)

text \<open>The list that is shown made the matcher that is in force.\<close>

definition enforced :: "(string \<Rightarrow> (string \<Rightarrow> bool) option) \<Rightarrow> site \<Rightarrow> bool" where
  "enforced compile s \<longleftrightarrow> ps_matcher (si_privacy s) = in_force s \<and>
     make_hide_matcher compile (ps_hide_pattern (si_privacy s)) = Inr (in_force s)"

lemma update_keeps_patterns:
  assumes "update_privacy parse render compile ps (Some p) = (r, Some p')"
  shows "ps_hide_pattern p' = ps_hide_pattern p \<and> ps_matcher p' = ps_matcher p"
  using assms by (auto simp: update_privacy_def split: sum.splits file_text.splits option.splits)

lemma turn_patterns:
  assumes "make_hide_matcher compile (ps_hide_pattern p) = Inr (ps_matcher p)"
  shows "make_hide_matcher compile (ps_hide_pattern (watcher_turn parse co env compile p)) =
    Inr (ps_matcher (watcher_turn parse co env compile p))"
  using assms by (auto simp: watcher_turn_def on_cfg_change_def split: sum.split load_error.split)

lemma site_step_enforced:
  assumes "enforced compile s"
  shows "enforced compile (site_step sha parse render co env compile op s)"
proof (cases op)
  case (PostPrivacy payload)
  obtain r p' where u: "post_privacy parse render compile payload (Some (si_privacy s)) = (r, p')" by fastforce
  with assms PostPrivacy show ?thesis
    by (cases p') (auto simp: site_step_def enforced_def post_privacy_def dest!: update_keeps_patterns)
next
  case FileChange
  with assms turn_patterns [of compile "si_privacy s"] show ?thesis
    by (simp add: site_step_def enforced_def install_def)
qed (use assms in \<open>simp_all add: site_step_def enforced_def on_ws_event_hide initial_sync_pipe istep_tick_hide\<close>)

lemma run_enforced:
  "enforced compile s \<Longrightarrow> enforced compile (fold (site_step sha parse render co env compile) ops s)"
  by (induction ops arbitrary: s) (simp_all add: site_step_enforced)

lemma running_enforced:
  assumes "startup compile (Inr cfg) opened now fresh token_file = Started a tf"
  shows "enforced compile (running cfg config a)"
  using assms by (auto simp: startup_def enforced_def running_def new_pipeline_def start_def
    split: sum.splits prod.splits)

text \<open>What a submission does, by whether a pattern in force matches.\<close>

lemma privacy_drop_only:
  "\<exists>drops. snd (increment_privacy_drop h n d) = d\<lparr>db_drops := drops, db_faults := tl (db_faults d)\<rparr>"
  by (cases d) (simp add: increment_privacy_drop_def connect_def)

lemma submit_matched:
  assumes "matches (pp_hide (is_pipe s)) (he_entity_id ev)"
  shows "\<exists>drops. snd (istep sha (Submit ck ev) s) =
    s\<lparr>is_db := (is_db s)\<lparr>db_drops := drops, db_faults := tl (db_faults (is_db s))\<rparr>\<rparr>"
proof -
  have "snd (istep sha (Submit ck ev) s) =
      s\<lparr>is_db := snd (increment_privacy_drop (now_bucket ck None) 1 (is_db s))\<rparr>"
    using assms by (simp add: istep_def submit_hidden hidden_def split: prod.split)
  then show ?thesis using privacy_drop_only [of "now_bucket ck None" 1 "is_db s"] by auto
qed

lemma submit_unmatched:
  assumes "\<not> matches (pp_hide (is_pipe s)) (he_entity_id ev)" and "healthy (is_db s)"
  shows "iheld (snd (istep sha (Submit ck ev) s)) = iheld s @ [tagged (is_idx s) ev]"
  using assms by (simp add: istep_healthy_held accepted_by_def hidden_def)

section \<open>Property\<close>

text \<open>
  C6. What the settings page shows is what is enforced: after any sequence of messages, syncs, flushes, settings
  updates, edits of the file and reloads from a start on, an entity is hidden exactly when a pattern of the
  list shown matches its whole id. Of pipeline, index and database, a state change of such an entity then alters only the
  table \<open>privacy_drops\<close> (archive, streams and metrics get it all the same). On a database all of whose connections succeed,
  that of any other entity is stored or waits for the next commit.
\<close>

theorem shown_patterns_are_enforced:
  assumes "startup compile (Inr cfg) opened now fresh token_file = Started a tf"
  shows "let s = fold (site_step sha parse render co env compile) ops (running cfg config a);
       matched = (\<lambda>eid. \<exists>p \<in> set (settings_page (Some (si_privacy s))). \<exists>f. compile p = Some f \<and> f eid);
       sys = ap_sys (si_app s)
    in (\<forall>eid. matches (pp_hide (is_pipe sys)) eid \<longleftrightarrow> matched eid) \<and>
       (\<forall>w m ev. read_message (wk_now w) m = Inr (StateChanged ev) \<longrightarrow>
         (let sys' = ap_sys (si_app (site_step sha parse render co env compile (Message w m) s)) in
          if matched (he_entity_id ev) then
            \<exists>drops. sys' = sys\<lparr>is_db := (is_db sys)\<lparr>db_drops := drops, db_faults := tl (db_faults (is_db sys))\<rparr>\<rparr>
          else healthy (is_db sys) \<longrightarrow> iheld sys' = iheld sys @ [tagged (is_idx sys) ev]))"
proof -
  define s where "s = fold (site_step sha parse render co env compile) ops (running cfg config a)"
  have "enforced compile s" unfolding s_def by (rule run_enforced [OF running_enforced [OF assms]])
  then have m: "matches (in_force s) eid \<longleftrightarrow>
      (\<exists>p \<in> set (settings_page (Some (si_privacy s))). \<exists>f. compile p = Some f \<and> f eid)" for eid
    using matches_patterns [of compile "ps_hide_pattern (si_privacy s)" "in_force s" eid]
    by (simp add: enforced_def settings_page_def)
  have step: "ap_sys (si_app (site_step sha parse render co env compile (Message w x) s)) =
      snd (istep sha (Submit (wk_clock w) ev) (ap_sys (si_app s)))" if "read_message (wk_now w) x = Inr (StateChanged ev)" for w x ev
    using that by (simp add: site_step_def on_ws_event_def on_state_changed_sys)
  show ?thesis
    unfolding s_def [symmetric] Let_def m [symmetric]
    by (simp add: step submit_matched submit_unmatched)
qed

text \<open>A start with two patterns; the file loses them, and until the watcher's turn they are shown and enforced.\<close>

lemma site_loads:
  "\<exists>cfg. load_config example_parse strict example_env (Text ''new'') = Inr cfg \<and>
    pv_hide_entities_pattern (cf_privacy cfg) = [''lock'', ''door'']"
  by (simp add: load_config_def example_parse_def example_env_def example_table_def
    apply_env_overrides_def override_def override_port_def strings_def
    model_validate_def required_def section_of_def model_def strict_def validate_ha_def validate_behavior_def
    validate_digest_def validate_llm_def validate_audit_def validate_privacy_def validate_web_def
    validate_soft_intention_def validate_archive_def field_def min_length_1_def list_of_def)

lemma shown_patterns_are_enforced_witness:
  "\<exists>cfg a tf. load_config example_parse strict example_env (Text ''new'') = Inr cfg \<and>
    startup example_compile (Inr cfg) (Inr empty_db) 0 ''t'' None = Started a tf \<and>
    (let s = fold (site_step (\<lambda>x. x) example_parse (\<lambda>_. ''new'') strict example_env example_compile)
         [EditFile (Text ''old'')] (running cfg (Text ''new'') a)
     in \<forall>eid. matches (pp_hide (is_pipe (ap_sys (si_app s)))) eid \<longleftrightarrow> eid = ''lock'' \<or> eid = ''door'')"
proof -
  obtain cfg where cfg: "load_config example_parse strict example_env (Text ''new'') = Inr cfg"
    and ps: "pv_hide_entities_pattern (cf_privacy cfg) = [''lock'', ''door'']" using site_loads by blast
  have "\<not> nested_quantifier ''lock''" "\<not> nested_quantifier ''door''" using example_guard by (simp_all add: search_redos)
  then obtain a tf where st: "startup example_compile (Inr cfg) (Inr empty_db) 0 ''t'' None = Started a tf"
    using startup_exit_codes [of example_compile "Inr cfg" "Inr empty_db" 0 "''t''" None]
    by (auto simp: Let_def ps example_compile_def)
  let ?s = "fold (site_step (\<lambda>x. x) example_parse (\<lambda>_. ''new'') strict example_env example_compile)
         [EditFile (Text ''old'')] (running cfg (Text ''new'') a)"
  have page: "settings_page (Some (si_privacy ?s)) = [''lock'', ''door'']"
    by (simp add: site_step_def running_def settings_page_def ps)
  have "(\<exists>p \<in> set [''lock'', ''door'']. \<exists>f. example_compile p = Some f \<and> f eid) \<longleftrightarrow> eid = ''lock'' \<or> eid = ''door''" for eid
    by (simp only: list.set bex_simps example_compile_def option.inject) blast
  then have "\<forall>eid. matches (pp_hide (is_pipe (ap_sys (si_app ?s)))) eid \<longleftrightarrow> eid = ''lock'' \<or> eid = ''door''"
    using shown_patterns_are_enforced [OF st, of "\<lambda>x. x" example_parse "\<lambda>_. ''new''" strict example_env "[EditFile (Text ''old'')]" "Text ''new''"]
    unfolding Let_def page by simp
  with cfg st show ?thesis unfolding Let_def by blast
qed

end
