(* ===== verification/WsClient.thy ===== *)
theory WsClient
  imports Json
begin

text \<open>
  \<open>HAWSClient\<close> of \<open>src/ai_ha/ha_adapter/ws_client.py\<close>. What the network and the owner do during a
  connection is its list of inputs: a frame arrives, the connection closes, or \<open>stop()\<close> is called;
  at the end of the list the client waits. \<open>on_event\<close> is a parameter that changes a world \<open>'w\<close> of its
  own and may raise. The messages sent are kept in \<open>ws_sent\<close>, the latest connection first.
  Seconds are integers.
\<close>

section \<open>State\<close>

datatype message =
    Auth string
  | SubscribeEvents int string   \<comment> \<open>id, event type\<close>

datatype input =
    Recv string
  | Closed
  | StopCalled

record ws_client =
  ws_token :: string
  ws_initial_backoff :: int
  ws_max_backoff :: int
  ws_max_seconds :: "int option"
  ws_stop :: bool
  ws_next_id :: int
  ws_disconnect_count :: int
  ws_last_error_kind :: "string option"
  ws_connected :: bool
  ws_sent :: "message list list"

definition new_ws_client :: "string \<Rightarrow> int \<Rightarrow> int \<Rightarrow> int option \<Rightarrow> ws_client" where
  "new_ws_client token initial_backoff max_backoff max_seconds =
     \<lparr>ws_token = token, ws_initial_backoff = initial_backoff, ws_max_backoff = max_backoff,
      ws_max_seconds = max_seconds, ws_stop = False, ws_next_id = 1, ws_disconnect_count = 0,
      ws_last_error_kind = None, ws_connected = False, ws_sent = []\<rparr>"

definition ws_stop_call :: "ws_client \<Rightarrow> ws_client" where
  "ws_stop_call c = c\<lparr>ws_stop := True\<rparr>"

definition send :: "message \<Rightarrow> ws_client \<Rightarrow> ws_client" where
  "send m c = (case ws_sent c of [] \<Rightarrow> c\<lparr>ws_sent := [[m]]\<rparr> | ms # rest \<Rightarrow> c\<lparr>ws_sent := (ms @ [m]) # rest\<rparr>)"

section \<open>One connection\<close>

text \<open>How \<open>_connect_and_loop\<close> ends, or that it is waiting for more.\<close>

datatype outcome = Returned | AuthInvalid | Failed err | Waiting

text \<open>\<open>json.loads(frame).get("type")\<close>; a value that is no object has no \<open>get\<close>.\<close>

definition frame_type :: "string \<Rightarrow> json option res" where
  "frame_type raw =
     (case loads raw of
        Inl e \<Rightarrow> Inl e
      | Inr (JObj kvs) \<Rightarrow> Inr (map_of kvs ''type'')
      | Inr _ \<Rightarrow> Inl AttributeError)"

text \<open>\<open>await ws.recv()\<close> outside the event loop: a call of \<open>stop()\<close> meanwhile only sets the flag.\<close>

fun receive :: "input list \<Rightarrow> ws_client \<Rightarrow> (string option \<times> input list) \<times> ws_client" where
  "receive [] c = ((None, []), c)"
| "receive (Recv raw # ins) c = ((Some raw, ins), c)"
| "receive (Closed # ins) c = ((None, Closed # ins), c)"
| "receive (StopCalled # ins) c = receive ins (ws_stop_call c)"

definition no_frame :: "input list \<Rightarrow> outcome" where
  "no_frame ins = (if ins = [] then Waiting else Failed (RuntimeError ''connection closed''))"

definition subscribe_all :: "ws_client \<Rightarrow> ws_client" where
  "subscribe_all c =
     (let sub_id = ws_next_id c;
          c = send (SubscribeEvents sub_id ''state_changed'') (c\<lparr>ws_next_id := ws_next_id c + 1\<rparr>)
      in fold (\<lambda>kind c.
           let c = c\<lparr>ws_next_id := ws_next_id c + 1\<rparr>
           in send (SubscribeEvents (ws_next_id c) (kind @ ''_registry_updated'')) c)
         [''area'', ''device'', ''entity''] c)"

text \<open>The event loop. An exception of \<open>on_event\<close> is logged and swallowed.\<close>

fun event_loop ::
  "(json \<Rightarrow> 'w \<Rightarrow> unit res \<times> 'w) \<Rightarrow> input list \<Rightarrow> ws_client \<times> 'w \<Rightarrow> outcome \<times> ws_client \<times> 'w" where
  "event_loop on_event [] (c, w) = (if ws_stop c then Returned else Waiting, c, w)"
| "event_loop on_event (i # ins) (c, w) =
     (if ws_stop c then (Returned, c, w)
      else case i of
        StopCalled \<Rightarrow> (Returned, ws_stop_call c, w)
      | Closed \<Rightarrow> (Failed (RuntimeError ''connection closed''), c, w)
      | Recv raw \<Rightarrow>
          (case loads raw of
             Inl e \<Rightarrow> (Failed e, c, w)
           | Inr msg \<Rightarrow>
               (case frame_type raw of
                  Inl e \<Rightarrow> (Failed e, c, w)
                | Inr t \<Rightarrow>
                    if t = Some (JStr ''event'')
                    then event_loop on_event ins (c, snd (on_event msg w))
                    else event_loop on_event ins (c, w))))"

definition connect_and_loop ::
  "(json \<Rightarrow> 'w \<Rightarrow> unit res \<times> 'w) \<Rightarrow> input list \<Rightarrow> ws_client \<times> 'w \<Rightarrow> outcome \<times> ws_client \<times> 'w" where
  "connect_and_loop on_event ins = (\<lambda>(c, w).
     (case receive ins (c\<lparr>ws_sent := [] # ws_sent c\<rparr>) of
        ((None, ins1), c1) \<Rightarrow> (no_frame ins1, c1, w)
      | ((Some raw, ins1), c1) \<Rightarrow>
     (case frame_type raw of
        Inl e \<Rightarrow> (Failed e, c1, w)
      | Inr t \<Rightarrow>
     if t \<noteq> Some (JStr ''auth_required'') then (Failed (RuntimeError ''unexpected hello''), c1, w)
     else
     (case receive ins1 (send (Auth (ws_token c1)) c1) of
        ((None, ins2), c2) \<Rightarrow> (no_frame ins2, c2, w)
      | ((Some raw, ins2), c2) \<Rightarrow>
     (case frame_type raw of
        Inl e \<Rightarrow> (Failed e, c2, w)
      | Inr t \<Rightarrow>
     if t = Some (JStr ''auth_invalid'') then (AuthInvalid, c2, w)
     else if t \<noteq> Some (JStr ''auth_ok'') then (Failed (RuntimeError ''unexpected auth ack''), c2, w)
     else event_loop on_event ins2 ((subscribe_all c2)\<lparr>ws_connected := True\<rparr>, w))))))"

section \<open>Reconnecting\<close>

text \<open>
  What meets one turn of the loop of \<open>run\<close>: the clock at its start, the inputs of the connection
  (\<open>None\<close> if connecting raises), and whether \<open>stop()\<close> is called during the sleep after it.
\<close>

record attempt =
  at_time :: int
  at_conn :: "input list option"
  at_stopped_asleep :: bool

text \<open>Where the run is, and the sleeps it has made.\<close>

datatype run_state = RunReturned | RunWaiting | RunGoesOn

fun ws_run ::
  "(json \<Rightarrow> 'w \<Rightarrow> unit res \<times> 'w) \<Rightarrow> int \<Rightarrow> int \<Rightarrow> attempt list \<Rightarrow> ws_client \<times> 'w
    \<Rightarrow> run_state \<times> int list \<times> ws_client \<times> 'w" where
  "ws_run on_event start backoff [] (c, w) = (if ws_stop c then RunReturned else RunGoesOn, [], c, w)"
| "ws_run on_event start backoff (a # as) (c, w) =
     (if ws_stop c then (RunReturned, [], c, w)
      else if (case ws_max_seconds c of None \<Rightarrow> False | Some m \<Rightarrow> m < at_time a - start)
        then (RunReturned, [], c, w)
      else
        (case (case at_conn a of
                 None \<Rightarrow> (Failed OSError, c, w)
               | Some ins \<Rightarrow> connect_and_loop on_event ins (c, w)) of
           (Waiting, c1, w1) \<Rightarrow> (RunWaiting, [], c1, w1)
         | (AuthInvalid, c1, w1) \<Rightarrow> (RunReturned, [], c1\<lparr>ws_last_error_kind := Some ''auth-invalid''\<rparr>, w1)
         | (out, c1, w1) \<Rightarrow>
             (let backoff = (if out = Returned then ws_initial_backoff c1 else backoff);
                  c2 = (if out = Returned then c1
                        else c1\<lparr>ws_last_error_kind := Some ''ws-disconnected'', ws_connected := False,
                                ws_disconnect_count := ws_disconnect_count c1 + 1\<rparr>)
              in if ws_stop c2 then (RunReturned, [], c2, w1)
                 else if at_stopped_asleep a then (RunReturned, [], ws_stop_call c2, w1)
                 else case ws_run on_event start (min (ws_max_backoff c2) (backoff * 2)) as (c2, w1) of
                   (st, sleeps, c3, w3) \<Rightarrow> (st, backoff # sleeps, c3, w3))))"

section \<open>What stays and what changes\<close>

text \<open>The settings of a client are fixed.\<close>

definition settings :: "ws_client \<Rightarrow> string \<times> int \<times> int \<times> int option" where
  "settings c = (ws_token c, ws_initial_backoff c, ws_max_backoff c, ws_max_seconds c)"

lemma settings_simps [simp]:
  "settings (c\<lparr>ws_stop := b\<rparr>) = settings c" "settings (c\<lparr>ws_next_id := n\<rparr>) = settings c"
  "settings (c\<lparr>ws_connected := b\<rparr>) = settings c" "settings (c\<lparr>ws_sent := ms\<rparr>) = settings c"
  "settings (c\<lparr>ws_last_error_kind := k\<rparr>) = settings c" "settings (c\<lparr>ws_disconnect_count := n\<rparr>) = settings c"
  "settings (send m c) = settings c" "settings (ws_stop_call c) = settings c"
  by (simp_all add: settings_def send_def ws_stop_call_def split: list.split)

lemma receive_facts:
  "receive ins c = (r, c') \<Longrightarrow> settings c' = settings c \<and> ws_sent c' = ws_sent c \<and> ws_next_id c' = ws_next_id c"
  by (induction ins c rule: receive.induct) (auto simp: ws_stop_call_def settings_def)

lemma event_loop_facts:
  "event_loop on_event ins (c, w) = (out, c', w') \<Longrightarrow>
     settings c' = settings c \<and> ws_sent c' = ws_sent c \<and> out \<noteq> AuthInvalid \<and> (out = Returned \<longrightarrow> ws_stop c')"
proof (induction ins arbitrary: w)
  case Nil
  then show ?case by (auto split: if_splits)
next
  case (Cons i ins)
  then show ?case
    by (auto simp: ws_stop_call_def settings_def split: if_splits input.splits sum.splits)
qed

lemma send_next [simp]: "ws_next_id (send m c) = ws_next_id c"
  by (simp add: send_def split: list.split)

lemma send_next_update: "send m (c\<lparr>ws_next_id := n\<rparr>) = (send m c)\<lparr>ws_next_id := n\<rparr>"
  by (cases "ws_sent c") (simp_all add: send_def)

lemma subscribe_all_eq:
  "subscribe_all c =
     (let n = ws_next_id c in
      send (SubscribeEvents (n + 4) ''entity_registry_updated'')
       (send (SubscribeEvents (n + 3) ''device_registry_updated'')
        (send (SubscribeEvents (n + 2) ''area_registry_updated'')
         (send (SubscribeEvents n ''state_changed'') c)))\<lparr>ws_next_id := n + 4\<rparr>)"
  by (simp add: subscribe_all_def send_next_update Let_def add.commute)

text \<open>How far a connection gets: no hello, no acknowledgement, or into the event loop.\<close>

lemma connect_cases:
  assumes "connect_and_loop on_event ins (c, w) = (out, c', w')"
  obtains (hello) ins1 r where "receive ins (c\<lparr>ws_sent := [] # ws_sent c\<rparr>) = ((r, ins1), c')" "out \<noteq> Returned"
  | (ack) raw ins1 c1 ins2 r where "receive ins (c\<lparr>ws_sent := [] # ws_sent c\<rparr>) = ((Some raw, ins1), c1)"
      "frame_type raw = Inr (Some (JStr ''auth_required''))"
      "receive ins1 (send (Auth (ws_token c1)) c1) = ((r, ins2), c')" "out \<noteq> Returned"
  | (loop) raw ins1 c1 raw2 ins2 c2 where "receive ins (c\<lparr>ws_sent := [] # ws_sent c\<rparr>) = ((Some raw, ins1), c1)"
      "frame_type raw = Inr (Some (JStr ''auth_required''))"
      "receive ins1 (send (Auth (ws_token c1)) c1) = ((Some raw2, ins2), c2)"
      "frame_type raw2 = Inr (Some (JStr ''auth_ok''))"
      "event_loop on_event ins2 ((subscribe_all c2)\<lparr>ws_connected := True\<rparr>, w) = (out, c', w')"
proof -
  obtain r1 ins1 c1 where 1: "receive ins (c\<lparr>ws_sent := [] # ws_sent c\<rparr>) = ((r1, ins1), c1)" by (metis surj_pair)
  show thesis
  proof (cases "r1 \<noteq> None \<and> frame_type (the r1) = Inr (Some (JStr ''auth_required''))")
    case False
    then have "c' = c1 \<and> out \<noteq> Returned" using assms 1
      by (auto simp: connect_and_loop_def no_frame_def split: option.splits sum.splits if_splits)
    with 1 hello show thesis by blast
  next
    case True
    then obtain raw where raw: "r1 = Some raw" "frame_type raw = Inr (Some (JStr ''auth_required''))" by auto
    obtain r2 ins2 c2 where 2: "receive ins1 (send (Auth (ws_token c1)) c1) = ((r2, ins2), c2)" by (metis surj_pair)
    show thesis
    proof (cases "r2 \<noteq> None \<and> frame_type (the r2) = Inr (Some (JStr ''auth_ok''))")
      case False
      then have "c' = c2 \<and> out \<noteq> Returned" using assms 1 2 raw
        by (auto simp: connect_and_loop_def no_frame_def split: option.splits sum.splits if_splits)
      with 1 2 raw ack show thesis by blast
    next
      case True
      then obtain raw2 where raw2: "r2 = Some raw2" "frame_type raw2 = Inr (Some (JStr ''auth_ok''))" by auto
      have "event_loop on_event ins2 ((subscribe_all c2)\<lparr>ws_connected := True\<rparr>, w) = (out, c', w')"
        using assms 1 2 raw raw2 by (simp add: connect_and_loop_def)
      with 1 2 raw raw2 loop show thesis by blast
    qed
  qed
qed

lemma subscribe_settings [simp]: "settings (subscribe_all x) = settings x"
  by (simp add: subscribe_all_eq Let_def)

lemma connect_settings:
  assumes "connect_and_loop on_event ins (c, w) = (out, c', w')"
  shows "settings c' = settings c \<and> (out = Returned \<longrightarrow> ws_stop c')"
  using assms
proof (cases rule: connect_cases)
  case (hello ins1 r)
  with receive_facts [OF hello(1)] show ?thesis by simp
next
  case (ack raw ins1 c1 ins2 r)
  with receive_facts [OF ack(1)] receive_facts [OF ack(3)] show ?thesis by simp
next
  case (loop raw ins1 c1 raw2 ins2 c2)
  with receive_facts [OF loop(1)] receive_facts [OF loop(3)] event_loop_facts [OF loop(5)] show ?thesis by simp
qed

section \<open>Backoff\<close>

lemma doubling: "0 \<le> m \<Longrightarrow> min m (min m b * 2) = min m (b * 2)" for m b :: int
  by (simp add: min_def)

lemma sleeps_from:
  assumes "ws_run on_event start b as (c, w) = (st, sleeps, c', w')" and "0 \<le> ws_max_backoff c" and "k < length sleeps"
  shows "sleeps ! k = (if k = 0 then b else min (ws_max_backoff c) (b * 2 ^ k))"
  using assms
proof (induction as arbitrary: b c w st sleeps k c' w')
  case Nil
  then show ?case by auto
next
  case (Cons a as)
  define res where "res = (case at_conn a of None \<Rightarrow> (Failed OSError, c, w) | Some ins \<Rightarrow> connect_and_loop on_event ins (c, w))"
  obtain out c1 w1 where res: "res = (out, c1, w1)" by (metis surj_pair)
  have cs: "settings c1 = settings c \<and> (out = Returned \<longrightarrow> ws_stop c1)"
    using res connect_settings [of on_event _ c w out c1 w1] by (auto simp: res_def split: option.splits)
  define c2 where "c2 = c1\<lparr>ws_last_error_kind := Some ''ws-disconnected'', ws_connected := False,
    ws_disconnect_count := ws_disconnect_count c1 + 1\<rparr>"
  have run: "\<not> ws_stop c" "\<not> (case ws_max_seconds c of None \<Rightarrow> False | Some m \<Rightarrow> m < at_time a - start)"
    using Cons.prems(1,3) by (auto split: if_splits)
  have "out \<noteq> Waiting" "out \<noteq> AuthInvalid" "out \<noteq> Returned"
    using Cons.prems(1,3) cs run by (auto simp: res [unfolded res_def] split: if_splits)
  then obtain e where out: "out = Failed e" by (cases out) auto
  obtain st2 sl c3 w3 where rec: "ws_run on_event start (min (ws_max_backoff c2) (b * 2)) as (c2, w1) = (st2, sl, c3, w3)"
    by (metis surj_pair)
  have sl: "sleeps = b # sl"
    using Cons.prems(1,3) run rec by (auto simp: res [unfolded res_def] out Let_def c2_def [symmetric] split: if_splits)
  have m: "ws_max_backoff c2 = ws_max_backoff c" using cs by (simp add: c2_def settings_def)
  show ?case
  proof (cases k)
    case 0
    then show ?thesis by (simp add: sl)
  next
    case (Suc j)
    have "sl ! j = (if j = 0 then min (ws_max_backoff c) (b * 2) else min (ws_max_backoff c) (min (ws_max_backoff c) (b * 2) * 2 ^ j))"
      using Cons.IH [OF rec, of j] Cons.prems(2,3) sl Suc m by simp
    moreover have "min (ws_max_backoff c) (min (ws_max_backoff c) (b * 2) * 2 ^ j) = min (ws_max_backoff c) (b * 2 * 2 ^ j)"
    proof -
      have p: "(1 :: int) \<le> 2 ^ j" by simp
      have "ws_max_backoff c \<le> ws_max_backoff c * 2 ^ j" using Cons.prems(2) p mult_left_mono [OF p Cons.prems(2)] by simp
      then show ?thesis by (simp add: min_def mult_right_mono) (smt (verit) mult_right_mono p)
    qed
    ultimately show ?thesis by (simp add: sl Suc mult.assoc)
  qed
qed

text \<open>How a run ends, and how many sleeps it has made until then.\<close>

definition overdue :: "int \<Rightarrow> ws_client \<Rightarrow> attempt \<Rightarrow> bool" where
  "overdue start c a = (case ws_max_seconds c of None \<Rightarrow> False | Some m \<Rightarrow> m < at_time a - start)"

lemma run_ends:
  assumes "ws_run on_event start b as (c, w) = (st, sleeps, c', w')"
  shows "case st of
      RunReturned \<Rightarrow> ws_stop c' \<or> ws_last_error_kind c' = Some ''auth-invalid'' \<or> (\<exists>a \<in> set as. overdue start c a)
    | RunWaiting \<Rightarrow> length sleeps < length as \<and> at_conn (as ! length sleeps) \<noteq> None
    | RunGoesOn \<Rightarrow> length sleeps = length as \<and> \<not> ws_stop c'"
  using assms
proof (induction as arbitrary: b c w st sleeps c' w')
  case Nil
  then show ?case by (auto split: if_splits)
next
  case (Cons a as)
  define res where "res = (case at_conn a of None \<Rightarrow> (Failed OSError, c, w) | Some ins \<Rightarrow> connect_and_loop on_event ins (c, w))"
  obtain out c1 w1 where res: "res = (out, c1, w1)" by (metis surj_pair)
  have cs: "settings c1 = settings c \<and> (out = Returned \<longrightarrow> ws_stop c1)"
    using res connect_settings [of on_event _ c w out c1 w1] by (auto simp: res_def split: option.splits)
  show ?case
  proof (cases "ws_stop c \<or> overdue start c a")
    case True
    with Cons.prems show ?thesis by (auto simp: overdue_def split: if_splits)
  next
    case False
    then have run: "\<not> ws_stop c" "\<not> (case ws_max_seconds c of None \<Rightarrow> False | Some m \<Rightarrow> m < at_time a - start)"
      by (simp_all add: overdue_def)
    show ?thesis
    proof (cases out)
      case Waiting
      with Cons.prems run res show ?thesis by (auto simp: res_def split: option.splits)
    next
      case AuthInvalid
      with Cons.prems run show ?thesis by (auto simp: res [unfolded res_def])
    next
      case Returned
      with Cons.prems run cs show ?thesis by (auto simp: res [unfolded res_def] Let_def)
    next
      case (Failed e)
      define c2 where "c2 = c1\<lparr>ws_last_error_kind := Some ''ws-disconnected'', ws_connected := False,
        ws_disconnect_count := ws_disconnect_count c1 + 1\<rparr>"
      have od: "overdue start c2 = overdue start c"
        using cs by (auto simp: fun_eq_iff overdue_def c2_def settings_def)
      obtain st2 sl c3 w3 where rec: "ws_run on_event start (min (ws_max_backoff c2) (b * 2)) as (c2, w1) = (st2, sl, c3, w3)"
        by (metis surj_pair)
      show ?thesis
      proof (cases "ws_stop c2 \<or> at_stopped_asleep a")
        case True
        with Cons.prems run show ?thesis
          by (auto simp: res [unfolded res_def] Failed Let_def c2_def ws_stop_call_def split: if_splits)
      next
        case False
        with Cons.prems run rec have "st = st2" "sleeps = b # sl" "c' = c3"
          by (simp_all add: res [unfolded res_def] Failed Let_def c2_def)
        with Cons.IH [OF rec] show ?thesis by (auto simp: od split: run_state.splits)
      qed
    qed
  qed
qed

text \<open>
  C39. A client goes on trying, and its backoff never starts over. In one call of \<open>run\<close>, whatever the connections did
  in between and however long they were up, the k-th sleep is the initial backoff doubled k times,
  up to the maximum. \<open>run\<close> returns only after \<open>stop()\<close>, after a refused token or when its time is over; else the last of its
  connections is open, or each of its connections has failed and was followed by a sleep. (The reset after a connection that returned comes into play
  only after \<open>stop()\<close>, when no sleep follows.)
\<close>

theorem backoff_never_resets:
  assumes "ws_run on_event start (ws_initial_backoff c) as (c, w) = (st, sleeps, c', w')" and "0 \<le> ws_max_backoff c"
  shows "(case st of
      RunReturned \<Rightarrow> ws_stop c' \<or> ws_last_error_kind c' = Some ''auth-invalid'' \<or> (\<exists>a \<in> set as. overdue start c a)
    | RunWaiting \<Rightarrow> length sleeps < length as \<and> at_conn (as ! length sleeps) \<noteq> None
    | RunGoesOn \<Rightarrow> length sleeps = length as \<and> \<not> ws_stop c') \<and>
    (\<forall>k < length sleeps. sleeps ! k =
      (if k = 0 then ws_initial_backoff c else min (ws_max_backoff c) (ws_initial_backoff c * 2 ^ k)))"
  using run_ends [OF assms(1)] sleeps_from [OF assms(1,2)] by simp_all

lemma backoff_never_resets_witness:
  "let (st, sleeps, c', w') = ws_run (\<lambda>m w. (Inr (), w)) 0 1
     [\<lparr>at_time = 0, at_conn = None, at_stopped_asleep = False\<rparr>,
      \<lparr>at_time = 9, at_conn = Some [Closed], at_stopped_asleep = False\<rparr>,
      \<lparr>at_time = 99, at_conn = None, at_stopped_asleep = False\<rparr>]
     (new_ws_client ''t'' 1 60 None, ())
   in st = RunGoesOn \<and> sleeps = [1, 2, 4]"
proof -
  let ?as = "[\<lparr>at_time = 0, at_conn = None, at_stopped_asleep = False\<rparr>,
      \<lparr>at_time = 9, at_conn = Some [Closed], at_stopped_asleep = False\<rparr>,
      \<lparr>at_time = 99, at_conn = None, at_stopped_asleep = False\<rparr>]"
  define c where "c = new_ws_client ''t'' 1 60 None"
  have c: "ws_max_backoff c = 60" "ws_initial_backoff c = 1" by (simp_all add: c_def new_ws_client_def)
  obtain st sl c' w' where r: "ws_run (\<lambda>m w. (Inr (), w)) 0 (ws_initial_backoff c) ?as (c, ()) = (st, sl, c', w')"
    by (metis surj_pair)
  have g: "st = RunGoesOn"
    using r by (auto simp: c_def new_ws_client_def connect_and_loop_def no_frame_def Let_def split: prod.splits)
  have "length sl = 3 \<and> (\<forall>k < length sl. sl ! k = (if k = 0 then 1 else min 60 (2 ^ k)))"
    using backoff_never_resets [OF r] g c by simp
  then have "sl = [1, 2, 4]" by (auto simp: list_eq_iff_nth_eq numeral_eq_Suc less_Suc_eq)
  with r [unfolded c(2)] g show ?thesis by (simp add: Let_def c_def del: ws_run.simps)
qed

section \<open>The handshake\<close>

lemma send_sent: "ws_sent (send m c) = (case ws_sent c of [] \<Rightarrow> [[m]] | ms # rest \<Rightarrow> (ms @ [m]) # rest)"
  by (simp add: send_def split: list.split)

text \<open>The first two frames of a connection, calls of \<open>stop()\<close> left out.\<close>

definition frame :: "nat \<Rightarrow> input list \<Rightarrow> string option" where
  "frame n ins = (let rs = takeWhile (\<lambda>i. i \<noteq> Closed) (filter (\<lambda>i. i \<noteq> StopCalled) ins) in
     if n < length rs then (case rs ! n of Recv raw \<Rightarrow> Some raw | _ \<Rightarrow> None) else None)"

lemma receive_frame:
  "receive ins c = ((Some raw, ins'), c') \<Longrightarrow> frame 0 ins = Some raw \<and> frame (Suc n) ins = frame n ins'"
  by (induction ins c rule: receive.induct) (auto simp: frame_def Let_def)

lemma connect_sent:
  assumes "connect_and_loop on_event ins (c, w) = (out, c', w')"
  shows "ws_sent c' = [] # ws_sent c \<or>
    (frame 0 ins \<noteq> None \<and> frame_type (the (frame 0 ins)) = Inr (Some (JStr ''auth_required'')) \<and>
     (ws_sent c' = [Auth (ws_token c)] # ws_sent c \<or>
      frame 1 ins \<noteq> None \<and> frame_type (the (frame 1 ins)) = Inr (Some (JStr ''auth_ok'')) \<and>
      ws_sent c' = [Auth (ws_token c), SubscribeEvents (ws_next_id c) ''state_changed'',
        SubscribeEvents (ws_next_id c + 2) ''area_registry_updated'',
        SubscribeEvents (ws_next_id c + 3) ''device_registry_updated'',
        SubscribeEvents (ws_next_id c + 4) ''entity_registry_updated''] # ws_sent c))"
  using assms
proof (cases rule: connect_cases)
  case (hello ins1 r)
  with receive_facts [OF hello(1)] show ?thesis by simp
next
  case (ack raw ins1 c1 ins2 r)
  note f = receive_facts [OF ack(1)] receive_facts [OF ack(3)]
  have "ws_token c1 = ws_token c" using f by (simp add: settings_def)
  with f have "ws_sent c' = [Auth (ws_token c)] # ws_sent c" by (simp add: send_sent)
  with ack(2) receive_frame [OF ack(1), of 0] show ?thesis by simp
next
  case (loop raw ins1 c1 raw2 ins2 c2)
  note f = receive_facts [OF loop(1)] receive_facts [OF loop(3)]
  have "ws_token c1 = ws_token c" using f by (simp add: settings_def)
  with f have sent: "ws_sent c2 = [Auth (ws_token c)] # ws_sent c" "ws_next_id c2 = ws_next_id c"
    by (simp_all add: send_sent)
  have "ws_sent c' = ws_sent (subscribe_all c2)" using event_loop_facts [OF loop(5)] by simp
  with sent loop(2,4) receive_frame [OF loop(1), of 0] receive_frame [OF loop(3), of 0] show ?thesis
    by (simp add: subscribe_all_eq Let_def send_sent)
qed

text \<open>
  The handshake: a connection sends the token only after a frame of type \<open>auth_required\<close>, and its
  four subscriptions only after a second frame of type \<open>auth_ok\<close>; it sends nothing else, what earlier
  connections sent stays, and the ids of its subscriptions rise strictly from the
  next free id.
\<close>

theorem handshake_is_followed:
  assumes "connect_and_loop on_event ins (c, w) = (out, c', w')"
  shows "\<exists>ms. ws_sent c' = ms # ws_sent c \<and>
    (ms \<noteq> [] \<longrightarrow> hd ms = Auth (ws_token c) \<and> frame 0 ins \<noteq> None \<and>
       frame_type (the (frame 0 ins)) = Inr (Some (JStr ''auth_required''))) \<and>
    (tl ms \<noteq> [] \<longrightarrow> frame 1 ins \<noteq> None \<and> frame_type (the (frame 1 ins)) = Inr (Some (JStr ''auth_ok'')) \<and>
       map (\<lambda>m. case m of SubscribeEvents i k \<Rightarrow> k | _ \<Rightarrow> []) (tl ms) =
         [''state_changed'', ''area_registry_updated'', ''device_registry_updated'', ''entity_registry_updated'']) \<and>
    (\<forall>m \<in> set (tl ms). \<exists>i k. m = SubscribeEvents i k \<and> ws_next_id c \<le> i) \<and>
    sorted_wrt (<) (map (\<lambda>m. case m of SubscribeEvents i k \<Rightarrow> i | _ \<Rightarrow> 0) (tl ms))"
  using connect_sent [OF assms] by (elim disjE conjE) simp_all

lemma handshake_is_followed_witness:
  "\<exists>ms. ws_sent (fst (snd (connect_and_loop (\<lambda>m w. (Inr (), w)) [Closed] (new_ws_client ''t'' 1 60 None, ())))) = ms # [] \<and>
    (ms \<noteq> [] \<longrightarrow> hd ms = Auth ''t'')"
proof -
  define c where "c = new_ws_client ''t'' 1 60 None"
  have c: "ws_sent c = []" "ws_token c = ''t''" by (simp_all add: c_def new_ws_client_def)
  obtain out c' w' where r: "connect_and_loop (\<lambda>m w. (Inr (), w)) [Closed] (c, ()) = (out, c', w')"
    by (metis surj_pair)
  from handshake_is_followed [OF r] show ?thesis unfolding c_def [symmetric] r c by auto
qed

section \<open>Delivery\<close>

text \<open>
  Delivery: once subscribed, the frames that arrive are handed to \<open>on_event\<close> in order, exactly those of
  type \<open>event\<close>; what \<open>on_event\<close> raises changes nothing about the frames after it.
\<close>

theorem events_are_delivered_in_order:
  assumes "\<forall>raw \<in> set raws. ok (frame_type raw)" and "\<not> ws_stop c"
  shows "event_loop on_event (map Recv raws @ ins) (c, w) =
    event_loop on_event ins (c, fold (\<lambda>msg w. snd (on_event msg w))
      (map (\<lambda>raw. projr (loads raw)) (filter (\<lambda>raw. frame_type raw = Inr (Some (JStr ''event''))) raws)) w)"
  using assms
proof (induction raws arbitrary: w)
  case Nil
  then show ?case by simp
next
  case (Cons raw raws)
  then obtain t where t1: "frame_type raw = Inr t" by (cases "frame_type raw") auto
  moreover from t1 obtain msg where "loads raw = Inr msg" by (cases "loads raw") (auto simp: frame_type_def)
  ultimately have t: "frame_type raw = Inr t" "loads raw = Inr msg" by simp_all
  with Cons show ?case by (auto split: if_splits)
qed

lemma events_are_delivered_in_order_witness:
  "event_loop (\<lambda>msg w. (Inl ValueError, w + (1 :: int))) (map Recv [''{\"type\":\"event\"}'', ''{\"type\":\"pong\"}'', ''{\"type\":\"event\"}''] @ [])
     (new_ws_client ''t'' 1 60 None, 0) = (Waiting, new_ws_client ''t'' 1 60 None, 2)"
proof -
  have t: "frame_type ''{\"type\":\"event\"}'' = Inr (Some (JStr ''event''))"
    "frame_type ''{\"type\":\"pong\"}'' = Inr (Some (JStr ''pong''))" by code_simp+
  show ?thesis
    by (subst events_are_delivered_in_order) (simp_all add: t new_ws_client_def)
qed

end
