(* ===== verification/EndToEnd.thy ===== *)
theory EndToEnd
  imports WiringProps IngestProps WsClient
begin

text \<open>
  The way of an event through the program: a frame of the web socket, the event loop of \<open>HAWSClient\<close>, the handler
  of \<open>main.py\<close>, and the four places it feeds. \<open>wakes n\<close> is what the n-th call of the handler finds.
\<close>

section \<open>The handler in the event loop\<close>

definition handler ::
  "(string \<Rightarrow> string) \<Rightarrow> (nat \<Rightarrow> wake) \<Rightarrow> json \<Rightarrow> app \<times> nat \<Rightarrow> unit res \<times> app \<times> nat" where
  "handler sha wakes msg = (\<lambda>(a, n). case on_ws_event sha (wakes n) msg a of (r, a') \<Rightarrow> (r, a', Suc n))"

text \<open>The messages that reach the handler, and the handler's calls.\<close>

definition event_messages :: "string list \<Rightarrow> json list" where
  "event_messages raws = map (\<lambda>raw. projr (loads raw)) (filter (\<lambda>raw. frame_type raw = Inr (Some (JStr ''event''))) raws)"

fun calls :: "(nat \<Rightarrow> wake) \<Rightarrow> nat \<Rightarrow> json list \<Rightarrow> (wake \<times> json) list" where
  "calls wakes n [] = []"
| "calls wakes n (m # ms) = (wakes n, m) # calls wakes (Suc n) ms"

lemma fold_handler:
  "fold (\<lambda>msg w. snd (handler sha wakes msg w)) ms (a, n) = (deliver sha (calls wakes n ms) a, n + length ms)"
  by (induction ms arbitrary: a n) (simp_all add: deliver_def handler_def split: prod.split)

text \<open>
  C5. From the socket to the stores. Let every connection of the database succeed, and let all frames of an open connection be
  JSON objects that the handler can read, without registry updates among them and with dates that the archive can write. The
  frames go through the event loop and the handler, and exactly the state changes among them that no privacy pattern matches, each once and
  in order, are added to what is stored or buffered for the next commit; the archive, every open stream and the
  health metrics get all state changes, the hidden ones too.
\<close>

theorem frames_reach_the_stores:
  assumes "healthy (is_db (ap_sys a))" and "writer_ok (ap_jsonl a)" and "\<not> ws_stop c"
    and "\<forall>raw \<in> set raws. ok (frame_type raw)"
    and "list_all plain_message (calls wakes 0 (event_messages raws))"
  shows "\<exists>a' n. event_loop (handler sha wakes) (map Recv raws) (c, a, 0) = (Waiting, c, a', n) \<and>
    (let evs = events_of (calls wakes 0 (event_messages raws)) in
     iheld (ap_sys a') = iheld (ap_sys a) @ map (tagged (is_idx (ap_sys a))) (filter (visible a) evs) \<and>
     (\<forall>t day. day_of t = Inr day \<longrightarrow> contents (path_for_day day (ap_jsonl a)) (ap_jsonl a') =
       contents (path_for_day day (ap_jsonl a)) (ap_jsonl a) @
       map archive_line (filter (\<lambda>ev. day_number (he_ts_ms ev) = day_number t) evs)) \<and>
     ap_broadcaster a' = fold publish (map stream_event evs) (ap_broadcaster a) \<and>
     ap_health a' = fold record_event (map he_ts_ms evs) (ap_health a))"
proof -
  let ?ms = "event_messages raws"
  have "event_loop (handler sha wakes) (map Recv raws @ []) (c, a, 0) =
      event_loop (handler sha wakes) [] (c, fold (\<lambda>msg w. snd (handler sha wakes msg w)) ?ms (a, 0))"
    using events_are_delivered_in_order [OF assms(4,3), of "handler sha wakes" "[]" "(a, 0)"]
    by (simp add: event_messages_def)
  then have "event_loop (handler sha wakes) (map Recv raws) (c, a, 0) =
      (Waiting, c, deliver sha (calls wakes 0 ?ms) a, length ?ms)"
    using assms(3) by (simp add: fold_handler)
  then show ?thesis
    unfolding Let_def using deliver_all [OF assms(1,2,5), of sha] by blast
qed

text \<open>A hidden door opens and a lamp changes: the store gets the lamp, archive and stream get both.\<close>

definition door_app :: app where
  "door_app = \<lparr>ap_sys = new_isys \<lparr>hm_compiled = [\<lambda>e. e = ''lock.door'']\<rparr> 100 1000 [],
     ap_jsonl = new_writer False, ap_broadcaster = snd (subscribe (new_broadcaster 500)), ap_health = new_health 0\<rparr>"

definition door_wake :: wake where
  "door_wake = \<lparr>wk_now = 5, wk_clock = at 5, wk_frames = None\<rparr>"

definition door_frames :: "string list" where
  "door_frames =
     [''{\"type\":\"event\",\"event\":{\"event_type\":\"state_changed\",\"data\":{\"entity_id\":\"lock.door\"}}}'',
      ''{\"type\":\"result\",\"id\":1}'',
      ''{\"type\":\"event\",\"event\":{\"event_type\":\"state_changed\",\"data\":{\"entity_id\":\"light.a\"}}}'']"

definition change_message :: "string \<Rightarrow> json" where
  "change_message eid = JObj [(''type'', JStr ''event''), (''event'', JObj [(''event_type'', JStr ''state_changed''),
     (''data'', JObj [(''entity_id'', JStr eid)])])]"

lemma read_change: "read_message now (change_message eid) = Inr (StateChanged (state_change now eid))"
  by (simp add: read_message_def change_message_def state_change_def as_obj_def get_default_def
    state_event_def or_empty_def state_text_def context_field_def json_truthy_def get_s_def Let_def)

lemma door_frames_read:
  "map loads door_frames = [Inr (change_message ''lock.door''),
     Inr (JObj [(''type'', JStr ''result''), (''id'', JInt 1)]), Inr (change_message ''light.a'')]"
  by code_simp

lemma door_day: "day_of 5 = Inr ''1970-01-01''"
  by code_simp

lemma door_healthy: "healthy (is_db (ap_sys door_app))"
  by (simp add: door_app_def new_isys_def)

lemma door_facts:
  "writer_ok (ap_jsonl door_app)" "wk_now door_wake = 5"
  "\<not> visible door_app (state_change 5 ''lock.door'')" "visible door_app (state_change 5 ''light.a'')"
  "path_for_day ''1970-01-01'' (ap_jsonl door_app) = ''1970-01-01.jsonl''"
  "persisted (is_db (ap_sys door_app)) = []" "pending (ap_sys door_app) = []" "is_idx (ap_sys door_app) = []"
  "contents ''1970-01-01.jsonl'' (ap_jsonl door_app) = []" "pp_task (is_pipe (ap_sys door_app)) = NoTask"
  by (simp_all add: door_app_def door_wake_def new_isys_def new_pipeline_def new_writer_def writer_ok_def visible_def
    hidden_def matches_def row_simps path_for_day_def persisted_def pending_def contents_def file_lines_def empty_db_def)

abbreviation door_messages :: "(wake \<times> json) list" where
  "door_messages \<equiv> [(door_wake, change_message ''lock.door''), (door_wake, change_message ''light.a'')]"

lemma door_events:
  "list_all plain_message door_messages"
  "events_of door_messages = [state_change 5 ''lock.door'', state_change 5 ''light.a'']"
  by (simp_all add: plain_message_def door_facts(2) read_change door_day)

lemma frames_reach_the_stores_witness:
  "\<exists>c a n. event_loop (handler (\<lambda>x. x) (\<lambda>_. door_wake)) (map Recv door_frames) (new_ws_client ''t'' 1 60 None, door_app, 0) =
      (Waiting, c, a, n) \<and>
    iheld (ap_sys a) = [(state_change 5 ''light.a'', 0)] \<and>
    contents ''1970-01-01.jsonl'' (ap_jsonl a) =
      [archive_line (state_change 5 ''lock.door''), archive_line (state_change 5 ''light.a'')] \<and>
    queue_of 0 (ap_broadcaster a) = Some [stream_event (state_change 5 ''lock.door''), stream_event (state_change 5 ''light.a'')]"
proof -
  let ?c = "new_ws_client ''t'' 1 60 None"
  have s: "\<not> ws_stop ?c" by (simp add: new_ws_client_def)
  obtain r1 r2 r3 where r: "door_frames = [r1, r2, r3]" by (simp add: door_frames_def)
  have l: "loads r1 = Inr (change_message ''lock.door'')" "loads r2 = Inr (JObj [(''type'', JStr ''result''), (''id'', JInt 1)])"
    "loads r3 = Inr (change_message ''light.a'')" using door_frames_read unfolding r by simp_all
  have f: "frame_type r1 = Inr (Some (JStr ''event''))" "frame_type r2 = Inr (Some (JStr ''result''))"
    "frame_type r3 = Inr (Some (JStr ''event''))"
    by (simp_all add: frame_type_def l change_message_def)
  have ty: "\<forall>raw \<in> set door_frames. ok (frame_type raw)" by (simp add: r f)
  have ms: "calls (\<lambda>_. door_wake) 0 (event_messages door_frames) =
      door_messages"
    by (simp add: event_messages_def r f l)
  have pl: "list_all plain_message (calls (\<lambda>_. door_wake) 0 (event_messages door_frames))"
    unfolding ms by (rule door_events)
  have e: "events_of (calls (\<lambda>_. door_wake) 0 (event_messages door_frames)) =
      [state_change 5 ''lock.door'', state_change 5 ''light.a'']"
    unfolding ms by (rule door_events)
  have q: "queue_of 0 (ap_broadcaster door_app) = Some []" "bc_queue_size (ap_broadcaster door_app) = 500"
    by (simp_all add: door_app_def queue_of_def subscribe_def new_broadcaster_def)
  have n: "bc_queue_size (publish x b) = bc_queue_size b" for x b by (simp add: publish_def)
  from frames_reach_the_stores [OF door_healthy door_facts(1) s ty pl, of "\<lambda>x. x"]
  obtain a n where run: "event_loop (handler (\<lambda>x. x) (\<lambda>_. door_wake)) (map Recv door_frames) (?c, door_app, 0) = (Waiting, ?c, a, n)"
    and 1: "iheld (ap_sys a) = iheld (ap_sys door_app) @ map (tagged (is_idx (ap_sys door_app)))
      (filter (visible door_app) [state_change 5 ''lock.door'', state_change 5 ''light.a''])"
    and 2: "\<And>t day. day_of t = Inr day \<Longrightarrow> contents (path_for_day day (ap_jsonl door_app)) (ap_jsonl a) =
       contents (path_for_day day (ap_jsonl door_app)) (ap_jsonl door_app) @
       map archive_line (filter (\<lambda>ev. day_number (he_ts_ms ev) = day_number t)
         [state_change 5 ''lock.door'', state_change 5 ''light.a''])"
    and 3: "ap_broadcaster a = fold publish (map stream_event [state_change 5 ''lock.door'', state_change 5 ''light.a'']) (ap_broadcaster door_app)"
    unfolding e Let_def by blast
  have "iheld (ap_sys a) = [(state_change 5 ''light.a'', 0)]"
    unfolding 1 by (simp add: door_facts iheld_def tagged_def lookup_def)
  moreover have "contents ''1970-01-01.jsonl'' (ap_jsonl a) =
      [archive_line (state_change 5 ''lock.door''), archive_line (state_change 5 ''light.a'')]"
    using 2 [OF door_day] unfolding door_facts by (simp add: row_simps)
  moreover have "queue_of 0 (ap_broadcaster a) = Some [stream_event (state_change 5 ''lock.door''), stream_event (state_change 5 ''light.a'')]"
    by (simp add: 3 queue_publish n q offer_def queue_full_def)
  ultimately show ?thesis using run by blast
qed

section \<open>Shutdown\<close>

lemma commit_locked_flags:
  "commit_locked ck idx (pl, d) = (r, pl', d') \<Longrightarrow> pp_task pl' = pp_task pl \<and> pp_stop pl' = pp_stop pl"
  by (auto simp: commit_locked_def split: if_splits prod.splits sum.splits)

lemma submit_flags:
  "submit ck idx ev (pl, d) = (r, pl', d') \<Longrightarrow> pp_task pl' = pp_task pl \<and> pp_stop pl' = pp_stop pl"
  by (auto simp: submit_def Let_def dest!: commit_locked_flags split: if_splits prod.splits)

lemma submit_task: "pp_task (is_pipe (snd (istep sha (Submit ck ev) s))) = pp_task (is_pipe s)"
  by (cases "submit ck (is_idx s) ev (is_pipe s, is_db s)") (auto simp: istep_def dest!: submit_flags)

text \<open>What a run of messages keeps: a database that answers, the flush task, the form of the archive.\<close>

lemma deliver_keeps:
  assumes "healthy (is_db (ap_sys a))" and "writer_ok (ap_jsonl a)" and "list_all plain_message ms"
  shows "healthy (is_db (ap_sys (deliver sha ms a))) \<and> writer_ok (ap_jsonl (deliver sha ms a)) \<and>
    pp_task (is_pipe (ap_sys (deliver sha ms a))) = pp_task (is_pipe (ap_sys a)) \<and>
    is_idx (ap_sys (deliver sha ms a)) = is_idx (ap_sys a) \<and>
    path_for_day d (ap_jsonl (deliver sha ms a)) = path_for_day d (ap_jsonl a)"
  using assms
proof (induction ms arbitrary: a)
  case Nil
  then show ?case by (simp add: deliver_def)
next
  case (Cons x ms)
  obtain w m where x: "x = (w, m)" by fastforce
  have tl: "list_all plain_message ms" using Cons.prems(3) by simp
  have "plain_message (w, m)" using Cons.prems(3) by (simp add: x)
  then show ?case
  proof (cases rule: plain_message_cases)
    case other
    then show ?thesis using Cons.IH [OF Cons.prems(1,2) tl] by (simp add: deliver_def x)
  next
    case (change day ev)
    define b where "b = snd (on_ws_event sha w m a)"
    note b = on_ws_event_state_change [OF Cons.prems(1) change(2,1), of sha, folded b_def]
    have okd: "ok (day_of (he_ts_ms ev))" using change read_message_time [OF change(2)] by simp
    note wa = wstep_append [OF Cons.prems(2) okd change(1)]
    have "healthy (is_db (ap_sys b))" "writer_ok (ap_jsonl b)"
      using istep_healthy [OF Cons.prems(1)] wa(1) by (simp_all add: b)
    from Cons.IH [OF this tl] show ?thesis using wa(2)
      by (simp add: deliver_def x b_def [symmetric]) (simp add: b submit_task submit_keeps)
  qed
qed

lemma istep_stop:
  assumes "healthy (is_db s)" and "\<And>e. pp_task (is_pipe s) \<noteq> Died e"
  shows "\<exists>s'. istep sha (Stop ck) s = (Inr (), s') \<and> pp_buffer (is_pipe s') = [] \<and> persisted (is_db s') = iheld s"
proof -
  from stop_stores_the_rest [OF assms, of ck "is_idx s"]
  obtain pl' d' where "stop ck (is_idx s) (is_pipe s, is_db s) = (Inr (), pl', d')" "pp_buffer pl' = []"
    "persisted d' = persisted (is_db s) @ pp_buffer (is_pipe s)" by blast
  then show ?thesis by (simp add: istep_def iheld_def pending_def)
qed

lemma closed_writer:
  assumes "writer_ok w"
  shows "jw_handle (close_writer w) = None" and "file_lines path (close_writer w) = contents path w"
proof -
  show h: "jw_handle (close_writer w) = None" by (simp add: close_writer_def)
  show "file_lines path (close_writer w) = contents path w"
    using wstep_facts [OF assms, of CloseWriter path] h by (simp add: wstep_def contents_def)
qed

text \<open>
  C10. A graceful shutdown loses nothing that was handled before it: when the server ends after messages that the handler can
  read, without registry updates and with dates that the archive can write, on a database all of whose connections succeed and
  with the flush task alive, the \<open>finally\<close> block returns, the event table has what it had, what waited, and every state
  change no pattern matches, the buffer is empty, the archive is closed, and its files on disk hold all state
  changes of their day.
\<close>

theorem graceful_shutdown_loses_nothing:
  assumes "healthy (is_db (ap_sys a))" and "writer_ok (ap_jsonl a)" and "list_all plain_message ms"
    and "\<And>e. pp_task (is_pipe (ap_sys a)) \<noteq> Died e"
  shows "\<exists>a'. shutdown sha ck (deliver sha ms a) = (Inr (), a') \<and>
    persisted (is_db (ap_sys a')) =
      persisted (is_db (ap_sys a)) @ pending (ap_sys a) @ map (tagged (is_idx (ap_sys a))) (filter (visible a) (events_of ms)) \<and>
    pending (ap_sys a') = [] \<and> jw_handle (ap_jsonl a') = None \<and>
    (\<forall>t day. day_of t = Inr day \<longrightarrow> file_lines (path_for_day day (ap_jsonl a)) (ap_jsonl a') =
      contents (path_for_day day (ap_jsonl a)) (ap_jsonl a) @
      map archive_line (filter (\<lambda>ev. day_number (he_ts_ms ev) = day_number t) (events_of ms)))"
proof -
  let ?b = "deliver sha ms a"
  note k = deliver_keeps [OF assms(1-3), of sha]
  note all = deliver_all [OF assms(1-3), of sha]
  have "healthy (is_db (ap_sys ?b))" and t: "\<And>e. pp_task (is_pipe (ap_sys ?b)) \<noteq> Died e" and w: "writer_ok (ap_jsonl ?b)"
    using k assms(4) by auto
  from istep_stop [OF this(1) t, of sha ck]
  obtain s' where "istep sha (Stop ck) (ap_sys ?b) = (Inr (), s')" "pp_buffer (is_pipe s') = []"
    "persisted (is_db s') = iheld (ap_sys ?b)" by blast
  then have "shutdown sha ck ?b = (Inr (), ?b\<lparr>ap_sys := s', ap_jsonl := close_writer (ap_jsonl ?b)\<rparr>)"
    "persisted (is_db s') = iheld (ap_sys ?b)" "pending s' = []"
    by (simp_all add: shutdown_def pending_def)
  with all closed_writer [OF w] show ?thesis by (simp add: iheld_def)
qed

lemma graceful_shutdown_loses_nothing_witness:
  "\<exists>a. shutdown (\<lambda>x. x) (at 6) (deliver (\<lambda>x. x) door_messages door_app) =
      (Inr (), a) \<and>
    persisted (is_db (ap_sys a)) = [(state_change 5 ''light.a'', 0)] \<and>
    file_lines ''1970-01-01.jsonl'' (ap_jsonl a) =
      [archive_line (state_change 5 ''lock.door''), archive_line (state_change 5 ''light.a'')]"
proof -
  have t: "pp_task (is_pipe (ap_sys door_app)) \<noteq> Died x" for x by (simp add: door_facts)
  from graceful_shutdown_loses_nothing [OF door_healthy door_facts(1) door_events(1) t, of "\<lambda>x. x" "at 6", unfolded door_events(2) door_facts(6-8)]
  obtain a where a: "shutdown (\<lambda>x. x) (at 6) (deliver (\<lambda>x. x) door_messages door_app) = (Inr (), a)"
    "persisted (is_db (ap_sys a)) = [] @ [] @ map (tagged []) (filter (visible door_app) [state_change 5 ''lock.door'', state_change 5 ''light.a''])"
    "\<And>t day. day_of t = Inr day \<Longrightarrow> file_lines (path_for_day day (ap_jsonl door_app)) (ap_jsonl a) =
      contents (path_for_day day (ap_jsonl door_app)) (ap_jsonl door_app) @
      map archive_line (filter (\<lambda>ev. day_number (he_ts_ms ev) = day_number t)
        [state_change 5 ''lock.door'', state_change 5 ''light.a''])" by blast
  have "persisted (is_db (ap_sys a)) = [(state_change 5 ''light.a'', 0)]"
    unfolding a(2) by (simp add: door_facts tagged_def lookup_def)
  moreover have "file_lines ''1970-01-01.jsonl'' (ap_jsonl a) =
      [archive_line (state_change 5 ''lock.door''), archive_line (state_change 5 ''light.a'')]"
    using a(3) [OF door_day] unfolding door_facts by (simp add: row_simps)
  ultimately show ?thesis using a(1) by blast
qed

end
