(* ===== verification/ArchiveLines.thy ===== *)
theory ArchiveLines
  imports WiringProps
begin

text \<open>
  What the archive and the streams write is read back. The records of \<open>on_ws_event\<close> (\<open>src/ai_ha/main.py\<close>) are flat
  objects: their values are strings, integers and null. \<open>JsonlWriter.append\<close> ends each record with a
  newline, so a file of the archive can be split again only if no record contains one.
\<close>

section \<open>Flat objects\<close>

fun flat_value :: "json \<Rightarrow> bool" where
  "flat_value (JFloat t) = False"
| "flat_value (JArr xs) = False"
| "flat_value (JObj kvs) = False"
| "flat_value j = True"

definition flat :: "(string \<times> json) list \<Rightarrow> bool" where
  "flat kvs \<longleftrightarrow> distinct (map fst kvs) \<and> (\<forall>(k, v) \<in> set kvs. flat_value v)"

abbreviation plain_member :: "string \<times> json \<Rightarrow> string" where
  "plain_member \<equiv> (\<lambda>(k, v). dumps_plain_str k @ '': '' @ dumps_plain v)"

lemma dumps_plain_obj: "dumps_plain (JObj kvs) = CHR ''{'' # join '', '' (map plain_member kvs) @ ''}''"
  by (simp add: o_def case_prod_unfold)

lemma scan_esc_plain: "scan_str (esc_plain c @ t) = cons_fst c (scan_str t)"
proof (cases "127 \<le> (of_char c :: nat)")
  case True
  then have "c \<noteq> CHR 0x22" "c \<noteq> CHR 0x5C" "\<not> (of_char c :: nat) < 32" by auto
  with True show ?thesis by (simp add: esc_plain_def)
qed (simp add: esc_plain_def scan_esc_char)

lemma scan_plain_str: "scan_str (List.concat (map esc_plain s) @ CHR 0x22 # r) = Some (s, r)"
  by (induction s) (simp_all add: scan_esc_plain cons_fst_def)

lemma scan_plain_value:
  assumes "flat_value v" and "delim r"
  shows "scan_val (Suc n) (dumps_plain v @ r) = Some (v, r)"
proof (cases v)
  case (JInt i)
  obtain c s where "int_str i = c # s" "num_start c" using int_str_start by blast
  then have "scan_val (Suc n) (int_str i @ r) = scan_num (int_str i @ r)" by (rule scan_val_num)
  with JInt assms(2) show ?thesis by (simp add: scan_num_delim [OF scan_num_int_str])
qed (use assms in \<open>simp_all add: dumps_plain_str_def scan_plain_str numeral_eq_Suc\<close>)

lemma skip_ws_blank: "skip_ws (CHR '' '' # s) = skip_ws s"
  by (simp add: skip_ws_def is_ws_def)

lemma skip_ws_plain: "flat_value v \<Longrightarrow> skip_ws (dumps_plain v @ r) = dumps_plain v @ r"
proof (cases v)
  case (JInt i)
  obtain c s where "int_str i = c # s" "num_start c" using int_str_start by blast
  with JInt num_start_not(7) show ?thesis by (simp add: skip_ws_def)
qed (simp_all add: skip_ws_def is_ws_def dumps_plain_str_def)

lemma scan_members_plain:
  assumes "kvs \<noteq> []" and "\<forall>(k, v) \<in> set kvs. flat_value v" and "distinct (map fst acc @ map fst kvs)"
  shows "scan_members (Suc (length kvs) + n) acc (join '', '' (map plain_member kvs) @ CHR ''}'' # r) = Some (JObj (acc @ kvs), r)"
  using assms
proof (induction kvs arbitrary: acc)
  case Nil
  then show ?case by simp
next
  case (Cons p kvs)
  obtain k v where p: "p = (k, v)" by fastforce
  have v: "flat_value v" using Cons.prems(2) by (simp add: p)
  have upd: "AList.update k v acc = acc @ [(k, v)]" using Cons.prems(3) p by (intro update_fresh) auto
  note scan = scan_plain_str scan_plain_value [OF v] skip_ws_blank skip_ws_plain [OF v] upd
  show ?case
  proof (cases "kvs = []")
    case True
    then show ?thesis by (simp add: p dumps_plain_str_def scan del: scan_val.simps)
  next
    case False
    have "scan_members (Suc (length kvs) + n) (acc @ [(k, v)]) (join '', '' (map plain_member kvs) @ CHR ''}'' # r) =
        Some (JObj ((acc @ [(k, v)]) @ kvs), r)"
      using Cons.prems(2,3) False by (intro Cons.IH) (auto simp: p)
    moreover have "skip_ws (join '', '' (map plain_member kvs) @ q) = join '', '' (map plain_member kvs) @ q" for q
      using False by (cases kvs; cases "tl kvs") (auto simp: dumps_plain_str_def)
    ultimately show ?thesis using False
      by (simp add: p dumps_plain_str_def scan join_Cons del: scan_val.simps)
  qed
qed

lemma length_plain_members: "length kvs \<le> length (join '', '' (map plain_member kvs))"
proof (induction kvs)
  case (Cons p kvs)
  then show ?case
    by (cases kvs) (auto simp: dumps_plain_str_def case_prod_unfold)
qed simp

lemma loads_plain:
  assumes "flat kvs"
  shows "loads (dumps_plain (JObj kvs)) = Inr (JObj kvs)"
proof (cases "kvs = []")
  case True
  show ?thesis unfolding True by code_simp
next
  case False
  let ?t = "join '', '' (map plain_member kvs)"
  obtain n where n: "2 * length (dumps_plain (JObj kvs)) + 2 = Suc (Suc (length kvs) + n)"
    using length_plain_members [of kvs] by (intro that [of "2 * length (dumps_plain (JObj kvs)) - length kvs"])
      (simp add: dumps_plain_obj del: dumps_plain.simps)
  obtain u where u: "?t = CHR 0x22 # u" using False by (cases kvs; cases "tl kvs") (auto simp: dumps_plain_str_def)
  have "scan_members (Suc (length kvs) + n) [] (?t @ CHR ''}'' # []) = Some (JObj ([] @ kvs), [])"
    using assms False by (intro scan_members_plain) (auto simp: flat_def)
  then have "scan_val (Suc (Suc (length kvs) + n)) (dumps_plain (JObj kvs)) = Some (JObj kvs, [])"
    unfolding dumps_plain_obj u by simp
  moreover have "skip_ws (dumps_plain (JObj kvs)) = dumps_plain (JObj kvs)"
    unfolding dumps_plain_obj by (simp add: skip_ws_def is_ws_def)
  ultimately show ?thesis unfolding loads_def n by simp
qed

section \<open>One record, one line\<close>

lemma hex_not_newline: "n < 16 \<Longrightarrow> hex n \<noteq> CHR 0x0A"
proof
  assume "n < 16" and "hex n = CHR 0x0A"
  from hex_val_hex [OF this(1)] this(2) show False by (simp add: hex_val_def)
qed

lemma no_newline_plain_str: "CHR 0x0A \<notin> set (dumps_plain_str s)"
proof -
  have "CHR 0x0A \<notin> set (esc_plain c)" for c
  proof -
    have "of_char c < (256 :: nat)" by simp
    then have "of_char c div 16 < (16 :: nat)" by (simp add: less_mult_imp_div_less)
    with hex_not_newline [of "of_char c div 16"] hex_not_newline [of "of_char c mod 16"]
    have "CHR 0x0A \<noteq> hex (of_char c div 16)" "CHR 0x0A \<noteq> hex (of_char c mod 16)" by auto
    then show ?thesis by (simp add: esc_plain_def esc_char_def)
  qed
  then show ?thesis by (auto simp: dumps_plain_str_def)
qed

lemma no_newline_int: "CHR 0x0A \<notin> set (int_str i)"
  using nat_str_digits [of "nat i"] nat_str_digits [of "nat (- i)"] by (auto simp: int_str_def)

lemma no_newline_value: "flat_value v \<Longrightarrow> CHR 0x0A \<notin> set (dumps_plain v)"
  by (cases v) (simp_all add: no_newline_int no_newline_plain_str)

lemma no_newline_join: "\<forall>t \<in> set ts. CHR 0x0A \<notin> set t \<Longrightarrow> CHR 0x0A \<notin> set (join '', '' ts)"
  by (induction "'', ''" ts rule: join.induct) auto

lemma no_newline_obj:
  assumes "flat kvs"
  shows "CHR 0x0A \<notin> set (dumps_plain (JObj kvs))"
proof -
  have "\<forall>t \<in> set (map plain_member kvs). CHR 0x0A \<notin> set t"
    using assms by (auto simp: flat_def no_newline_plain_str no_newline_value)
  from no_newline_join [OF this] show ?thesis unfolding dumps_plain_obj by simp
qed

text \<open>The text of a file whose records were appended with a newline each, and that text split at its newlines.\<close>

definition jsonl_text :: "string list \<Rightarrow> string" where
  "jsonl_text lines = List.concat (map (\<lambda>l. l @ [CHR 0x0A]) lines)"

fun split_lines :: "string \<Rightarrow> string \<Rightarrow> string list" where
  "split_lines l [] = (if l = [] then [] else [l])"
| "split_lines l (c # s) = (if c = CHR 0x0A then l # split_lines [] s else split_lines (l @ [c]) s)"

lemma split_line: "CHR 0x0A \<notin> set t \<Longrightarrow> split_lines l (t @ CHR 0x0A # s) = (l @ t) # split_lines [] s"
  by (induction t arbitrary: l) auto

lemma split_jsonl_text: "\<forall>t \<in> set ts. CHR 0x0A \<notin> set t \<Longrightarrow> split_lines [] (jsonl_text ts) = ts"
  by (induction ts) (simp_all add: jsonl_text_def split_line)

section \<open>Property\<close>

definition archive_record :: "ha_event \<Rightarrow> (string \<times> json) list" where
  "archive_record ev = [(''ts_ms'', JInt (he_ts_ms ev)), (''entity_id'', JStr (he_entity_id ev)),
     (''event_type'', JStr (he_event_type ev)), (''old_state'', opt_str (he_old_state ev)),
     (''new_state'', opt_str (he_new_state ev))]"

lemma archive_line_record: "archive_line ev = dumps_plain (JObj (archive_record ev))" and flat_record: "flat (archive_record ev)"
  by (simp_all add: archive_line_def archive_record_def flat_def opt_str_def split: option.split)

text \<open>
  C34. The archive is readable: the text of any archived state changes, split at its newlines and read with \<open>json.loads\<close> line by
  line, gives for each of them, in order, an object with its time, entity, type and both states; and what a
  stream sends for a state change is read back as the event published.
\<close>

theorem archive_reads_back:
  "map loads (split_lines [] (jsonl_text (map archive_line evs))) =
     map (\<lambda>ev. Inr (JObj [(''ts_ms'', JInt (he_ts_ms ev)), (''entity_id'', JStr (he_entity_id ev)),
       (''event_type'', JStr (he_event_type ev)), (''old_state'', opt_str (he_old_state ev)),
       (''new_state'', opt_str (he_new_state ev))])) evs \<and>
   loads (dumps_plain (stream_event ev)) = Inr (stream_event ev)"
proof
  have "\<forall>t \<in> set (map archive_line evs). CHR 0x0A \<notin> set t"
    using no_newline_obj [OF flat_record] by (auto simp only: set_map archive_line_record)
  then have "split_lines [] (jsonl_text (map archive_line evs)) = map archive_line evs" by (rule split_jsonl_text)
  then show "map loads (split_lines [] (jsonl_text (map archive_line evs))) =
     map (\<lambda>ev. Inr (JObj [(''ts_ms'', JInt (he_ts_ms ev)), (''entity_id'', JStr (he_entity_id ev)),
       (''event_type'', JStr (he_event_type ev)), (''old_state'', opt_str (he_old_state ev)),
       (''new_state'', opt_str (he_new_state ev))])) evs"
    by (simp add: archive_line_record loads_plain [OF flat_record] del: dumps_plain.simps) (simp add: archive_record_def)
  show "loads (dumps_plain (stream_event ev)) = Inr (stream_event ev)"
    unfolding stream_event_def by (rule loads_plain) (simp add: flat_def)
qed

end
