(* ===== verification/StreamClient.thy ===== *)
theory StreamClient
  imports ArchiveLines
begin

text \<open>
  The handler \<open>stream\<close> of \<open>src/ai_ha/web/routes/stream.py\<close>: a web socket subscribes to the broadcaster, and each turn
  of its loop takes the next event of its queue and sends it as a line of JSON. What a client reads is put together from the
  queues of \<open>Stream\<close> and the round trip of \<open>ArchiveLines\<close>.
\<close>

text \<open>
  One turn: it waits on an empty queue; a client that has gone makes \<open>send_text\<close> raise, which closes the subscription, and the event
  in hand is lost to nobody else.
\<close>

definition stream_turn :: "nat \<Rightarrow> bool \<Rightarrow> json broadcaster \<Rightarrow> string option \<times> json broadcaster" where
  "stream_turn i connected b =
     (case next_event i b of
        (None, b) \<Rightarrow> (None, b)
      | (Some ev, b) \<Rightarrow> if connected then (Some (dumps_plain ev), b) else (None, unsubscribe i b))"

text \<open>The turns of a handler are operations of the broadcaster.\<close>

lemma stream_turn_ops:
  "snd (stream_turn i True b) = sstep (Next i) b"
  "snd (stream_turn i False b) = (if fst (next_event i b) = None then b else srun [Next i, Close i] b)"
proof -
  have "fst (next_event i b) = None \<Longrightarrow> snd (next_event i b) = b"
    by (simp add: next_event_def split: option.splits list.splits)
  then show "snd (stream_turn i True b) = sstep (Next i) b"
    "snd (stream_turn i False b) = (if fst (next_event i b) = None then b else srun [Next i, Close i] b)"
    by (auto simp: stream_turn_def sstep_def srun_def split: prod.split option.split)
qed

text \<open>What the client of subscription \<open>i\<close> is sent along a run, while it is connected.\<close>

fun sent :: "nat \<Rightarrow> json stream_op list \<Rightarrow> json broadcaster \<Rightarrow> string list" where
  "sent i [] b = []"
| "sent i (op # ops) b =
     (case op of
        Next j \<Rightarrow> if j = i then (case fst (stream_turn i True b) of None \<Rightarrow> [] | Some t \<Rightarrow> [t]) else []
      | _ \<Rightarrow> []) @ sent i ops (sstep op b)"

lemma sent_received: "sent i ops b = map dumps_plain (received i ops b)"
proof (induction ops arbitrary: b)
  case (Cons op ops)
  then show ?case
    by (cases op) (auto simp: stream_turn_def split: prod.split option.split)
qed simp

lemma loads_stream_event: "loads (dumps_plain (stream_event ev)) = Inr (stream_event ev)"
  unfolding stream_event_def by (rule loads_plain) (simp add: flat_def)

text \<open>
  C32. A client of the event stream that stays connected reads, line by line and with \<open>json.loads\<close>, state changes that were published
  since it subscribed, in order and none twice; what waits in its queue are the latest ones, at most \<open>queue_size\<close>; and
  while those published fit into the queue nothing is missing.
\<close>

theorem stream_client_reads_the_latest_events:
  assumes "subscribe b = (i, b0)" and "i \<notin> fst ` set (bc_queues b)" and "Close i \<notin> set ops"
    and "0 < bc_queue_size b" and "published ops = map stream_event evs"
  shows "\<exists>read waiting. map loads (sent i ops b0) = map Inr read \<and>
    queue_of i (srun ops b0) = Some waiting \<and> int (length waiting) \<le> bc_queue_size b \<and>
    suffix waiting (map stream_event evs) \<and> subseq (read @ waiting) (map stream_event evs) \<and>
    (int (length evs) \<le> bc_queue_size b \<longrightarrow> read @ waiting = map stream_event evs)"
proof -
  have "map_of (bc_queues b) i = None" using assms(2) by (simp add: map_of_eq_None_iff)
  then have "queue_of i b0 = Some []" "i < bc_next b0" "bc_queue_size b0 = bc_queue_size b"
    using assms(1) by (auto simp: subscribe_def queue_of_def map_add_def)
  with subscriber_run [of i b0 ops] assms(3-5) obtain q where
    q: "queue_of i (srun ops b0) = Some q" "suffix q (map stream_event evs)" "int (length q) \<le> bc_queue_size b"
      "subseq (received i ops b0 @ q) (map stream_event evs)"
      "int (length evs) \<le> bc_queue_size b \<longrightarrow> received i ops b0 @ q = map stream_event evs"
    by (auto simp: fed_def)
  have "loads (dumps_plain x) = Inr x" if "x \<in> set (received i ops b0)" for x
  proof -
    have "x \<in> set (received i ops b0 @ q)" using that by simp
    from list_emb_set [OF q(4) this] obtain ev where "x = stream_event ev" by auto
    then show ?thesis using loads_stream_event by (simp only:)
  qed
  then have "map loads (sent i ops b0) = map Inr (received i ops b0)" by (simp add: sent_received)
  with q show ?thesis by (intro exI [of _ "received i ops b0"] exI [of _ q]) simp
qed

lemma stream_client_reads_the_latest_events_witness:
  "\<exists>read waiting. subseq (read @ waiting) (map stream_event [state_change 1 ''light.a'', state_change 2 ''light.b'', state_change 3 ''light.a'']) \<and>
    int (length waiting) \<le> 2"
proof -
  let ?evs = "[state_change 1 ''light.a'', state_change 2 ''light.b'', state_change 3 ''light.a'']"
  let ?ops = "[Publish (stream_event (?evs ! 0)), Next 0, Publish (stream_event (?evs ! 1)), Publish (stream_event (?evs ! 2))]"
  have 1: "subscribe (new_broadcaster 2) = (0, snd (subscribe (new_broadcaster 2)))" by (simp add: subscribe_def new_broadcaster_def)
  have 2: "0 \<notin> fst ` set (bc_queues (new_broadcaster 2))" by (simp add: new_broadcaster_def)
  have 3: "Close 0 \<notin> set ?ops" "0 < bc_queue_size (new_broadcaster 2 :: json broadcaster)" "published ?ops = map stream_event ?evs"
    by (simp_all add: new_broadcaster_def)
  from stream_client_reads_the_latest_events [OF 1 2 3] show ?thesis by (auto simp: new_broadcaster_def)
qed

end
