(* ===== verification/WsProtocol.thy ===== *)
theory WsProtocol
  imports WsClient
begin

text \<open>
  \<open>HAWSClient\<close> as the state machine its module docstring names (CONNECTING, AUTH, SUBSCRIBED, DISCONNECTED). \<open>WsClient\<close>
  runs the client over a list of inputs; here the network, the clock and a call of \<open>stop()\<close> may come at any moment, in
  between two \<open>await\<close>s of \<open>run\<close> and \<open>_connect_and_loop\<close> too. The lemmas say what holds in every
  reachable state and what follows a \<open>stop()\<close>.
\<close>

section \<open>Phases\<close>

text \<open>Where the task is suspended: at the head of the loop of \<open>run\<close>, in \<open>websockets.connect\<close>, in the two \<open>recv\<close> of the
  handshake, at the head of the event loop, with a received frame in hand, in the sleep, or no more.\<close>

datatype phase =
    Top
  | Dialing
  | AwaitHello
  | AwaitAck
  | Subscribed
  | Handling string
  | Sleeping
  | Ended

record 'w machine =
  mc_phase :: phase
  mc_backoff :: int
  mc_client :: ws_client
  mc_world :: 'w

text \<open>What happens: a move of the network, of the clock, of the owner, or of the task itself.\<close>

datatype act =
    Dial | Open | Refused | Frame string | Drop | Handle string | Wake | Expire | StopCall | Leave

definition start_machine :: "ws_client \<Rightarrow> 'w \<Rightarrow> 'w machine" where
  "start_machine c w = \<lparr>mc_phase = Top, mc_backoff = ws_initial_backoff c, mc_client = c, mc_world = w\<rparr>"

text \<open>The two \<open>except\<close> clauses of \<open>run\<close>.\<close>

definition disconnected :: "ws_client \<Rightarrow> ws_client" where
  "disconnected c = c\<lparr>ws_last_error_kind := Some ''ws-disconnected'', ws_connected := False,
     ws_disconnect_count := ws_disconnect_count c + 1\<rparr>"

definition fail :: "'w machine \<Rightarrow> 'w machine" where
  "fail s = s\<lparr>mc_phase := Sleeping, mc_client := disconnected (mc_client s)\<rparr>"

definition refuse_auth :: "'w machine \<Rightarrow> 'w machine" where
  "refuse_auth s = s\<lparr>mc_phase := Ended, mc_client := (mc_client s)\<lparr>ws_last_error_kind := Some ''auth-invalid''\<rparr>\<rparr>"

definition on_hello :: "string \<Rightarrow> 'w machine \<Rightarrow> 'w machine" where
  "on_hello raw s =
     (if frame_type raw = Inr (Some (JStr ''auth_required''))
      then s\<lparr>mc_phase := AwaitAck, mc_client := send (Auth (ws_token (mc_client s))) (mc_client s)\<rparr>
      else fail s)"

definition on_ack :: "string \<Rightarrow> 'w machine \<Rightarrow> 'w machine" where
  "on_ack raw s =
     (if frame_type raw = Inr (Some (JStr ''auth_invalid'')) then refuse_auth s
      else if frame_type raw = Inr (Some (JStr ''auth_ok''))
      then s\<lparr>mc_phase := Subscribed, mc_client := (subscribe_all (mc_client s))\<lparr>ws_connected := True\<rparr>\<rparr>
      else fail s)"

definition on_frame :: "(json \<Rightarrow> 'w \<Rightarrow> unit res \<times> 'w) \<Rightarrow> string \<Rightarrow> 'w machine \<Rightarrow> 'w machine" where
  "on_frame on_event raw s =
     (case frame_type raw of
        Inl e \<Rightarrow> fail s
      | Inr t \<Rightarrow>
          s\<lparr>mc_phase := Subscribed,
            mc_world := (if t = Some (JStr ''event'') then snd (on_event (projr (loads raw)) (mc_world s)) else mc_world s)\<rparr>)"

section \<open>Steps\<close>

text \<open>
  The loop of \<open>run\<close> and the event loop look at the flag at their heads, and the sleep ends when it is set; the two \<open>recv\<close> of the
  handshake and \<open>connect\<close> do not. In the event loop the flag wins over a frame that arrives
  with it, but a frame already received is handled.
\<close>

inductive ws_step :: "(json \<Rightarrow> 'w \<Rightarrow> unit res \<times> 'w) \<Rightarrow> 'w machine \<Rightarrow> act \<Rightarrow> 'w machine \<Rightarrow> bool" for on_event where
  stop: "mc_phase s \<noteq> Ended \<Longrightarrow> ws_step on_event s StopCall (s\<lparr>mc_client := ws_stop_call (mc_client s)\<rparr>)"
| leave: "mc_phase s \<in> {Top, Subscribed, Sleeping} \<Longrightarrow> ws_stop (mc_client s) \<Longrightarrow>
    ws_step on_event s Leave (s\<lparr>mc_phase := Ended\<rparr>)"
| expire: "mc_phase s = Top \<Longrightarrow> \<not> ws_stop (mc_client s) \<Longrightarrow> ws_max_seconds (mc_client s) \<noteq> None \<Longrightarrow>
    ws_step on_event s Expire (s\<lparr>mc_phase := Ended\<rparr>)"
| dial: "mc_phase s = Top \<Longrightarrow> \<not> ws_stop (mc_client s) \<Longrightarrow> ws_step on_event s Dial (s\<lparr>mc_phase := Dialing\<rparr>)"
| refused: "mc_phase s = Dialing \<Longrightarrow> ws_step on_event s Refused (fail s)"
| opened: "mc_phase s = Dialing \<Longrightarrow>
    ws_step on_event s Open (s\<lparr>mc_phase := AwaitHello, mc_client := (mc_client s)\<lparr>ws_sent := [] # ws_sent (mc_client s)\<rparr>\<rparr>)"
| dropped: "mc_phase s \<in> {AwaitHello, AwaitAck} \<or> mc_phase s = Subscribed \<and> \<not> ws_stop (mc_client s) \<Longrightarrow>
    ws_step on_event s Drop (fail s)"
| hello: "mc_phase s = AwaitHello \<Longrightarrow> ws_step on_event s (Frame raw) (on_hello raw s)"
| ack: "mc_phase s = AwaitAck \<Longrightarrow> ws_step on_event s (Frame raw) (on_ack raw s)"
| arrive: "mc_phase s = Subscribed \<Longrightarrow> \<not> ws_stop (mc_client s) \<Longrightarrow>
    ws_step on_event s (Frame raw) (s\<lparr>mc_phase := Handling raw\<rparr>)"
| handle: "mc_phase s = Handling raw \<Longrightarrow> ws_step on_event s (Handle raw) (on_frame on_event raw s)"
| wake: "mc_phase s = Sleeping \<Longrightarrow> \<not> ws_stop (mc_client s) \<Longrightarrow>
    ws_step on_event s Wake (s\<lparr>mc_phase := Top, mc_backoff := min (ws_max_backoff (mc_client s)) (mc_backoff s * 2)\<rparr>)"

inductive ws_path :: "(json \<Rightarrow> 'w \<Rightarrow> unit res \<times> 'w) \<Rightarrow> 'w machine \<Rightarrow> act list \<Rightarrow> 'w machine \<Rightarrow> bool" for on_event where
  none: "ws_path on_event s [] s"
| snoc: "ws_path on_event s as s' \<Longrightarrow> ws_step on_event s' a s'' \<Longrightarrow> ws_path on_event s (as @ [a]) s''"

inductive_cases ws_stepE: "ws_step on_event s a s'"

lemma path_trans [trans]:
  "ws_path on_event s as t \<Longrightarrow> ws_path on_event t bs u \<Longrightarrow> ws_path on_event s (as @ bs) u"
proof (rotate_tac, induction rule: ws_path.induct)
  case (snoc t bs t' b u)
  then show ?case using ws_path.snoc [of on_event s "as @ bs" t' b u] by simp
qed simp

lemma ws_path_step: "ws_step on_event s a t \<Longrightarrow> ws_path on_event s [a] t"
  using ws_path.snoc [OF ws_path.none] by fastforce

section \<open>After a stop\<close>

text \<open>The steps that are left once the flag is set.\<close>

fun steps_left :: "phase \<Rightarrow> nat" where
  "steps_left Dialing = 4"
| "steps_left AwaitHello = 3"
| "steps_left AwaitAck = 2"
| "steps_left (Handling raw) = 2"
| "steps_left Ended = 0"
| "steps_left p = 1"

fun is_handle :: "act \<Rightarrow> bool" where
  "is_handle (Handle raw) = True"
| "is_handle a = False"

lemma stop_kept [simp]: "ws_stop (disconnected c) = ws_stop c" "ws_stop (send m c) = ws_stop c"
  "ws_stop (subscribe_all c) = ws_stop c"
  by (simp_all add: disconnected_def send_def subscribe_all_eq Let_def split: list.split)

lemmas phase_simps = fail_def refuse_auth_def on_hello_def on_ack_def on_frame_def

lemma step_after_stop:
  assumes "ws_step on_event s a s'" and "ws_stop (mc_client s)"
  shows "ws_stop (mc_client s')" and "a \<notin> {Dial, Wake, Expire}"
    and "steps_left (mc_phase s') + (if a = StopCall then 0 else 1) \<le> steps_left (mc_phase s)"
    and "is_handle a \<longleftrightarrow> (\<exists>raw. mc_phase s = Handling raw) \<and> a \<noteq> StopCall"
    and "(\<exists>raw. mc_phase s' = Handling raw) \<longrightarrow> mc_phase s' = mc_phase s \<and> a = StopCall"
    and "a = Open \<longrightarrow> mc_phase s = Dialing" and "mc_phase s' = Dialing \<longrightarrow> mc_phase s = Dialing \<and> a = StopCall"
  using assms by (cases rule: ws_step.cases; auto simp: phase_simps ws_stop_call_def split: sum.splits)+

definition handling :: "'w machine \<Rightarrow> nat" where
  "handling s = (case mc_phase s of Handling raw \<Rightarrow> 1 | _ \<Rightarrow> 0)"

lemma handling_cases: "handling s = (if \<exists>raw. mc_phase s = Handling raw then 1 else 0)"
  by (simp add: handling_def split: phase.split)

definition dialing :: "'w machine \<Rightarrow> nat" where
  "dialing s = (if mc_phase s = Dialing then 1 else 0)"

lemma path_after_stop:
  assumes "ws_path on_event s as s'" and "ws_stop (mc_client s)"
  shows "ws_stop (mc_client s') \<and> set as \<inter> {Dial, Wake, Expire} = {} \<and>
    steps_left (mc_phase s') + length (filter (\<lambda>a. a \<noteq> StopCall) as) \<le> steps_left (mc_phase s) \<and>
    length (filter is_handle as) + handling s' \<le> handling s \<and>
    length (filter (\<lambda>a. a = Open) as) + dialing s' \<le> dialing s"
  using assms
proof (induction rule: ws_path.induct)
  case (snoc s as s' a s'')
  then have "ws_stop (mc_client s')" by blast
  note f = step_after_stop [OF snoc.hyps(2) this]
  have "(if is_handle a then 1 else 0) + handling s'' \<le> handling s'"
    using f(4,5) by (auto simp: handling_cases split: if_splits)
  moreover have "(if a = Open then 1 else 0) + dialing s'' \<le> dialing s'"
    using f(6,7) by (auto simp: dialing_def)
  ultimately show ?case using snoc f(1-3) by (auto split: if_splits)
qed simp

text \<open>Whatever phase the task is in, something other than a further \<open>stop()\<close> can happen.\<close>

lemma ws_progress:
  assumes "mc_phase s \<noteq> Ended"
  obtains a s' where "a \<noteq> StopCall" "ws_step on_event s a s'"
proof (cases "mc_phase s")
  case Top
  then show thesis
    by (cases "ws_stop (mc_client s)") (blast intro: that ws_step.leave ws_step.dial)+
next
  case Dialing
  then show thesis by (blast intro: that ws_step.refused)
next
  case AwaitHello
  then show thesis by (blast intro: that ws_step.dropped)
next
  case AwaitAck
  then show thesis by (blast intro: that ws_step.dropped)
next
  case Subscribed
  then show thesis
    by (cases "ws_stop (mc_client s)") (blast intro: that ws_step.leave ws_step.arrive)+
next
  case (Handling raw)
  then show thesis by (blast intro: that ws_step.handle)
next
  case Sleeping
  then show thesis
    by (cases "ws_stop (mc_client s)") (blast intro: that ws_step.leave ws_step.wake)+
next
  case Ended
  with assms show thesis by simp
qed

text \<open>
  C13. \<open>stop()\<close> ends the client: after it at most four more steps follow, the client does not call \<open>connect\<close> again, nothing
  wakes, and no event is handed over but one already received; and as long as the task has not ended, a step is possible. It
  is not prompt: a \<open>connect\<close> under way when \<open>stop()\<close> is called may still open its one connection, which then goes on with
  the handshake, and in \<open>connect\<close> and in the handshake only an answer or the loss of the connection moves the client on.
\<close>

theorem stop_ends_the_client:
  assumes "ws_path on_event s as s'" and "ws_stop (mc_client s)"
  shows "length (filter (\<lambda>a. a \<noteq> StopCall) as) \<le> 4 \<and> set as \<inter> {Dial, Wake, Expire} = {} \<and>
    length (filter is_handle as) \<le> (case mc_phase s of Handling raw \<Rightarrow> 1 | _ \<Rightarrow> 0) \<and>
    length (filter (\<lambda>a. a = Open) as) \<le> (if mc_phase s = Dialing then 1 else 0) \<and>
    (mc_phase s' \<noteq> Ended \<longrightarrow> (\<exists>a t. a \<noteq> StopCall \<and> ws_step on_event s' a t)) \<and>
    (mc_phase s' \<in> {Dialing, AwaitHello, AwaitAck} \<longrightarrow>
      (\<forall>a t. ws_step on_event s' a t \<longrightarrow> a \<in> {StopCall, Open, Refused, Drop} \<union> range Frame))"
proof -
  note p = path_after_stop [OF assms]
  have "steps_left (mc_phase s) \<le> 4" by (cases "mc_phase s") simp_all
  with p have 1: "length (filter (\<lambda>a. a \<noteq> StopCall) as) \<le> 4" by simp
  have 2: "length (filter is_handle as) \<le> (case mc_phase s of Handling raw \<Rightarrow> 1 | _ \<Rightarrow> 0)"
    using p by (simp add: handling_def)
  have 5: "length (filter (\<lambda>a. a = Open) as) \<le> (if mc_phase s = Dialing then 1 else 0)"
    using p by (simp add: dialing_def)
  have 3: "\<exists>a t. a \<noteq> StopCall \<and> ws_step on_event s' a t" if "mc_phase s' \<noteq> Ended"
    using ws_progress [OF that] by blast
  have 4: "a \<in> {StopCall, Open, Refused, Drop} \<union> range Frame"
    if "mc_phase s' \<in> {Dialing, AwaitHello, AwaitAck}" "ws_step on_event s' a t" for a t
    using that(2,1) by (cases rule: ws_step.cases) auto
  from 1 2 3 4 5 p show ?thesis by simp
qed

text \<open>A client that is told to stop with a frame in hand: what it can still do, and the way it ends.\<close>

definition busy_client :: "unit machine" where
  "busy_client = (start_machine (ws_stop_call (new_ws_client ''t'' 1 60 None)) ())\<lparr>mc_phase := Handling ''x''\<rparr>"

lemma stop_ends_the_client_witness:
  "let runs = {as. \<exists>s'. ws_path (\<lambda>m w. (Inr (), w)) busy_client as s'} in
     [Handle ''x'', Leave] \<in> runs \<and>
     runs \<subseteq> {as. length (filter (\<lambda>a. a \<noteq> StopCall) as) \<le> 4 \<and> set as \<inter> {Dial, Open, Wake, Expire} = {} \<and>
       length (filter is_handle as) \<le> 1}"
proof -
  let ?h = "\<lambda>m (w :: unit). (Inr () :: unit res, w)"
  let ?t = "on_frame ?h ''x'' busy_client"
  have stop: "ws_stop (mc_client busy_client)" and p: "mc_phase busy_client = Handling ''x''"
    by (simp_all add: busy_client_def start_machine_def ws_stop_call_def)
  have t: "ws_stop (mc_client ?t)" "mc_phase ?t \<in> {Top, Subscribed, Sleeping}"
    using stop by (simp_all add: on_frame_def fail_def split: sum.split)
  have "ws_path ?h busy_client [Handle ''x''] ?t" by (rule ws_path_step [OF ws_step.handle [OF p]])
  from ws_path.snoc [OF this ws_step.leave [OF t(2,1)]]
  have path: "ws_path ?h busy_client [Handle ''x'', Leave] (?t\<lparr>mc_phase := Ended\<rparr>)" by simp
  have "length (filter (\<lambda>a. a \<noteq> StopCall) as) \<le> 4 \<and> set as \<inter> {Dial, Open, Wake, Expire} = {} \<and> length (filter is_handle as) \<le> 1"
    if "ws_path ?h busy_client as s'" for as s'
    using stop_ends_the_client [OF that stop] by (auto simp: p filter_empty_conv)
  with path show ?thesis unfolding Let_def by blast
qed

section \<open>Every reachable state\<close>

definition dialogue :: "string \<Rightarrow> int \<Rightarrow> message list" where
  "dialogue token n = [Auth token, SubscribeEvents n ''state_changed'', SubscribeEvents (n + 2) ''area_registry_updated'',
     SubscribeEvents (n + 3) ''device_registry_updated'', SubscribeEvents (n + 4) ''entity_registry_updated'']"

definition said :: "string \<Rightarrow> message list \<Rightarrow> bool" where
  "said token ms \<longleftrightarrow> ms = [] \<or> ms = [Auth token] \<or> (\<exists>n. ms = dialogue token n)"

text \<open>What the current connection has sent, by phase.\<close>

fun said_now :: "string \<Rightarrow> phase \<Rightarrow> message list list \<Rightarrow> bool" where
  "said_now token AwaitHello sent \<longleftrightarrow> (\<exists>rest. sent = [] # rest)"
| "said_now token AwaitAck sent \<longleftrightarrow> (\<exists>rest. sent = [Auth token] # rest)"
| "said_now token Subscribed sent \<longleftrightarrow> (\<exists>n rest. sent = dialogue token n # rest)"
| "said_now token (Handling raw) sent \<longleftrightarrow> (\<exists>n rest. sent = dialogue token n # rest)"
| "said_now token p sent \<longleftrightarrow> True"

definition listening :: "phase \<Rightarrow> bool" where
  "listening p \<longleftrightarrow> p = Subscribed \<or> (\<exists>raw. p = Handling raw)"

definition ws_inv :: "string \<Rightarrow> 'w machine \<Rightarrow> bool" where
  "ws_inv token s \<longleftrightarrow>
     (let c = mc_client s in
      ws_token c = token \<and> list_all (said token) (ws_sent c) \<and> said_now token (mc_phase s) (ws_sent c) \<and>
      (mc_phase s \<noteq> Ended \<longrightarrow> ws_connected c = listening (mc_phase s)) \<and>
      (mc_phase s = Ended \<and> ws_connected c \<longrightarrow> ws_stop c))"

text \<open>The event messages that \<open>on_event\<close> has been given.\<close>

definition handed :: "act list \<Rightarrow> json list" where
  "handed as = List.map_filter (\<lambda>a. case a of
     Handle raw \<Rightarrow> if frame_type raw = Inr (Some (JStr ''event'')) then Some (projr (loads raw)) else None
   | _ \<Rightarrow> None) as"

lemma handed_snoc: "handed (as @ [a]) = handed as @ handed [a]"
  by (simp add: handed_def List.map_filter_def)

lemma subscribe_sent:
  "ws_sent c = [Auth token] # rest \<Longrightarrow> ws_sent (subscribe_all c) = dialogue token (ws_next_id c) # rest"
  by (simp add: subscribe_all_eq Let_def send_sent dialogue_def)

lemma send_keeps [simp]: "ws_token (send m c) = ws_token c" "ws_connected (send m c) = ws_connected c"
  "ws_token (subscribe_all c) = ws_token c"
  by (simp_all add: send_def subscribe_all_eq Let_def split: list.split)

lemma ws_step_inv:
  assumes "ws_step on_event s a s'" and "ws_inv token s"
  shows "ws_inv token s'"
  using assms
proof (cases rule: ws_step.cases)
  case (ack raw)
  with assms(2) obtain rest where "ws_sent (mc_client s) = [Auth token] # rest" by (auto simp: ws_inv_def Let_def)
  from subscribe_sent [OF this] this ack assms(2) show ?thesis
    by (auto simp: ws_inv_def Let_def listening_def on_ack_def refuse_auth_def fail_def disconnected_def said_def)
next
  case (handle raw)
  with assms(2) show ?thesis
    by (auto simp: ws_inv_def Let_def listening_def on_frame_def fail_def disconnected_def split: sum.split)
qed (use assms(2) in \<open>auto simp: ws_inv_def Let_def listening_def on_hello_def fail_def disconnected_def ws_stop_call_def
   said_def send_sent\<close>)

lemma ws_step_world:
  "ws_step on_event s a s' \<Longrightarrow> mc_world s' = fold (\<lambda>m w. snd (on_event m w)) (handed [a]) (mc_world s)"
  by (cases rule: ws_step.cases)
    (auto simp: handed_def List.map_filter_def phase_simps split: sum.split)

text \<open>
  C12. In every state a client can reach, whatever network, clock and \<open>stop()\<close> do: a connection that waits for the hello has sent
  nothing, one that waits for the acknowledgement only the token, one in the event loop the token and the four
  subscriptions, and no connection has ever sent anything else; \<open>connected\<close> is true exactly in the event loop, except that it stays
  true when a \<open>stop()\<close> ended the client there; and \<open>on_event\<close> has been given the frames of type \<open>event\<close>, in
  order, and nothing else.
\<close>

theorem ws_client_reachable_states:
  assumes "ws_path on_event (start_machine (new_ws_client token initial_backoff max_backoff max_seconds) w) as s"
  shows "let c = mc_client s; sent = ws_sent c in
    (mc_phase s = AwaitHello \<longrightarrow> hd sent = []) \<and> (mc_phase s = AwaitAck \<longrightarrow> hd sent = [Auth token]) \<and>
    (listening (mc_phase s) \<longrightarrow> (\<exists>n. hd sent = dialogue token n)) \<and>
    (\<forall>ms \<in> set sent. ms = [] \<or> ms = [Auth token] \<or> (\<exists>n. ms = dialogue token n)) \<and>
    (if mc_phase s = Ended then ws_connected c \<longrightarrow> ws_stop c else ws_connected c = listening (mc_phase s)) \<and>
    mc_world s = fold (\<lambda>m w. snd (on_event m w)) (handed as) w"
proof -
  let ?s = "start_machine (new_ws_client token initial_backoff max_backoff max_seconds) w"
  have "ws_inv token s \<and> mc_world s = fold (\<lambda>m w. snd (on_event m w)) (handed as) (mc_world ?s)"
    using assms
  proof (induction ?s as s rule: ws_path.induct)
    case none
    then show ?case by (simp add: ws_inv_def start_machine_def new_ws_client_def listening_def handed_def List.map_filter_def)
  next
    case (snoc as s' a s'')
    then show ?case using ws_step_inv [OF snoc.hyps(3)] ws_step_world [OF snoc.hyps(3)]
      by (simp add: handed_snoc [of as])
  qed
  then have inv: "ws_inv token s" and "mc_world s = fold (\<lambda>m w. snd (on_event m w)) (handed as) w"
    by (simp_all add: start_machine_def)
  with inv show ?thesis
    by (cases "mc_phase s") (auto simp: ws_inv_def Let_def listening_def list_all_iff said_def)
qed

lemma ws_client_reachable_states_witness:
  "\<exists>s :: unit machine. mc_phase s = AwaitHello \<and> hd (ws_sent (mc_client s)) = [] \<and> \<not> ws_connected (mc_client s)"
proof -
  let ?h = "\<lambda>m (w :: unit). (Inr () :: unit res, w)"
  define s where "s = start_machine (new_ws_client ''t'' 1 60 None) ()"
  let ?d = "s\<lparr>mc_phase := Dialing\<rparr>"
  let ?o = "?d\<lparr>mc_phase := AwaitHello, mc_client := (mc_client ?d)\<lparr>ws_sent := [] # ws_sent (mc_client ?d)\<rparr>\<rparr>"
  have "ws_step ?h s Dial ?d" by (rule ws_step.dial) (simp_all add: s_def start_machine_def new_ws_client_def)
  moreover have "ws_step ?h ?d Open ?o" by (rule ws_step.opened) simp
  ultimately have "ws_path ?h s ([Dial] @ [Open]) ?o" using ws_path.snoc [OF ws_path_step] by blast
  from ws_client_reachable_states [OF this [unfolded s_def]]
  have "mc_phase ?o = AwaitHello \<and> hd (ws_sent (mc_client ?o)) = [] \<and> \<not> ws_connected (mc_client ?o)"
    unfolding s_def [symmetric] by (simp add: Let_def listening_def)
  then show ?thesis by blast
qed

end
