(* ===== verification/WsPaths.thy ===== *)
theory WsPaths
  imports WsProtocol
begin

text \<open>
  The client of \<open>WsClient\<close>, which runs over lists of inputs, refines the machine of \<open>WsProtocol\<close>: each part of it
  (\<open>receive\<close>, the event loop, the handshake, one attempt, \<open>run\<close>) is shown to be a path of the machine.
\<close>

section \<open>Paths\<close>

lemma receive_path:
  "receive ins (mc_client s) = (r, c') \<Longrightarrow> mc_phase s \<noteq> Ended \<Longrightarrow> \<exists>as. ws_path on_event s as (s\<lparr>mc_client := c'\<rparr>)"
proof (induction ins "mc_client s" arbitrary: s rule: receive.induct)
  case (4 ins)
  let ?t = "s\<lparr>mc_client := ws_stop_call (mc_client s)\<rparr>"
  have "ws_path on_event s [StopCall] ?t" using 4(3) by (intro ws_path_step ws_step.stop)
  moreover obtain as where "ws_path on_event ?t as (?t\<lparr>mc_client := c'\<rparr>)" using 4(1) [of ?t] 4(2,3) by auto
  ultimately show ?case using path_trans [of on_event s "[StopCall]" ?t as] by auto
qed (auto intro!: exI [of _ "[]"] ws_path.none)

text \<open>Where the machine is when a connection has ended with an outcome, or waits.\<close>

definition settled :: "outcome \<Rightarrow> ws_client \<Rightarrow> 'w machine \<Rightarrow> bool" where
  "settled out c s \<longleftrightarrow>
     (case out of
        Returned \<Rightarrow> mc_phase s = Ended \<and> mc_client s = c
      | AuthInvalid \<Rightarrow> mc_phase s = Ended \<and> mc_client s = c\<lparr>ws_last_error_kind := Some ''auth-invalid''\<rparr>
      | Failed e \<Rightarrow> mc_phase s = Sleeping \<and> mc_client s = disconnected c
      | Waiting \<Rightarrow> mc_phase s \<in> {AwaitHello, AwaitAck, Subscribed} \<and> mc_client s = c)"

definition reaches :: "(json \<Rightarrow> 'w \<Rightarrow> unit res \<times> 'w) \<Rightarrow> 'w machine \<Rightarrow> outcome \<times> ws_client \<times> 'w \<Rightarrow> bool" where
  "reaches on_event s = (\<lambda>(out, c, w). \<exists>as s'. ws_path on_event s as s' \<and> settled out c s' \<and> mc_world s' = w \<and>
     mc_backoff s' = mc_backoff s)"

lemma reaches_step:
  assumes "ws_step on_event s a t" and "mc_backoff t = mc_backoff s" and "reaches on_event t r"
  shows "reaches on_event s r"
proof -
  obtain out c w where r: "r = (out, c, w)" by (metis surj_pair)
  with assms(3) obtain as s' where "ws_path on_event t as s'" "settled out c s'" "mc_world s' = w" "mc_backoff s' = mc_backoff t"
    by (auto simp: reaches_def)
  with path_trans [OF ws_path_step [OF assms(1)]] assms(2) show ?thesis by (auto simp: reaches_def r)
qed

lemma reaches_path:
  assumes "ws_path on_event s as t" and "mc_backoff t = mc_backoff s" and "reaches on_event t r"
  shows "reaches on_event s r"
  using assms(3,2) path_trans [OF assms(1)] by (fastforce simp: reaches_def)

lemma reaches_here: "settled out c s \<Longrightarrow> mc_world s = w \<Longrightarrow> reaches on_event s (out, c, w)"
  by (auto simp: reaches_def intro: ws_path.none)

lemma reaches_final:
  "ws_step on_event s a t \<Longrightarrow> mc_backoff t = mc_backoff s \<Longrightarrow> settled out c t \<Longrightarrow> mc_world t = w \<Longrightarrow>
    reaches on_event s (out, c, w)"
  by (rule reaches_step [OF _ _ reaches_here])

lemma reaches_leave:
  assumes "mc_phase s = Subscribed" and "ws_stop (mc_client s)" and "mc_client s = c" and "mc_world s = w"
  shows "reaches on_event s (Returned, c, w)"
  by (rule reaches_final [OF ws_step.leave]) (use assms in \<open>simp_all add: settled_def\<close>)

lemma fail_settled [simp]:
  "settled (Failed e) c (fail s) \<longleftrightarrow> disconnected (mc_client s) = disconnected c"
  "mc_world (fail s) = mc_world s" "mc_backoff (fail s) = mc_backoff s"
  by (simp_all add: settled_def fail_def)

lemma handle_path:
  assumes "mc_phase s = Subscribed" and "\<not> ws_stop (mc_client s)"
    and "reaches on_event (on_frame on_event raw (s\<lparr>mc_phase := Handling raw\<rparr>)) r"
  shows "reaches on_event s r"
proof -
  let ?t = "s\<lparr>mc_phase := Handling raw\<rparr>"
  have "ws_step on_event ?t (Handle raw) (on_frame on_event raw ?t)" by (rule ws_step.handle) simp
  moreover have "mc_backoff (on_frame on_event raw ?t) = mc_backoff ?t"
    by (simp add: on_frame_def split: sum.split)
  ultimately have "reaches on_event ?t r" using assms(3) by (rule reaches_step)
  moreover have "ws_step on_event s (Frame raw) ?t" using assms(1,2) by (rule ws_step.arrive)
  ultimately show ?thesis by (intro reaches_step [of on_event s "Frame raw" ?t]) simp_all
qed

lemma event_loop_path:
  "mc_phase s = Subscribed \<Longrightarrow> reaches on_event s (event_loop on_event ins (mc_client s, mc_world s))"
proof (induction ins arbitrary: s)
  case Nil
  then show ?case by (simp add: reaches_leave reaches_here settled_def)
next
  case (Cons i ins)
  show ?case
  proof (cases "ws_stop (mc_client s)")
    case True
    then show ?thesis using Cons.prems by (simp add: reaches_leave)
  next
    case run: False
    show ?thesis
    proof (cases i)
      case StopCalled
      let ?t = "s\<lparr>mc_client := ws_stop_call (mc_client s)\<rparr>"
      have "reaches on_event ?t (Returned, ws_stop_call (mc_client s), mc_world s)"
        using Cons.prems by (intro reaches_leave) (simp_all add: ws_stop_call_def)
      moreover have "ws_step on_event s StopCall ?t" using Cons.prems by (intro ws_step.stop) simp
      ultimately have "reaches on_event s (Returned, ws_stop_call (mc_client s), mc_world s)"
        by (intro reaches_step [of on_event s StopCall ?t]) simp_all
      with run StopCalled show ?thesis by simp
    next
      case Closed
      have "ws_step on_event s Drop (fail s)" using Cons.prems run by (intro ws_step.dropped) simp
      then have "reaches on_event s (Failed (RuntimeError ''connection closed''), mc_client s, mc_world s)"
        by (rule reaches_final) simp_all
      with run Closed show ?thesis by simp
    next
      case (Recv raw)
      let ?t = "on_frame on_event raw (s\<lparr>mc_phase := Handling raw\<rparr>)"
      have "reaches on_event ?t (event_loop on_event (i # ins) (mc_client s, mc_world s))"
      proof (cases "frame_type raw")
        case (Inl e)
        then obtain e' where "event_loop on_event (i # ins) (mc_client s, mc_world s) = (Failed e', mc_client s, mc_world s)"
          using run Recv by (cases "loads raw") auto
        with Inl show ?thesis by (simp add: on_frame_def reaches_here)
      next
        case (Inr t)
        then obtain msg where m: "loads raw = Inr msg" by (cases "loads raw") (auto simp: frame_type_def)
        have "mc_phase ?t = Subscribed" using Inr by (simp add: on_frame_def)
        from Cons.IH [OF this] Inr m run Recv show ?thesis
          by (cases "t = Some (JStr ''event'')") (simp_all add: on_frame_def)
      qed
      then show ?thesis by (rule handle_path [OF Cons.prems run])
    qed
  qed
qed

lemma receive_reaches:
  assumes "receive ins (mc_client s) = (r, c')" and "mc_phase s \<noteq> Ended" and "reaches on_event (s\<lparr>mc_client := c'\<rparr>) res"
  shows "reaches on_event s res"
proof -
  obtain as where "ws_path on_event s as (s\<lparr>mc_client := c'\<rparr>)" using receive_path [OF assms(1,2)] by blast
  then show ?thesis by (rule reaches_path) (use assms(3) in simp_all)
qed

text \<open>No frame in the handshake: the client waits, or the connection has closed.\<close>

lemma no_frame_path:
  assumes "mc_phase s \<in> {AwaitHello, AwaitAck}"
  shows "reaches on_event s (no_frame ins, mc_client s, mc_world s)"
proof (cases "ins = []")
  case True
  with assms show ?thesis by (auto simp: no_frame_def settled_def intro: reaches_here)
next
  case False
  have "ws_step on_event s Drop (fail s)" using assms by (intro ws_step.dropped) simp
  with False show ?thesis by (simp add: no_frame_def reaches_final)
qed

lemma ack_path:
  assumes "mc_phase s = AwaitAck"
  shows "reaches on_event s
    (case receive ins (mc_client s) of
       ((None, ins'), c) \<Rightarrow> (no_frame ins', c, mc_world s)
     | ((Some raw, ins'), c) \<Rightarrow>
         (case frame_type raw of
            Inl e \<Rightarrow> (Failed e, c, mc_world s)
          | Inr t \<Rightarrow>
              if t = Some (JStr ''auth_invalid'') then (AuthInvalid, c, mc_world s)
              else if t \<noteq> Some (JStr ''auth_ok'') then (Failed (RuntimeError ''unexpected auth ack''), c, mc_world s)
              else event_loop on_event ins' ((subscribe_all c)\<lparr>ws_connected := True\<rparr>, mc_world s)))"
    (is "reaches on_event s ?r")
proof -
  obtain r ins' c where rec: "receive ins (mc_client s) = ((r, ins'), c)" by (metis surj_pair)
  define t where "t = s\<lparr>mc_client := c\<rparr>"
  have t: "mc_phase t = AwaitAck" "mc_client t = c" "mc_world t = mc_world s" using assms by (simp_all add: t_def)
  have "reaches on_event t ?r"
  proof (cases r)
    case None
    with no_frame_path [of t on_event ins'] t rec show ?thesis by simp
  next
    case (Some raw)
    have step: "ws_step on_event t (Frame raw) (on_ack raw t)" by (rule ws_step.ack [OF t(1)])
    have b: "mc_backoff (on_ack raw t) = mc_backoff t" by (simp add: on_ack_def refuse_auth_def)
    show ?thesis
    proof (cases "frame_type raw")
      case (Inl e)
      with Some rec t show ?thesis by (auto intro!: reaches_final [OF step b] simp: on_ack_def)
    next
      case (Inr ty)
      consider "ty = Some (JStr ''auth_invalid'')" | "ty = Some (JStr ''auth_ok'')"
        | "ty \<noteq> Some (JStr ''auth_invalid'')" "ty \<noteq> Some (JStr ''auth_ok'')" by blast
      then show ?thesis
      proof cases
        case 1
        with Some Inr rec t show ?thesis
          by (auto intro!: reaches_final [OF step b] simp: on_ack_def refuse_auth_def settled_def)
      next
        case 2
        with Inr t have u: "on_ack raw t = t\<lparr>mc_phase := Subscribed, mc_client := (subscribe_all c)\<lparr>ws_connected := True\<rparr>\<rparr>"
          by (simp add: on_ack_def)
        have "reaches on_event t (event_loop on_event ins' ((subscribe_all c)\<lparr>ws_connected := True\<rparr>, mc_world s))"
          using event_loop_path [of "on_ack raw t" on_event ins'] t by (intro reaches_step [OF step b]) (simp add: u)
        with 2 Some Inr rec show ?thesis by simp
      next
        case 3
        with Some Inr rec t show ?thesis by (auto intro!: reaches_final [OF step b] simp: on_ack_def)
      qed
    qed
  qed
  then show ?thesis using rec assms by (intro receive_reaches [of ins s "(r, ins')" c]) (simp_all add: t_def)
qed

lemma connection_path:
  assumes "mc_phase s = Dialing"
  shows "reaches on_event s (connect_and_loop on_event ins (mc_client s, mc_world s))" (is "reaches on_event s ?r")
proof -
  define s1 where "s1 = s\<lparr>mc_phase := AwaitHello, mc_client := (mc_client s)\<lparr>ws_sent := [] # ws_sent (mc_client s)\<rparr>\<rparr>"
  obtain r ins' c where rec: "receive ins (mc_client s1) = ((r, ins'), c)" by (metis surj_pair)
  define t where "t = s1\<lparr>mc_client := c\<rparr>"
  have t: "mc_phase t = AwaitHello" "mc_client t = c" "mc_world t = mc_world s" by (simp_all add: t_def s1_def)
  have rec': "receive ins ((mc_client s)\<lparr>ws_sent := [] # ws_sent (mc_client s)\<rparr>) = ((r, ins'), c)"
    using rec by (simp add: s1_def)
  have "reaches on_event t ?r"
  proof (cases r)
    case None
    with no_frame_path [of t on_event ins'] t rec' show ?thesis by (simp add: connect_and_loop_def)
  next
    case (Some raw)
    have step: "ws_step on_event t (Frame raw) (on_hello raw t)" by (rule ws_step.hello [OF t(1)])
    have b: "mc_backoff (on_hello raw t) = mc_backoff t" by (simp add: on_hello_def)
    show ?thesis
    proof (cases "frame_type raw = Inr (Some (JStr ''auth_required''))")
      case False
      with Some rec' t show ?thesis
        by (cases "frame_type raw") (auto intro!: reaches_final [OF step b] simp: on_hello_def connect_and_loop_def)
    next
      case True
      with t have u: "on_hello raw t = t\<lparr>mc_phase := AwaitAck, mc_client := send (Auth (ws_token c)) c\<rparr>"
        by (simp add: on_hello_def)
      have w: "mc_world (on_hello raw t) = mc_world s" by (simp add: u t)
      have "reaches on_event (on_hello raw t) ?r"
        using ack_path [of "on_hello raw t" on_event ins', unfolded w] True Some rec' t by (simp add: u connect_and_loop_def)
      then show ?thesis by (rule reaches_step [OF step b])
    qed
  qed
  then have "reaches on_event s1 ?r" using rec by (intro receive_reaches [of ins s1 "(r, ins')" c]) (simp_all add: t_def s1_def)
  moreover have "ws_step on_event s Open s1" unfolding s1_def using assms by (rule ws_step.opened)
  ultimately show ?thesis by (intro reaches_step [of on_event s Open s1]) (simp_all add: s1_def)
qed

definition run_settled :: "run_state \<Rightarrow> phase \<Rightarrow> bool" where
  "run_settled st p \<longleftrightarrow>
     (case st of RunReturned \<Rightarrow> p = Ended | RunGoesOn \<Rightarrow> p = Top | RunWaiting \<Rightarrow> p \<in> {AwaitHello, AwaitAck, Subscribed})"

definition run_reaches :: "(json \<Rightarrow> 'w \<Rightarrow> unit res \<times> 'w) \<Rightarrow> 'w machine \<Rightarrow> run_state \<times> int list \<times> ws_client \<times> 'w \<Rightarrow> bool" where
  "run_reaches on_event s = (\<lambda>(st, sleeps, c, w).
     \<exists>as s'. ws_path on_event s as s' \<and> mc_client s' = c \<and> mc_world s' = w \<and> run_settled st (mc_phase s'))"

lemma run_reaches_path: "ws_path on_event s as t \<Longrightarrow> run_reaches on_event t r \<Longrightarrow> run_reaches on_event s r"
  using path_trans by (fastforce simp: run_reaches_def)

lemma run_reaches_step: "ws_step on_event s a t \<Longrightarrow> run_reaches on_event t r \<Longrightarrow> run_reaches on_event s r"
  by (rule run_reaches_path [OF ws_path_step])

lemma run_reaches_here:
  "mc_client s = c \<Longrightarrow> mc_world s = w \<Longrightarrow> run_settled st (mc_phase s) \<Longrightarrow> run_reaches on_event s (st, sleeps, c, w)"
  by (auto simp: run_reaches_def intro!: exI [of _ "[]"] ws_path.none)

lemma run_leaves:
  assumes "mc_phase s \<in> {Top, Subscribed, Sleeping}" and "ws_stop (mc_client s)" and "mc_client s = c" and "mc_world s = w"
  shows "run_reaches on_event s (RunReturned, sleeps, c, w)"
  by (rule run_reaches_step [OF ws_step.leave]) (use assms in \<open>auto intro!: run_reaches_here simp: run_settled_def\<close>)

lemma run_reaches_sleeps [simp]:
  "run_reaches on_event s (case r of (st, sleeps, c, w) \<Rightarrow> (st, b # sleeps, c, w)) \<longleftrightarrow> run_reaches on_event s r"
  by (cases r) (simp add: run_reaches_def)

lemma run_asleep:
  assumes "mc_phase s = Sleeping" and "mc_client s = c" and "mc_world s = w"
    and "\<And>b. run_reaches on_event (s\<lparr>mc_phase := Top, mc_backoff := min (ws_max_backoff c) (mc_backoff s * 2)\<rparr>) r"
  shows "run_reaches on_event s
    (if ws_stop c then (RunReturned, [], c, w)
     else if stopped then (RunReturned, [], ws_stop_call c, w)
     else case r of (st, sleeps, c, w) \<Rightarrow> (st, b # sleeps, c, w))"
proof (cases "ws_stop c")
  case True
  with assms show ?thesis by (simp add: run_leaves)
next
  case run: False
  show ?thesis
  proof (cases stopped)
    case True
    let ?t = "s\<lparr>mc_client := ws_stop_call (mc_client s)\<rparr>"
    have "ws_step on_event s StopCall ?t" using assms(1) by (intro ws_step.stop) simp
    moreover have "run_reaches on_event ?t (RunReturned, [], ws_stop_call c, w)"
      using assms by (intro run_leaves) (simp_all add: ws_stop_call_def)
    ultimately show ?thesis using True run by (simp add: run_reaches_step)
  next
    case False
    have "ws_step on_event s Wake (s\<lparr>mc_phase := Top, mc_backoff := min (ws_max_backoff (mc_client s)) (mc_backoff s * 2)\<rparr>)"
      using assms run by (intro ws_step.wake) auto
    then show ?thesis using False run assms by (simp add: run_reaches_step)
  qed
qed

text \<open>One turn of the loop of \<open>run\<close>, up to the sleep.\<close>

definition attempt_result ::
  "(json \<Rightarrow> 'w \<Rightarrow> unit res \<times> 'w) \<Rightarrow> attempt \<Rightarrow> ws_client \<times> 'w \<Rightarrow> outcome \<times> ws_client \<times> 'w" where
  "attempt_result on_event a = (\<lambda>(c, w). case at_conn a of
     None \<Rightarrow> (Failed OSError, c, w) | Some ins \<Rightarrow> connect_and_loop on_event ins (c, w))"

lemma attempt_path:
  assumes "mc_phase s = Top" and "\<not> ws_stop (mc_client s)"
  shows "reaches on_event s (attempt_result on_event a (mc_client s, mc_world s))"
proof -
  define t where "t = s\<lparr>mc_phase := Dialing\<rparr>"
  have t: "mc_phase t = Dialing" "mc_client t = mc_client s" "mc_world t = mc_world s" "mc_backoff t = mc_backoff s"
    by (simp_all add: t_def)
  have "reaches on_event t (attempt_result on_event a (mc_client s, mc_world s))"
  proof (cases "at_conn a")
    case None
    have "ws_step on_event t Refused (fail t)" by (rule ws_step.refused [OF t(1)])
    then show ?thesis using None t by (simp add: attempt_result_def reaches_final)
  next
    case (Some ins)
    with connection_path [OF t(1), of on_event ins] t show ?thesis by (simp add: attempt_result_def)
  qed
  moreover have "ws_step on_event s Dial t" unfolding t_def using assms by (rule ws_step.dial)
  ultimately show ?thesis using t(4) by (intro reaches_step [of on_event s Dial t])
qed

lemma attempt_stop:
  "attempt_result on_event a (c, w) = (Returned, c', w') \<Longrightarrow> ws_stop c'"
  using connect_settings [of on_event _ c w Returned c' w'] by (auto simp: attempt_result_def split: option.splits)

text \<open>One attempt of \<open>run\<close>, and what follows when it failed.\<close>

lemma attempt_reaches:
  assumes t: "settled out c1 t" "mc_world t = w1"
    and r: "attempt_result on_event a (c, w) = (out, c1, w1)"
    and run: "\<not> ws_stop c" "\<not> (case ws_max_seconds c of None \<Rightarrow> False | Some m \<Rightarrow> m < at_time a - start)"
    and follows: "\<And>u. mc_phase u = Top \<Longrightarrow> run_reaches on_event u (ws_run on_event start (mc_backoff u) atts (mc_client u, mc_world u))"
  shows "run_reaches on_event t (ws_run on_event start (mc_backoff t) (a # atts) (c, w))"
proof (cases out)
  case Returned
  have "ws_stop c1" using attempt_stop [of on_event a c w c1 w1] r Returned by simp
  with Returned t run r [unfolded attempt_result_def] show ?thesis
    by (auto intro!: run_reaches_here simp: settled_def run_settled_def Let_def)
next
  case (Failed e)
  then have p: "mc_phase t = Sleeping" and c: "mc_client t = disconnected c1" using t by (simp_all add: settled_def)
  let ?u = "t\<lparr>mc_phase := Top, mc_backoff := min (ws_max_backoff (disconnected c1)) (mc_backoff t * 2)\<rparr>"
  have "run_reaches on_event ?u (ws_run on_event start (min (ws_max_backoff (disconnected c1)) (mc_backoff t * 2)) atts
      (disconnected c1, w1))" using follows [of ?u] c t by simp
  from run_asleep [OF p c t(2) this, of "at_stopped_asleep a" "mc_backoff t"] show ?thesis
    using Failed run r [unfolded attempt_result_def] by (simp add: Let_def flip: disconnected_def)
qed (use t run r [unfolded attempt_result_def] in \<open>auto intro!: run_reaches_here simp: settled_def run_settled_def\<close>)

lemma ws_run_path:
  assumes "mc_phase s = Top"
  shows "run_reaches on_event s (ws_run on_event start (mc_backoff s) atts (mc_client s, mc_world s))"
  using assms
proof (induction atts arbitrary: s)
  case Nil
  then show ?case by (auto intro: run_leaves run_reaches_here simp: run_settled_def)
next
  case (Cons a atts)
  show ?case
  proof (cases "ws_stop (mc_client s)")
    case True
    then show ?thesis using Cons.prems by (simp add: run_leaves)
  next
    case run: False
    show ?thesis
    proof (cases "case ws_max_seconds (mc_client s) of None \<Rightarrow> False | Some m \<Rightarrow> m < at_time a - start")
      case True
      then have "ws_step on_event s Expire (s\<lparr>mc_phase := Ended\<rparr>)"
        using Cons.prems run by (intro ws_step.expire) (auto split: option.splits)
      then have "run_reaches on_event s (RunReturned, [], mc_client s, mc_world s)"
        by (rule run_reaches_step) (simp add: run_reaches_here run_settled_def)
      with True run show ?thesis by simp
    next
      case inside: False
      obtain out c1 w1 where r: "attempt_result on_event a (mc_client s, mc_world s) = (out, c1, w1)" by (metis surj_pair)
      from attempt_path [OF Cons.prems run, of on_event a] r obtain as t
        where as: "ws_path on_event s as t" and t: "settled out c1 t" "mc_world t = w1" "mc_backoff t = mc_backoff s"
        by (auto simp: reaches_def)
      from attempt_reaches [OF t(1,2) r run inside Cons.IH] t(3) as show ?thesis by (metis run_reaches_path)
    qed
  qed
qed

text \<open>
  C38. The list-driven client of \<open>WsClient\<close> refines this machine: each of its runs, whatever connections it
  meets, is a path from the start to a state with the same client and world, which has ended, is at the head of the loop, or waits,
  as the run says.
\<close>

theorem runs_are_paths:
  assumes "ws_run on_event start (ws_initial_backoff c) atts (c, w) = (st, sleeps, c', w')"
  shows "\<exists>as s. ws_path on_event (start_machine c w) as s \<and> mc_client s = c' \<and> mc_world s = w' \<and>
    (case st of RunReturned \<Rightarrow> mc_phase s = Ended | RunGoesOn \<Rightarrow> mc_phase s = Top
     | RunWaiting \<Rightarrow> mc_phase s \<in> {AwaitHello, AwaitAck, Subscribed})"
  using ws_run_path [of "start_machine c w" on_event start atts] assms
  by (simp add: start_machine_def run_reaches_def run_settled_def)

lemma runs_are_paths_witness:
  "\<exists>as s. ws_path (\<lambda>m w. (Inr (), w)) (start_machine (new_ws_client ''t'' 1 60 None) ()) as s \<and>
    ws_disconnect_count (mc_client s) = 1 \<and> mc_phase s = Top"
proof -
  let ?c = "new_ws_client ''t'' 1 60 None"
  have r: "ws_run (\<lambda>m w. (Inr (), w)) 0 (ws_initial_backoff ?c) [\<lparr>at_time = 0, at_conn = None, at_stopped_asleep = False\<rparr>] (?c, ()) =
      (RunGoesOn, [1], disconnected ?c, ())" by (simp add: new_ws_client_def Let_def disconnected_def)
  have d: "ws_disconnect_count (disconnected ?c) = 1" by (simp add: new_ws_client_def disconnected_def)
  from runs_are_paths [OF r] obtain as s where "ws_path (\<lambda>m w. (Inr (), w)) (start_machine ?c ()) as s"
    "mc_client s = disconnected ?c" "mc_phase s = Top" by auto
  with d show ?thesis by metis
qed

end
