(* ===== verification/Process.thy ===== *)
theory Process
  imports Site EndToEnd WsProtocol History
begin

text \<open>
  The whole process of \<open>src/ai_ha/main.py\<close>: \<open>main\<close>, \<open>_run\<close> from the configuration to the exit code, and what runs in between as a
  sequence of steps of \<open>Site\<close>. \<open>served\<close> is how \<open>server.serve()\<close> ends: it returns once a signal has set
  \<open>should_exit\<close>, or raises. After the \<open>finally\<close> block come the steps that background tasks complete while the process
  waits for them. The properties speak of every sequence of steps, and of a frame that is being handled while the
  process shuts down.
\<close>

section \<open>Start\<close>

text \<open>\<open>main\<close>: the two paths, from the environment where set.\<close>

definition main_paths :: "string option \<Rightarrow> string option \<Rightarrow> string \<times> string" where
  "main_paths config_env data_env =
     (case config_env of None \<Rightarrow> ''/data/config.toml'' | Some p \<Rightarrow> p, case data_env of None \<Rightarrow> ''/data'' | Some p \<Rightarrow> p)"

text \<open>The banner of the first run; the frame characters are left out.\<close>

datatype banner_line = Bar | Framed string

definition first_run_banner :: "string \<Rightarrow> banner_line list" where
  "first_run_banner token =
     [Bar, Framed ''ai-home-assistant FIRST RUN'', Framed (''admin token: '' @ token),
      Framed ''Saved to /data/.admin-token (chmod 0600).'',
      Framed ''Username 'admin', password the token above. v0.1.0.'', Bar]"

record process =
  pr_site :: site
  pr_ws :: ws_client
  pr_ws_url :: string
  pr_printed :: "banner_line list"
  pr_listen :: "string \<times> int"
  pr_require_auth :: bool

datatype process_end = Exited int | Raised err

text \<open>\<open>_run\<close> up to \<open>server.serve()\<close>: the start of \<open>Wiring\<close> with the web socket client, the banner and the server's address.\<close>

definition boot ::
  "(string \<Rightarrow> (string \<Rightarrow> bool) option) \<Rightarrow> load_error + app_config \<Rightarrow> db res \<Rightarrow> int \<Rightarrow> string \<Rightarrow> string option
    \<Rightarrow> file_text \<Rightarrow> process_end + process" where
  "boot compile loaded opened now fresh token_file config =
     (case startup compile loaded opened now fresh token_file of
        Exit code \<Rightarrow> Inl (Exited code)
      | Crash e \<Rightarrow> Inl (Raised e)
      | Started a tf \<Rightarrow>
          (let cfg = projr loaded in
           Inr \<lparr>pr_site = running cfg config a,
                pr_ws = new_ws_client (ha_token (cf_ha cfg)) 1 60 None,
                pr_ws_url = ws_url (ha_url (cf_ha cfg)),
                pr_printed = (if token_file = None then first_run_banner fresh else []),
                pr_listen = (wb_host (cf_web cfg), wb_port (cf_web cfg)),
                pr_require_auth = wb_require_auth (cf_web cfg)\<rparr>))"

section \<open>End\<close>

definition watcher_stop :: "privacy_state \<Rightarrow> privacy_state" where
  "watcher_stop s = s\<lparr>ps_watching := False\<rparr>"

text \<open>The \<open>finally\<close> block: what follows a raise of \<open>pipeline.stop()\<close> is skipped.\<close>

definition finally_block :: "(string \<Rightarrow> string) \<Rightarrow> clock \<Rightarrow> process \<Rightarrow> unit res \<times> process" where
  "finally_block sha ck p =
     (case shutdown sha ck (si_app (pr_site p)) of
        (r, a) \<Rightarrow> (r, p\<lparr>pr_ws := ws_stop_call (pr_ws p),
                        pr_site := (pr_site p)\<lparr>si_privacy := watcher_stop (si_privacy (pr_site p)), si_app := a\<rparr>\<rparr>))"

text \<open>
  The last 15 seconds: \<open>gather\<close> waits for the tasks of the client, the watcher and the first sync, and keeps their
  exceptions to itself. What they still complete is any list of these steps: a frame in hand, the first sync, and
  the reload of a watcher that was in its pause of 200 ms when it was told to stop; its task has then ended.
\<close>

datatype late_step = LateMessage wake json | LateSync wake | LateReload

definition late_turn ::
  "(string \<Rightarrow> string) \<Rightarrow> (string \<Rightarrow> table option) \<Rightarrow> coercions \<Rightarrow> environ
    \<Rightarrow> (string \<Rightarrow> (string \<Rightarrow> bool) option) \<Rightarrow> bool \<Rightarrow> late_step \<Rightarrow> site \<Rightarrow> site" where
  "late_turn sha parse co env compile watching l s =
     (case l of
        LateMessage w m \<Rightarrow> s\<lparr>si_app := snd (on_ws_event sha w m (si_app s))\<rparr>
      | LateSync w \<Rightarrow> s\<lparr>si_app := initial_sync sha w (si_app s)\<rparr>
      | LateReload \<Rightarrow>
          if watching
          then install (watcher_stop (watcher_turn parse co env compile ((si_privacy s)\<lparr>ps_watching := True\<rparr>))) s
          else s)"

definition gather_tasks ::
  "(string \<Rightarrow> string) \<Rightarrow> (string \<Rightarrow> table option) \<Rightarrow> coercions \<Rightarrow> environ
    \<Rightarrow> (string \<Rightarrow> (string \<Rightarrow> bool) option) \<Rightarrow> bool \<Rightarrow> late_step list \<Rightarrow> process \<Rightarrow> process" where
  "gather_tasks sha parse co env compile watching late p =
     p\<lparr>pr_site := fold (late_turn sha parse co env compile watching) late (pr_site p)\<rparr>"

definition serve_and_stop ::
  "(string \<Rightarrow> string) \<Rightarrow> (string \<Rightarrow> table option) \<Rightarrow> coercions \<Rightarrow> environ
    \<Rightarrow> (string \<Rightarrow> (string \<Rightarrow> bool) option) \<Rightarrow> clock \<Rightarrow> unit res \<Rightarrow> late_step list \<Rightarrow> process \<Rightarrow> process_end \<times> process" where
  "serve_and_stop sha parse co env compile ck served late p =
     (case finally_block sha ck p of
        (Inl e, q) \<Rightarrow> (Raised e, q)
      | (Inr _, q) \<Rightarrow>
          (let q = gather_tasks sha parse co env compile (ps_watching (si_privacy (pr_site p))) late q in
           case served of Inl e \<Rightarrow> (Raised e, q) | Inr _ \<Rightarrow> (Exited 0, q)))"

text \<open>The process: start, the steps while the server runs, end.\<close>

definition steps ::
  "(string \<Rightarrow> string) \<Rightarrow> (string \<Rightarrow> table option) \<Rightarrow> (table \<Rightarrow> string) \<Rightarrow> coercions \<Rightarrow> environ
    \<Rightarrow> (string \<Rightarrow> (string \<Rightarrow> bool) option) \<Rightarrow> site_op list \<Rightarrow> process \<Rightarrow> process" where
  "steps sha parse render co env compile ops p =
     p\<lparr>pr_site := fold (site_step sha parse render co env compile) ops (pr_site p)\<rparr>"

section \<open>What every step keeps\<close>

abbreviation site_db :: "site \<Rightarrow> db" where
  "site_db s \<equiv> is_db (ap_sys (si_app s))"

abbreviation site_task :: "site \<Rightarrow> flush_task" where
  "site_task s \<equiv> pp_task (is_pipe (ap_sys (si_app s)))"

text \<open>
  A step of \<open>Site\<close> changes pipeline, index and database by operations of \<open>IngestSystem\<close> other than a start or a
  stop, so what holds of its runs holds of the process.
\<close>

definition served_op :: "op \<Rightarrow> bool" where
  "served_op op = (case op of Start \<Rightarrow> False | Stop _ \<Rightarrow> False | _ \<Rightarrow> True)"

definition runs_to :: "(string \<Rightarrow> string) \<Rightarrow> isys \<Rightarrow> isys \<Rightarrow> bool" where
  "runs_to sha s s' \<longleftrightarrow> (\<exists>ops. list_all served_op ops \<and> s' = irun sha ops s)"

lemma runs_to_refl [simp]: "runs_to sha s s"
  unfolding runs_to_def by (rule exI [of _ "[]"]) simp

lemma runs_to_step: "served_op op \<Longrightarrow> s' = snd (istep sha op s) \<Longrightarrow> runs_to sha s s'"
  unfolding runs_to_def by (rule exI [of _ "[op]"]) simp

lemma irun_append: "irun sha (xs @ ys) s = irun sha ys (irun sha xs s)"
  by (induction xs arbitrary: s) simp_all

lemma runs_to_trans: "runs_to sha s t \<Longrightarrow> runs_to sha t u \<Longrightarrow> runs_to sha s u"
  unfolding runs_to_def by (metis irun_append list_all_append)

lemma refetch_runs: "runs_to sha (ap_sys a) (ap_sys (snd (refetch sha w a)))"
proof (cases "wk_frames w")
  case None
  then show ?thesis by (simp add: refetch_def)
next
  case (Some frames)
  show ?thesis
  proof (cases "fetch_once frames")
    case (Inl e)
    with Some show ?thesis by (simp add: refetch_def)
  next
    case (Inr p)
    with Some have "ap_sys (snd (refetch sha w a)) = snd (istep sha (ApplyTopology p (wk_now w)) (ap_sys a))"
      by (auto simp: refetch_def istep_def Let_def split: prod.split sum.split)
    then show ?thesis by (intro runs_to_step) (simp_all add: served_op_def)
  qed
qed

lemma initial_sync_sys: "ap_sys (initial_sync sha w a) = ap_sys (snd (refetch sha w a))"
  by (cases "refetch sha w a"; cases "fst (refetch sha w a)") (auto simp: initial_sync_def)

lemma on_ws_event_runs: "runs_to sha (ap_sys a) (ap_sys (snd (on_ws_event sha w m a)))"
proof (cases "read_message (wk_now w) m")
  case (Inr x)
  then show ?thesis
  proof (cases x)
    case (StateChanged ev)
    with Inr show ?thesis
      by (intro runs_to_step [of "Submit (wk_clock w) ev"]) (simp_all add: served_op_def on_ws_event_def on_state_changed_sys)
  qed (use Inr refetch_runs [of sha a w] in \<open>simp_all add: on_ws_event_def\<close>)
qed (simp add: on_ws_event_def)

lemma site_step_runs: "runs_to sha (ap_sys (si_app s)) (ap_sys (si_app (site_step sha parse render co env compile op s)))"
proof (cases op)
  case (FlushTask ck)
  then show ?thesis by (intro runs_to_step [of "Tick ck"]) (simp_all add: served_op_def site_step_def)
next
  case FileChange
  then show ?thesis
    by (intro runs_to_step [of "SetHide (ps_matcher (watcher_turn parse co env compile (si_privacy s)))"])
      (simp_all add: served_op_def site_step_def install_def istep_def)
next
  case (PostPrivacy payload)
  then show ?thesis by (simp add: site_step_def split: prod.split option.split)
qed (simp_all add: site_step_def on_ws_event_runs initial_sync_sys refetch_runs)

lemma site_runs: "runs_to sha (ap_sys (si_app s)) (ap_sys (si_app (fold (site_step sha parse render co env compile) ops s)))"
proof (induction ops arbitrary: s)
  case (Cons op ops)
  from runs_to_trans [OF site_step_runs Cons.IH] show ?case by simp
qed simp

text \<open>The flush task stays alive on a database that answers.\<close>

lemma commit_ok:
  assumes "healthy d"
  shows "\<exists>pl' d'. commit_locked ck idx (pl, d) = (Inr (), pl', d') \<and> pp_task pl' = pp_task pl \<and> pp_stop pl' = pp_stop pl"
proof -
  obtain d' where "write_batch (ck_wall ck) idx (pp_buffer pl) d = (Inr (), d')"
    using assms write_batch_ok unfolding healthy_def by metis
  then show ?thesis by (simp add: commit_locked_def)
qed

lemma tick_task:
  assumes "healthy d" and "pp_task pl = Running" and "\<not> pp_stop pl" and "periodic_tick ck idx (pl, d) = (pl', d')"
  shows "pp_task pl' = Running \<and> \<not> pp_stop pl'"
  using assms commit_ok [OF assms(1), of ck idx pl] by (auto simp: periodic_tick_def split: option.splits if_splits)

definition alive :: "isys \<Rightarrow> bool" where
  "alive s \<longleftrightarrow> healthy (is_db s) \<and> pp_task (is_pipe s) = Running \<and> \<not> pp_stop (is_pipe s)"

lemma istep_alive:
  assumes "alive s" and "served_op op"
  shows "alive (snd (istep sha op s))"
proof -
  have h: "healthy (is_db s)" and t: "pp_task (is_pipe s) = Running" "\<not> pp_stop (is_pipe s)"
    using assms(1) by (simp_all add: alive_def)
  have "pp_task (is_pipe (snd (istep sha op s))) = Running \<and> \<not> pp_stop (is_pipe (snd (istep sha op s)))"
  proof (cases op)
    case (Submit ck ev)
    with submit_flags t show ?thesis
      by (cases "submit ck (is_idx s) ev (is_pipe s, is_db s)") (auto simp: istep_def dest!: submit_flags)
  next
    case (Flush ck)
    with commit_ok [OF h, of ck "is_idx s" "is_pipe s"] t show ?thesis by (auto simp: istep_def flush_def)
  next
    case (Tick ck)
    with tick_task [OF h t] show ?thesis
      by (cases "periodic_tick ck (is_idx s) (is_pipe s, is_db s)") (auto simp: istep_def)
  next
    case (ApplyTopology p ts)
    with t show ?thesis by (simp add: istep_def split: prod.split sum.split)
  qed (use assms(2) t in \<open>simp_all add: served_op_def istep_def\<close>)
  then show ?thesis using istep_healthy [OF h] by (simp add: alive_def)
qed

lemma runs_to_alive: "runs_to sha s s' \<Longrightarrow> alive s \<Longrightarrow> alive s'"
proof (unfold runs_to_def, elim exE conjE)
  fix ops assume "list_all served_op ops" "alive s" "s' = irun sha ops s"
  then show "alive s'" by (induction ops arbitrary: s) (auto simp: istep_alive)
qed

lemma started_alive:
  assumes "startup compile (Inr cfg) (Inr d) now fresh token_file = Started a tf" and "healthy d"
  shows "alive (ap_sys (si_app (running cfg config a)))" and "site_db (running cfg config a) = d"
  using assms by (auto simp: startup_def running_def alive_def start_def new_pipeline_def split: sum.splits prod.splits)

section \<open>The end of the process\<close>

lemma late_runs: "runs_to sha (ap_sys (si_app s)) (ap_sys (si_app (late_turn sha parse co env compile watching l s)))"
proof (cases l)
  case LateReload
  then show ?thesis
    by (cases watching) (auto simp: late_turn_def install_def istep_def served_op_def
      intro: runs_to_step [of "SetHide (ps_matcher (watcher_stop (watcher_turn parse co env compile ((si_privacy s)\<lparr>ps_watching := True\<rparr>))))"])
qed (simp_all add: late_turn_def on_ws_event_runs initial_sync_sys refetch_runs)

lemma gather_runs:
  "runs_to sha (ap_sys (si_app (pr_site p))) (ap_sys (si_app (pr_site (gather_tasks sha parse co env compile watching late p))))"
proof -
  have "runs_to sha (ap_sys (si_app s)) (ap_sys (si_app (fold (late_turn sha parse co env compile watching) late s)))" for s
  proof (induction late arbitrary: s)
    case (Cons l late)
    from runs_to_trans [OF late_runs Cons.IH] show ?case by simp
  qed simp
  then show ?thesis by (simp add: gather_tasks_def)
qed

lemma late_turn_stopped:
  "\<not> ps_watching (si_privacy s) \<Longrightarrow> \<not> ps_watching (si_privacy (late_turn sha parse co env compile watching l s))"
  by (cases l) (simp_all add: late_turn_def install_def watcher_stop_def)

lemma gather_stopped:
  "\<not> ps_watching (si_privacy (pr_site p)) \<Longrightarrow>
     \<not> ps_watching (si_privacy (pr_site (gather_tasks sha parse co env compile watching late p)))"
  unfolding gather_tasks_def by (simp, rule fold_inv) (auto simp: late_turn_stopped)

text \<open>The event table only grows.\<close>

lemma write_batch_appends: "\<exists>more. persisted (snd (write_batch w idx buf d)) = persisted d @ more"
  using write_batch_events [of w idx buf d] persisted_append
  by (cases "write_batch w idx buf d") (auto simp: persisted_def)

lemma istep_grows: "\<exists>more. persisted (is_db (snd (istep sha op s))) = persisted (is_db s) @ more"
proof (rule istep_db_inv)
  fix w idx buf d
  assume "\<exists>more. persisted d = persisted (is_db s) @ more"
  with write_batch_appends [of w idx buf d] show "\<exists>more. persisted (snd (write_batch w idx buf d)) = persisted (is_db s) @ more"
    by auto
qed (auto simp: persisted_def db_frame)

lemma runs_to_grows: "runs_to sha s s' \<Longrightarrow> \<exists>more. persisted (is_db s') = persisted (is_db s) @ more"
proof (unfold runs_to_def, elim exE conjE)
  fix ops assume "s' = irun sha ops s"
  then show "\<exists>more. persisted (is_db s') = persisted (is_db s) @ more"
  proof (induction ops arbitrary: s)
    case (Cons op ops)
    from istep_grows [of sha op s] Cons.IH [of "snd (istep sha op s)"] Cons.prems show ?case by auto
  qed simp
qed

lemma shutdown_alive:
  assumes "alive (ap_sys a)"
  shows "\<exists>a'. shutdown sha ck a = (Inr (), a') \<and> persisted (is_db (ap_sys a')) = iheld (ap_sys a) \<and>
    pending (ap_sys a') = [] \<and> jw_handle (ap_jsonl a') = None"
proof -
  have "healthy (is_db (ap_sys a))" "\<And>e. pp_task (is_pipe (ap_sys a)) \<noteq> Died e" using assms by (simp_all add: alive_def)
  from istep_stop [OF this, of sha ck]
  obtain s' where "istep sha (Stop ck) (ap_sys a) = (Inr (), s')" "pp_buffer (is_pipe s') = []"
    "persisted (is_db s') = iheld (ap_sys a)" by blast
  then show ?thesis by (simp add: shutdown_def pending_def close_writer_def)
qed

text \<open>The state changes a run accepts, each with the snapshot of its moment: those no pattern in force matches.\<close>

definition taken_by :: "site_op \<Rightarrow> site \<Rightarrow> (ha_event \<times> int) list" where
  "taken_by op s =
     (case op of
        Message w m \<Rightarrow>
          (case read_message (wk_now w) m of
             Inr (StateChanged ev) \<Rightarrow>
               if matches (in_force s) (he_entity_id ev) then [] else [tagged (is_idx (ap_sys (si_app s))) ev]
           | _ \<Rightarrow> [])
      | _ \<Rightarrow> [])"

fun taken :: "(site_op \<Rightarrow> site \<Rightarrow> site) \<Rightarrow> site_op list \<Rightarrow> site \<Rightarrow> (ha_event \<times> int) list" where
  "taken step [] s = []"
| "taken step (op # ops) s = taken_by op s @ taken step ops (step op s)"

lemma refetch_sys:
  "ap_sys (snd (refetch sha w a)) =
     (case wk_frames w of None \<Rightarrow> ap_sys a
      | Some frames \<Rightarrow> (case fetch_once frames of Inl e \<Rightarrow> ap_sys a
          | Inr p \<Rightarrow> snd (istep sha (ApplyTopology p (wk_now w)) (ap_sys a))))"
  by (simp add: refetch_def istep_def Let_def split: option.split sum.split prod.split)

lemma message_sys:
  "ap_sys (snd (on_ws_event sha w m a)) =
     (case read_message (wk_now w) m of
        Inr (StateChanged ev) \<Rightarrow> snd (istep sha (Submit (wk_clock w) ev) (ap_sys a))
      | Inr RegistryUpdated \<Rightarrow> ap_sys (snd (refetch sha w a))
      | _ \<Rightarrow> ap_sys a)"
  by (simp add: on_ws_event_def on_state_changed_sys split: sum.split ws_message.split)

lemma refetch_held: "healthy (is_db (ap_sys a)) \<Longrightarrow> iheld (ap_sys (snd (refetch sha w a))) = iheld (ap_sys a)"
  by (simp add: refetch_sys istep_healthy_held accepted_by_def split: option.split sum.split)

lemma site_step_held:
  assumes "healthy (site_db s)"
  shows "iheld (ap_sys (si_app (site_step sha parse render co env compile op s))) = iheld (ap_sys (si_app s)) @ taken_by op s"
proof (cases op)
  case (Message w m)
  then show ?thesis
    using istep_healthy_held [OF assms] refetch_held [OF assms]
    by (simp add: site_step_def taken_by_def message_sys accepted_by_def hidden_def split: sum.split ws_message.split)
next
  case FileChange
  then show ?thesis by (simp add: site_step_def taken_by_def install_def iheld_def pending_def)
qed (use assms in \<open>simp_all add: site_step_def taken_by_def initial_sync_sys refetch_held istep_healthy_held accepted_by_def
  split: prod.split option.split\<close>)

lemma site_step_healthy:
  "healthy (site_db s) \<Longrightarrow> healthy (site_db (site_step sha parse render co env compile op s))"
  using site_step_runs [of sha s parse render co env compile op] by (auto simp: runs_to_def irun_healthy)

lemma site_run_held:
  "healthy (site_db s) \<Longrightarrow> iheld (ap_sys (si_app (fold (site_step sha parse render co env compile) ops s))) =
     iheld (ap_sys (si_app s)) @ taken (site_step sha parse render co env compile) ops s"
proof (induction ops arbitrary: s)
  case (Cons op ops)
  from Cons.IH [OF site_step_healthy [OF Cons.prems]] site_step_held [OF Cons.prems] show ?case by simp
qed simp

lemma started_held:
  assumes "startup compile (Inr cfg) (Inr d) now fresh token_file = Started a tf"
  shows "iheld (ap_sys (si_app (running cfg config a))) = persisted d"
  using assms by (auto simp: startup_def running_def iheld_def pending_def start_def new_pipeline_def split: sum.splits prod.splits)

lemma finally_alive:
  assumes "alive (ap_sys (si_app (pr_site q)))"
  shows "\<exists>r. finally_block sha ck q = (Inr (), r) \<and> persisted (site_db (pr_site r)) = iheld (ap_sys (si_app (pr_site q))) \<and>
    pending (ap_sys (si_app (pr_site r))) = [] \<and> jw_handle (ap_jsonl (si_app (pr_site r))) = None \<and>
    ws_stop (pr_ws r) \<and> \<not> ps_watching (si_privacy (pr_site r)) \<and> pr_printed r = pr_printed q"
  using shutdown_alive [OF assms, of sha ck] by (auto simp: finally_block_def ws_stop_call_def watcher_stop_def)

text \<open>
  C8. On a database all of whose connections succeed, every process that starts ends with exit code 0 when its server returns, whatever
  messages, syncs, flushes, settings updates, edits and reloads came before, and whatever the background tasks still do
  while the process waits for them. The event table then has what it had at the start, then, each once and in order, every state
  change handled before the shutdown that no pattern in force at its moment matched, for the flush task is still alive when its
  stop is called; then comes what the background tasks still store. (Of a frame that they handle after the shutdown nothing is
  claimed: see \<open>late_frame_is_lost\<close>.) The web socket client and the watcher are told to stop. If the tasks do nothing
  more, there is nothing else in the table, the buffer is empty and the archive closed. The token is shown on the first run only.
\<close>

theorem process_ends_cleanly:
  assumes "boot compile (Inr cfg) (Inr d) now fresh token_file config = Inr p" and "healthy d"
  shows "let q = steps sha parse render co env compile ops p
    in \<exists>q' more. serve_and_stop sha parse co env compile ck (Inr ()) late q = (Exited 0, q') \<and>
      persisted (site_db (pr_site q')) = persisted d @ taken (site_step sha parse render co env compile) ops (pr_site p) @ more \<and>
      (if late = [] then more = [] \<and> pending (ap_sys (si_app (pr_site q'))) = [] \<and> jw_handle (ap_jsonl (si_app (pr_site q'))) = None
       else True) \<and>
      ws_stop (pr_ws q') \<and> \<not> ps_watching (si_privacy (pr_site q')) \<and>
      (pr_printed q' \<noteq> [] \<longleftrightarrow> token_file = None)"
proof -
  from assms(1) obtain a tf where st: "startup compile (Inr cfg) (Inr d) now fresh token_file = Started a tf"
    and p: "pr_site p = running cfg config a" "pr_printed p \<noteq> [] \<longleftrightarrow> token_file = None"
    by (auto simp: boot_def Let_def first_run_banner_def split: start_result.splits)
  define q where "q = steps sha parse render co env compile ops p"
  have "alive (ap_sys (si_app (pr_site q)))"
    using runs_to_alive [OF site_runs started_alive(1) [OF st assms(2)]] by (simp add: q_def steps_def p)
  moreover have held: "iheld (ap_sys (si_app (pr_site q))) = persisted d @ taken (site_step sha parse render co env compile) ops (pr_site p)"
    using site_run_held [of "pr_site p" sha parse render co env compile ops] started_alive(2) [OF st assms(2)] started_held [OF st] assms(2)
    by (simp add: q_def steps_def p(1))
  ultimately obtain r where r: "finally_block sha ck q = (Inr (), r)" "ws_stop (pr_ws r)" "\<not> ps_watching (si_privacy (pr_site r))"
      "pending (ap_sys (si_app (pr_site r))) = []" "jw_handle (ap_jsonl (si_app (pr_site r))) = None"
    and stored: "persisted (site_db (pr_site r)) = iheld (ap_sys (si_app (pr_site q)))" and pr: "pr_printed r = pr_printed q"
    using finally_alive [of q sha ck] by blast
  define q' where "q' = gather_tasks sha parse co env compile (ps_watching (si_privacy (pr_site q))) late r"
  obtain more where "persisted (site_db (pr_site q')) = iheld (ap_sys (si_app (pr_site q))) @ more"
    using runs_to_grows [OF gather_runs] unfolding q'_def stored [symmetric] by blast
  moreover have "late = [] \<Longrightarrow> q' = r" by (simp add: q'_def gather_tasks_def)
  moreover have "\<not> ps_watching (si_privacy (pr_site q'))" unfolding q'_def using r(3) by (rule gather_stopped)
  moreover have "serve_and_stop sha parse co env compile ck (Inr ()) late q = (Exited 0, q')"
    by (simp add: serve_and_stop_def r(1) q'_def Let_def)
  moreover have "ws_stop (pr_ws q')" "pr_printed q' = pr_printed p"
    using r(2) pr by (simp_all add: q'_def gather_tasks_def q_def steps_def)
  ultimately show ?thesis
    unfolding q_def [symmetric] Let_def using r(4,5) stored held p(2) by (intro exI [of _ q'] exI [of _ more]) auto
qed

section \<open>Whatever connections fail\<close>

lemma serve_and_stop_runs:
  "runs_to sha (ap_sys (snd (shutdown sha ck (si_app (pr_site q)))))
     (ap_sys (si_app (pr_site (snd (serve_and_stop sha parse co env compile ck served late q)))))"
proof -
  have "ap_sys (si_app (pr_site (snd (finally_block sha ck q)))) = ap_sys (snd (shutdown sha ck (si_app (pr_site q))))"
    by (simp add: finally_block_def split: prod.split)
  with gather_runs [of sha "snd (finally_block sha ck q)" parse co env compile "ps_watching (si_privacy (pr_site q))" late]
  show ?thesis by (auto simp: serve_and_stop_def Let_def split: prod.split sum.split)
qed

lemma refetch_keeps: "set (iheld (ap_sys (snd (refetch sha w a)))) = set (iheld (ap_sys a))"
  by (simp add: refetch_sys istep_keeps accepted_by_def split: option.split sum.split)

lemma site_step_keeps:
  "set (iheld (ap_sys (si_app (site_step sha parse render co env compile op s)))) =
     set (iheld (ap_sys (si_app s))) \<union> set (taken_by op s)"
proof (cases op)
  case (Message w m)
  show ?thesis
  proof (cases "\<exists>ev. read_message (wk_now w) m = Inr (StateChanged ev)")
    case True
    then obtain ev where "read_message (wk_now w) m = Inr (StateChanged ev)" by blast
    then show ?thesis
      by (cases "hidden (is_pipe (ap_sys (si_app s))) ev")
        (simp_all add: Message site_step_def taken_by_def message_sys istep_keeps accepted_by_def hidden_def)
  next
    case False
    then show ?thesis
      by (simp add: Message site_step_def taken_by_def message_sys refetch_keeps split: sum.split ws_message.split)
  qed
next
  case FileChange
  then show ?thesis by (simp add: site_step_def taken_by_def install_def iheld_def pending_def)
qed (simp_all add: site_step_def taken_by_def initial_sync_sys refetch_keeps istep_keeps accepted_by_def
  split: prod.split option.split)

lemma site_run_keeps:
  "set (iheld (ap_sys (si_app (fold (site_step sha parse render co env compile) ops s)))) =
     set (iheld (ap_sys (si_app s))) \<union> set (taken (site_step sha parse render co env compile) ops s)"
  by (induction ops arbitrary: s) (auto simp: site_step_keeps)

lemma stop_that_returns:
  assumes "istep sha (Stop ck) s = (Inr (), s')"
  shows "set (persisted (is_db s')) = set (iheld s)"
proof -
  obtain r pl d where st: "stop ck (is_idx s) (is_pipe s, is_db s) = (r, pl, d)" by (metis surj_pair)
  with assms have r: "r = Inr ()" and s': "s' = s\<lparr>is_pipe := pl, is_db := d\<rparr>" by (simp_all add: istep_def)
  from stop_cases [OF st] r have "view (commit_locked ck (is_idx s) (is_pipe s, is_db s)) = (Inr (), pp_buffer pl, d)" by simp
  then have "pp_buffer pl = []" unfolding commit_view by (rule batch_commit_ok_empty)
  with istep_keeps [of sha "Stop ck" s] show ?thesis
    by (simp add: assms accepted_by_def s' iheld_def pending_def)
qed

text \<open>
  C9. The exit code 0 can be trusted for what was handled before the shutdown: whichever connections fail while the process
  runs and stops, if it ends with code 0 then the event table has what it had at the start and every state change handled
  before the shutdown that no pattern in force at its moment matched. (A frame that the background task handles after it can be
  lost with exit code 0 all the same: see \<open>late_frame_is_lost\<close>.)
\<close>

theorem exit_zero_means_stored:
  assumes "boot compile (Inr cfg) (Inr d) now fresh token_file config = Inr p"
    and "serve_and_stop sha parse co env compile ck served late (steps sha parse render co env compile ops p) = (Exited 0, q)"
  shows "set (persisted d) \<union> set (taken (site_step sha parse render co env compile) ops (pr_site p)) \<subseteq>
    set (persisted (site_db (pr_site q)))"
proof -
  from assms(1) obtain a tf where st: "startup compile (Inr cfg) (Inr d) now fresh token_file = Started a tf"
    and p: "pr_site p = running cfg config a" by (auto simp: boot_def Let_def split: start_result.splits)
  define r where "r = steps sha parse render co env compile ops p"
  have r: "set (iheld (ap_sys (si_app (pr_site r)))) =
      set (persisted d) \<union> set (taken (site_step sha parse render co env compile) ops (pr_site p))"
    using started_held [OF st] by (simp add: r_def steps_def site_run_keeps p)
  from assms(2) obtain a' where sh: "shutdown sha ck (si_app (pr_site r)) = (Inr (), a')"
    unfolding r_def [symmetric] by (auto simp: serve_and_stop_def finally_block_def split: prod.splits sum.splits)
  then obtain s' where "istep sha (Stop ck) (ap_sys (si_app (pr_site r))) = (Inr (), s')" "ap_sys a' = s'"
    by (auto simp: shutdown_def split: prod.splits sum.splits)
  then have "set (persisted (is_db (ap_sys a'))) = set (iheld (ap_sys (si_app (pr_site r))))" by (simp add: stop_that_returns)
  moreover have "set (persisted (is_db (ap_sys a'))) \<subseteq> set (persisted (site_db (pr_site q)))"
    using runs_to_grows [OF serve_and_stop_runs [of sha ck r parse co env compile served late]] assms(2) sh
    by (auto simp: r_def)
  ultimately show ?thesis by (simp add: r)
qed

section \<open>What the database remembers\<close>

lemma runs_to_wf: "runs_to sha s s' \<Longrightarrow> db_wf (is_db s) \<Longrightarrow> db_wf (is_db s')"
  by (auto simp: runs_to_def irun_wf)

lemma runs_to_later: "runs_to sha s s' \<Longrightarrow> later d (is_db s) \<Longrightarrow> later d (is_db s')"
  by (auto simp: runs_to_def irun_later)

lemma shutdown_db: "is_db (ap_sys (snd (shutdown sha ck a))) = is_db (snd (istep sha (Stop ck) (ap_sys a)))"
  by (simp add: shutdown_def split: prod.split sum.split)

text \<open>
  C11. No process loses or makes up history, whatever it does from its start until its last task has ended and
  whichever connections fail on the way. The database it leaves has the events of the one it opened, unchanged and in their
  place, and new ones after them; the same holds for the snapshots. Every area, device and entity is still there with its
  first sighting. No counter of an area and hour and no count of drops has fallen, and a counter has grown by no more
  than the new events of that area and hour; an entity's total of events has not fallen, and has grown by no more than the
  new events of that entity.
\<close>

theorem every_process_keeps_its_history:
  assumes "boot compile (Inr cfg) (Inr d) now fresh token_file config = Inr p" and "db_wf d"
  shows "\<exists>ev. remembers ev d (site_db (pr_site (snd (serve_and_stop sha parse co env compile ck served late
    (steps sha parse render co env compile ops p)))))"
proof -
  define q where "q = steps sha parse render co env compile ops p"
  from assms(1) have "site_db (pr_site p) = d"
    by (auto simp: boot_def startup_def running_def Let_def split: start_result.splits sum.splits prod.splits)
  with assms(2) have "later d (site_db (pr_site p))" unfolding later_def using remembers_refl by blast
  from runs_to_later [OF site_runs this] have "later d (site_db (pr_site q))" by (simp add: q_def steps_def)
  then have "later d (is_db (ap_sys (snd (shutdown sha ck (si_app (pr_site q))))))" by (simp add: shutdown_db istep_later)
  from runs_to_later [OF serve_and_stop_runs this] show ?thesis by (simp add: later_def q_def)
qed

section \<open>A frame in hand at the shutdown\<close>

lemma submit_below:
  assumes "\<not> hidden pl ev" and "int (length (pp_buffer pl)) + 1 < pp_batch_size pl"
  shows "\<exists>t. submit ck idx ev (pl, d) = (Inr (), pl\<lparr>pp_buffer := pp_buffer pl @ [tagged idx ev], pp_first_added := t\<rparr>, d)"
  using assms by (auto simp: submit_def hidden_def tagged_def Let_def)

lemma tick_finished: "pp_task (is_pipe s) \<noteq> Running \<Longrightarrow> snd (istep sha (Tick ck) s) = s"
  by (simp add: istep_def periodic_tick_def)

text \<open>What a stop leaves of the pipeline.\<close>

lemma stop_alive:
  assumes "alive s"
  shows "\<exists>s'. istep sha (Stop ck) s = (Inr (), s') \<and> pp_buffer (is_pipe s') = [] \<and> pp_task (is_pipe s') = Finished \<and>
    pp_hide (is_pipe s') = pp_hide (is_pipe s) \<and> pp_batch_size (is_pipe s') = pp_batch_size (is_pipe s) \<and> is_idx s' = is_idx s"
proof -
  let ?pl = "(is_pipe s)\<lparr>pp_stop := True, pp_task := Finished\<rparr>"
  have "healthy (is_db s)" and t: "pp_task (is_pipe s) = Running" using assms by (simp_all add: alive_def)
  from commit_empties [OF this(1)] obtain pl' d' where c: "commit_locked ck (is_idx s) (?pl, is_db s) = (Inr (), pl', d')" "pp_buffer pl' = []"
    by metis
  then have "istep sha (Stop ck) s = (Inr (), s\<lparr>is_pipe := pl', is_db := d'\<rparr>)"
    using t by (simp add: istep_def stop_def flush_def)
  with c commit_locked_flags [OF c(1)] commit_locked_hide [OF c(1)] commit_size [OF c(1)] show ?thesis by simp
qed

text \<open>
  C14. The process stops the pipeline before the task of the web socket client has ended: a frame which that task has already received is
  handled after the last flush. Its event is accepted into a buffer that nothing empties any more, so the event
  table never gets it, and the archive, closed before, is open again with its line not flushed.
\<close>

theorem late_frame_is_lost:
  assumes "alive (ap_sys a)" and "1 < pp_batch_size (is_pipe (ap_sys a))"
    and "mc_phase m = Handling raw" and "frame_type raw = Inr (Some (JStr ''event''))"
    and "read_message (wk_now w) (projr (loads raw)) = Inr (StateChanged ev)"
    and "visible a ev" and "day_of (wk_now w) = Inr day"
  shows "\<exists>a' m'. shutdown sha ck a = (Inr (), a') \<and> pending (ap_sys a') = [] \<and>
    ws_path (on_ws_event sha w) (m\<lparr>mc_client := ws_stop_call (mc_client m), mc_world := a'\<rparr>) [Handle raw, Leave] m' \<and>
    mc_phase m' = Ended \<and>
    (let s = ap_sys (mc_world m') in
     pending s = [tagged (is_idx s) ev] \<and> persisted (is_db s) = persisted (is_db (ap_sys a')) \<and>
     (\<forall>ck. snd (istep sha (Tick ck) s) = s)) \<and>
    jw_handle (ap_jsonl (mc_world m')) = Some (path_for_day day (ap_jsonl a'), [archive_line ev])"
proof -
  from stop_alive [OF assms(1), of sha ck] obtain s' where st: "istep sha (Stop ck) (ap_sys a) = (Inr (), s')"
    and s': "pp_buffer (is_pipe s') = []" "pp_task (is_pipe s') = Finished" "pp_hide (is_pipe s') = pp_hide (is_pipe (ap_sys a))"
      "pp_batch_size (is_pipe s') = pp_batch_size (is_pipe (ap_sys a))" "is_idx s' = is_idx (ap_sys a)" by blast
  define a' where "a' = a\<lparr>ap_sys := s', ap_jsonl := close_writer (ap_jsonl a)\<rparr>"
  have sh: "shutdown sha ck a = (Inr (), a')" by (simp add: shutdown_def st a'_def)
  define m1 where "m1 = m\<lparr>mc_client := ws_stop_call (mc_client m), mc_world := a'\<rparr>"
  define m2 where "m2 = on_frame (on_ws_event sha w) raw m1"
  have nh: "\<not> hidden (is_pipe s') ev" using assms(6) s'(3) by (simp add: visible_def hidden_def)
  obtain t where sub: "submit (wk_clock w) (is_idx s') ev (is_pipe s', is_db s') =
      (Inr (), (is_pipe s')\<lparr>pp_buffer := [tagged (is_idx s') ev], pp_first_added := t\<rparr>, is_db s')"
    using submit_below [OF nh, of "wk_clock w" "is_idx s'" "is_db s'"] assms(2) s'(1,4) by auto
  have ts: "he_ts_ms ev = wk_now w" using read_message_time [OF assms(5)] .
  define sys where "sys = s'\<lparr>is_pipe := (is_pipe s')\<lparr>pp_buffer := [tagged (is_idx s') ev], pp_first_added := t\<rparr>\<rparr>"
  have sys: "istep sha (Submit (wk_clock w) ev) s' = (Inr (), sys)" by (simp add: istep_def sub sys_def)
  have world: "ap_sys (mc_world m2) = sys" "jw_handle (ap_jsonl (mc_world m2)) = Some (path_for_day day (ap_jsonl a'), [archive_line ev])"
    using assms(4,5,7) sys ts
    by (simp_all add: m2_def m1_def a'_def on_frame_def on_ws_event_def on_state_changed_def append_record_def Let_def
      ensure_day_def close_writer_def open_append_def path_for_day_def)
  have m2: "mc_phase m2 = Subscribed" "ws_stop (mc_client m2)"
    using assms(4) by (simp_all add: m2_def m1_def on_frame_def ws_stop_call_def)
  have "ws_step (on_ws_event sha w) m1 (Handle raw) m2" unfolding m2_def by (rule ws_step.handle) (simp add: m1_def assms(3))
  moreover have "ws_step (on_ws_event sha w) m2 Leave (m2\<lparr>mc_phase := Ended\<rparr>)" using m2 by (intro ws_step.leave) simp_all
  ultimately have "ws_path (on_ws_event sha w) m1 ([Handle raw] @ [Leave]) (m2\<lparr>mc_phase := Ended\<rparr>)"
    using ws_path.snoc [OF ws_path_step] by blast
  then show ?thesis using sh s'(1,2) world
    by (intro exI [of _ a'] exI [of _ "m2\<lparr>mc_phase := Ended\<rparr>"])
      (simp add: m1_def [symmetric] Let_def pending_def tick_finished, simp add: a'_def sys_def pending_def tick_finished)
qed

section \<open>Examples\<close>

text \<open>A first run, with the configuration of the example in \<open>Site\<close>.\<close>

lemma example_boot:
  "\<exists>cfg p. load_config example_parse strict example_env (Text ''new'') = Inr cfg \<and>
    boot example_compile (Inr cfg) (Inr empty_db) 0 ''t'' None (Text ''new'') = Inr p"
proof -
  obtain cfg where cfg: "load_config example_parse strict example_env (Text ''new'') = Inr cfg"
    and ps: "pv_hide_entities_pattern (cf_privacy cfg) = [''lock'', ''door'']" using site_loads by blast
  have "\<not> nested_quantifier ''lock''" "\<not> nested_quantifier ''door''" using example_guard by (simp_all add: search_redos)
  then obtain a tf where "startup example_compile (Inr cfg) (Inr empty_db) 0 ''t'' None = Started a tf"
    using startup_exit_codes [of example_compile "Inr cfg" "Inr empty_db" 0 "''t''" None]
    by (auto simp: Let_def ps example_compile_def)
  then have "\<exists>p. boot example_compile (Inr cfg) (Inr empty_db) 0 ''t'' None (Text ''new'') = Inr p"
    by (simp add: boot_def Let_def)
  with cfg show ?thesis by blast
qed

lemma example_started:
  assumes "load_config example_parse strict example_env (Text ''new'') = Inr cfg"
    and "boot example_compile (Inr cfg) (Inr d) 0 ''t'' None (Text ''new'') = Inr p"
  shows "matches (in_force (pr_site p)) eid \<longleftrightarrow> eid = ''lock'' \<or> eid = ''door''"
    and "is_idx (ap_sys (si_app (pr_site p))) = []" and "site_db (pr_site p) = d"
    and "site_task (pr_site p) = Running" and "\<not> pp_stop (is_pipe (ap_sys (si_app (pr_site p))))"
proof -
  have ps: "pv_hide_entities_pattern (cf_privacy cfg) = [''lock'', ''door'']" using site_loads assms(1) by auto
  from assms(2) obtain a tf where st: "startup example_compile (Inr cfg) (Inr d) 0 ''t'' None = Started a tf"
    and p: "pr_site p = running cfg (Text ''new'') a" by (auto simp: boot_def Let_def split: start_result.splits)
  have "make_hide_matcher example_compile [''lock'', ''door''] = Inr (in_force (pr_site p))"
    using st by (auto simp: startup_def ps p running_def start_def new_pipeline_def split: sum.splits prod.splits)
  from matches_patterns [OF this, of eid] show "matches (in_force (pr_site p)) eid \<longleftrightarrow> eid = ''lock'' \<or> eid = ''door''"
    by (auto simp: example_compile_def)
  show "is_idx (ap_sys (si_app (pr_site p))) = []" "site_db (pr_site p) = d" "site_task (pr_site p) = Running"
    "\<not> pp_stop (is_pipe (ap_sys (si_app (pr_site p))))"
    using st by (auto simp: startup_def p running_def start_def new_pipeline_def split: sum.splits prod.splits)
qed

text \<open>The lamp's message is stored; the file was edited before it, and read again when the process was already stopping.\<close>

lemma example_taken:
  assumes "load_config example_parse strict example_env (Text ''new'') = Inr cfg"
    and "boot example_compile (Inr cfg) (Inr empty_db) 0 ''t'' None (Text ''new'') = Inr p"
  shows "taken (site_step (\<lambda>x. x) example_parse (\<lambda>_. ''new'') strict example_env example_compile)
    [EditFile (Text ''old''), Message door_wake (change_message ''light.a'')] (pr_site p) = [(state_change 5 ''light.a'', 0)]"
  by (simp add: taken_by_def site_step_def read_change door_facts(2) row_simps tagged_def lookup_def example_started [OF assms])

lemma process_ends_cleanly_witness:
  "\<exists>cfg p q. boot example_compile (Inr cfg) (Inr empty_db) 0 ''t'' None (Text ''new'') = Inr p \<and>
    serve_and_stop (\<lambda>x. x) example_parse strict example_env example_compile (at 9) (Inr ()) [LateReload]
      (steps (\<lambda>x. x) example_parse (\<lambda>_. ''new'') strict example_env example_compile
        [EditFile (Text ''old''), Message door_wake (change_message ''light.a'')] p) = (Exited 0, q) \<and>
    (state_change 5 ''light.a'', 0) \<in> set (persisted (site_db (pr_site q))) \<and> pr_printed q \<noteq> []"
proof -
  obtain cfg p where cfg: "load_config example_parse strict example_env (Text ''new'') = Inr cfg"
    and b: "boot example_compile (Inr cfg) (Inr empty_db) 0 ''t'' None (Text ''new'') = Inr p" using example_boot by blast
  from process_ends_cleanly [OF b healthy_empty, of "\<lambda>x. x" example_parse "\<lambda>_. ''new''" strict example_env
      "[EditFile (Text ''old''), Message door_wake (change_message ''light.a'')]" "at 9" "[LateReload]", unfolded example_taken [OF cfg b]] b
  show ?thesis unfolding Let_def by fastforce
qed

text \<open>The first connection fails, under the message of a hidden entity; the process goes on, and its exit code is 0.\<close>

abbreviation failing_db :: db where
  "failing_db \<equiv> empty_db\<lparr>db_faults := [True]\<rparr>"

lemma example_boot_failing:
  "\<exists>cfg p. load_config example_parse strict example_env (Text ''new'') = Inr cfg \<and>
    boot example_compile (Inr cfg) (Inr failing_db) 0 ''t'' None (Text ''new'') = Inr p"
proof -
  obtain cfg p where cfg: "load_config example_parse strict example_env (Text ''new'') = Inr cfg"
    and "boot example_compile (Inr cfg) (Inr empty_db) 0 ''t'' None (Text ''new'') = Inr p" using example_boot by blast
  then have "\<exists>p. boot example_compile (Inr cfg) (Inr failing_db) 0 ''t'' None (Text ''new'') = Inr p"
    by (auto simp: boot_def startup_def Let_def split: start_result.splits sum.splits prod.splits)
  with cfg show ?thesis by blast
qed

lemma exit_zero_means_stored_witness:
  "\<exists>cfg p q. boot example_compile (Inr cfg) (Inr failing_db) 0 ''t'' None (Text ''new'') = Inr p \<and>
    serve_and_stop (\<lambda>x. x) example_parse strict example_env example_compile (at 9) (Inr ()) []
      (steps (\<lambda>x. x) example_parse (\<lambda>_. ''new'') strict example_env example_compile
        [Message door_wake (change_message ''lock''), Message door_wake (change_message ''light.a'')] p) = (Exited 0, q) \<and>
    (state_change 5 ''light.a'', 0) \<in> set (persisted (site_db (pr_site q)))"
proof -
  obtain cfg p where cfg: "load_config example_parse strict example_env (Text ''new'') = Inr cfg"
    and b: "boot example_compile (Inr cfg) (Inr failing_db) 0 ''t'' None (Text ''new'') = Inr p" using example_boot_failing by blast
  note ex = example_started [OF cfg b]
  let ?step = "site_step (\<lambda>x. x) example_parse (\<lambda>_. ''new'') strict example_env example_compile"
  let ?ms = "[Message door_wake (change_message ''lock''), Message door_wake (change_message ''light.a'')]"
  define s1 where "s1 = ?step (hd ?ms) (pr_site p)"
  have "ap_sys (si_app s1) = snd (istep (\<lambda>x. x) (Submit (wk_clock door_wake) (state_change 5 ''lock'')) (ap_sys (si_app (pr_site p))))"
    by (simp add: s1_def site_step_def message_sys read_change door_facts(2))
  moreover have "matches (in_force (pr_site p)) (he_entity_id (state_change 5 ''lock''))" by (simp add: ex row_simps)
  ultimately obtain drops where s1: "ap_sys (si_app s1) =
      (ap_sys (si_app (pr_site p)))\<lparr>is_db := failing_db\<lparr>db_drops := drops, db_faults := []\<rparr>\<rparr>"
    using submit_matched [of "ap_sys (si_app (pr_site p))" "state_change 5 ''lock''"] by (auto simp: ex(3))
  have "db_wf (site_db s1)"
    using runs_to_wf [OF site_step_runs] by (simp add: s1_def ex(3) db_wf_empty)
  then have "alive (ap_sys (si_app s1))" using ex(4,5) by (simp add: alive_def healthy_def s1)
  then have "alive (ap_sys (si_app (?step (last ?ms) s1)))" by (rule runs_to_alive [OF site_step_runs])
  then have "alive (ap_sys (si_app (pr_site (steps (\<lambda>x. x) example_parse (\<lambda>_. ''new'') strict example_env example_compile ?ms p))))"
    by (simp add: steps_def s1_def)
  from finally_alive [OF this, of "\<lambda>x. x" "at 9"]
  obtain q where q: "serve_and_stop (\<lambda>x. x) example_parse strict example_env example_compile (at 9) (Inr ()) []
      (steps (\<lambda>x. x) example_parse (\<lambda>_. ''new'') strict example_env example_compile ?ms p) = (Exited 0, q)"
    by (auto simp: serve_and_stop_def Let_def)
  have "in_force s1 = in_force (pr_site p)" "is_idx (ap_sys (si_app s1)) = []" by (simp_all add: s1 ex(2))
  then have "(state_change 5 ''light.a'', 0) \<in> set (taken ?step ?ms (pr_site p))"
    by (simp add: taken_by_def read_change door_facts(2) row_simps tagged_def lookup_def ex(1) s1_def)
  with exit_zero_means_stored [OF b q] b q show ?thesis by blast
qed

text \<open>A process on a database that knows a lamp, whose connections fail now and then.\<close>

definition known_lamp :: db where
  "known_lamp = (snd (upsert_entities [(entity_row_of [] 1 4 [(''entity_id'', JStr ''light.a'')])\<lparr>er_total_event_count := 3\<rparr>] empty_db))
     \<lparr>db_faults := [True, False, True]\<rparr>"

lemma every_process_keeps_its_history_witness:
  "\<exists>cfg p row. boot example_compile (Inr cfg) (Inr known_lamp) 0 ''t'' None (Text ''new'') = Inr p \<and>
    tbl_find er_entity_id ''light.a'' (db_entities (site_db (pr_site (snd (serve_and_stop (\<lambda>x. x) example_parse strict
      example_env example_compile (at 9) (Inl ValueError) [LateSync door_wake]
      (steps (\<lambda>x. x) example_parse (\<lambda>_. ''new'') strict example_env example_compile [Message door_wake (change_message ''light.a'')] p)))))) = Some row \<and>
    er_first_seen_at row = 4 \<and> 3 \<le> er_total_event_count row"
proof -
  obtain cfg p where "boot example_compile (Inr cfg) (Inr empty_db) 0 ''t'' None (Text ''new'') = Inr p"
    using example_boot by blast
  then have "\<exists>p. boot example_compile (Inr cfg) (Inr known_lamp) 0 ''t'' None (Text ''new'') = Inr p"
    by (auto simp: boot_def startup_def Let_def split: start_result.splits sum.splits prod.splits)
  then obtain p where b: "boot example_compile (Inr cfg) (Inr known_lamp) 0 ''t'' None (Text ''new'') = Inr p"
    by blast
  have wf: "db_wf known_lamp" using upsert_entities_wf [OF db_wf_empty] by (simp add: known_lamp_def)
  have "tbl_find er_entity_id ''light.a'' (db_entities known_lamp) =
      Some ((entity_row_of [] 1 4 [(''entity_id'', JStr ''light.a'')])\<lparr>er_total_event_count := 3\<rparr>)"
    by (simp add: known_lamp_def upsert_entities_def get_s_def row_simps) (simp add: empty_db_def get_s_def row_simps)
  moreover obtain ev where "remembers ev known_lamp (site_db (pr_site (snd (serve_and_stop (\<lambda>x. x) example_parse strict
      example_env example_compile (at 9) (Inl ValueError) [LateSync door_wake]
      (steps (\<lambda>x. x) example_parse (\<lambda>_. ''new'') strict example_env example_compile [Message door_wake (change_message ''light.a'')] p)))))"
    using every_process_keeps_its_history [OF b wf] by blast
  ultimately show ?thesis using b
    by (fastforce simp: remembers_def rows_kept_def entity_row_of_def Let_def)
qed

text \<open>The lamp's frame of the example in \<open>EndToEnd\<close> is in hand when the process stops.\<close>

definition started_door_app :: app where
  "started_door_app = door_app\<lparr>ap_sys := (ap_sys door_app)\<lparr>is_pipe := start (is_pipe (ap_sys door_app))\<rparr>\<rparr>"

lemma late_frame_is_lost_witness:
  "\<exists>a' (m' :: app machine). shutdown (\<lambda>x. x) (at 9) started_door_app = (Inr (), a') \<and> mc_phase m' = Ended \<and>
    persisted (is_db (ap_sys (mc_world m'))) = persisted (is_db (ap_sys a')) \<and>
    length (pending (ap_sys (mc_world m'))) = 1"
proof -
  define m where "m = (start_machine (new_ws_client ''t'' 1 60 None) started_door_app)\<lparr>mc_phase := Handling (last door_frames)\<rparr>"
  have l: "loads (last door_frames) = Inr (change_message ''light.a'')"
    using door_frames_read by (cases door_frames) (auto simp: door_frames_def)
  have a: "alive (ap_sys started_door_app)"
    using door_healthy by (simp add: alive_def started_door_app_def start_def door_app_def new_isys_def new_pipeline_def)
  have b: "1 < pp_batch_size (is_pipe (ap_sys started_door_app))"
    by (simp add: started_door_app_def door_app_def new_isys_def new_pipeline_def start_def)
  have p: "mc_phase m = Handling (last door_frames)" by (simp add: m_def)
  have t: "frame_type (last door_frames) = Inr (Some (JStr ''event''))" by (simp add: frame_type_def l change_message_def)
  have r: "read_message (wk_now door_wake) (projr (loads (last door_frames))) = Inr (StateChanged (state_change 5 ''light.a''))"
    by (simp add: l door_facts(2) read_change)
  have v: "visible started_door_app (state_change 5 ''light.a'')"
    using door_facts(4) by (simp add: visible_def hidden_def started_door_app_def start_def)
  have d: "day_of (wk_now door_wake) = Inr ''1970-01-01''" by (simp add: door_facts(2) door_day)
  from late_frame_is_lost [OF a b p t r v d, of "\<lambda>x. x" "at 9"]
  obtain a' and m' :: "app machine" where s: "shutdown (\<lambda>x. x) (at 9) started_door_app = (Inr (), a')" "mc_phase m' = Ended"
      "persisted (is_db (ap_sys (mc_world m'))) = persisted (is_db (ap_sys a'))"
    and "pending (ap_sys (mc_world m')) = [tagged (is_idx (ap_sys (mc_world m'))) (state_change 5 ''light.a'')]"
    unfolding Let_def by blast
  from this(4) have "length (pending (ap_sys (mc_world m'))) = 1" by simp
  with s show ?thesis by blast
qed

end
