(* ===== verification/Unwinding.thy ===== *)
theory Unwinding
  imports Prelude
begin

text \<open>
  Noninterference by unwinding. A system takes operations; some of them are secret in the state they meet, and an observer
  sees a view of the state. \<open>purge\<close> removes from a sequence of operations those that are secret when their turn comes.
  The contract \<open>unwinding\<close> is local: a secret operation does not change the view, and any other operation takes
  states with the same view to states with the same view. It follows that a run and its purged
  run end in the same view. \<open>NoTrace\<close> interprets it on the steps of \<open>Site\<close>.
\<close>

fun purge :: "('o \<Rightarrow> 's \<Rightarrow> 's) \<Rightarrow> ('s \<Rightarrow> 'o \<Rightarrow> bool) \<Rightarrow> 'o list \<Rightarrow> 's \<Rightarrow> 'o list" where
  "purge step secret [] s = []"
| "purge step secret (op # ops) s =
     (if secret s op then purge step secret ops (step op s) else op # purge step secret ops (step op s))"

lemma purge_subset: "set (purge step secret ops s) \<subseteq> set ops"
  by (induction ops arbitrary: s) auto

lemma purge_nothing:
  "(\<And>s op. op \<in> set ops \<Longrightarrow> \<not> secret s op) \<Longrightarrow> purge step secret ops s = ops"
  by (induction ops arbitrary: s) auto

locale unwinding =
  fixes step :: "'o \<Rightarrow> 's \<Rightarrow> 's"
    and secret :: "'s \<Rightarrow> 'o \<Rightarrow> bool"
    and view :: "'s \<Rightarrow> 'v"
    and good :: "'s \<Rightarrow> bool"
  assumes keeps: "good s \<Longrightarrow> good (step op s)"
    and respects: "good s \<Longrightarrow> secret s op \<Longrightarrow> view (step op s) = view s"
    and consistent: "view s = view t \<Longrightarrow> \<not> secret s op \<Longrightarrow> view (step op s) = view (step op t)"
begin

lemma run_good: "good s \<Longrightarrow> good (fold step ops s)"
  by (rule fold_inv) (rule keeps)

lemma purged_from:
  "good s \<Longrightarrow> view s = view t \<Longrightarrow> view (fold step ops s) = view (fold step (purge step secret ops s) t)"
proof (induction ops arbitrary: s t)
  case (Cons op ops)
  have good: "good (step op s)" using Cons.prems(1) by (rule keeps)
  show ?case
  proof (cases "secret s op")
    case True
    with respects [OF Cons.prems(1)] Cons.prems(2) have "view (step op s) = view t" by metis
    from Cons.IH [OF good this] True show ?thesis by simp
  next
    case False
    from Cons.IH [OF good consistent [OF Cons.prems(2) False]] False show ?thesis by simp
  qed
qed simp

lemma purged: "good s \<Longrightarrow> view (fold step ops s) = view (fold step (purge step secret ops s) s)"
  by (rule purged_from) simp_all

end

end
