(* ===== verification/Requests.thy ===== *)
theory Requests
  imports Site Routes WebApi
begin

text \<open>
  A request of the web interface from its arrival to its answer: the route of \<open>Routes\<close> with its dependency, the bounds
  that the handlers of \<open>src/ai_ha/web/routes\<close> declare for their query parameters (\<open>Query(100, ge=1, le=1000)\<close>), and
  the handler of \<open>WebApi\<close> or \<open>Settings\<close>. Every HTTP route that the program's own routers have is here; the web socket of
  the event stream is in \<open>Stream\<close>, and the static files are FastAPI's. Parameters that are numbers have been parsed.
\<close>

section \<open>Requests and answers\<close>

datatype request =
    GetHealth
  | GetTopology
  | GetSnapshots "int option"
  | GetSnapshot int
  | GetAreas
  | GetArea string
  | GetAreaEntities string
  | GetEntities "string option" "bool option" "string option" "int option"
  | GetEntityEvents string "int option" "int option"
  | GetEvents "int option" "int option" "string option" "string option" "int option" "string option"
  | GetPrivacy
  | UpdatePrivacy privacy_payload
  | GetRooms
  | GetRoom string
  | GetEntitiesPage
  | GetTimeline
  | GetSettings

fun method_of :: "request \<Rightarrow> meth" where
  "method_of (UpdatePrivacy _) = POST"
| "method_of _ = GET"

fun path_of :: "request \<Rightarrow> string" where
  "path_of GetHealth = ''/api/health''"
| "path_of GetTopology = ''/api/v1/topology''"
| "path_of (GetSnapshots _) = ''/api/v1/topology/snapshots''"
| "path_of (GetSnapshot _) = ''/api/v1/topology/snapshots/{sid}''"
| "path_of GetAreas = ''/api/v1/areas''"
| "path_of (GetArea _) = ''/api/v1/areas/{area_id}''"
| "path_of (GetAreaEntities _) = ''/api/v1/areas/{area_id}/entities''"
| "path_of (GetEntities _ _ _ _) = ''/api/v1/entities''"
| "path_of (GetEntityEvents _ _ _) = ''/api/v1/entities/{entity_id}/events''"
| "path_of (GetEvents _ _ _ _ _ _) = ''/api/v1/events''"
| "path_of GetPrivacy = ''/api/v1/settings/privacy''"
| "path_of (UpdatePrivacy _) = ''/api/v1/settings/privacy''"
| "path_of GetRooms = ''/''"
| "path_of (GetRoom _) = ''/room/{area_id}''"
| "path_of GetEntitiesPage = ''/entities''"
| "path_of GetTimeline = ''/timeline''"
| "path_of GetSettings = ''/settings''"

datatype answer =
    HealthReport "string \<times> int + health_report"
  | Topology topology_out
  | SnapshotList "snapshot_item list"
  | SnapshotDetail "snapshot_item \<times> json"
  | AreaList "area_out list"
  | AreaDetail area_detail_out
  | AreaEntities "(entity_brief \<times> int) list"
  | EntityList "entity_out list"
  | EntityEvents "entity_event_out list"
  | EventsPage events_page
  | PrivacyView privacy_view
  | RoomsPage "room_out list page"
  | RoomPage "(area_row \<times> entity_row list \<times> event_row list) page"
  | EntitiesPage "entity_row list page"
  | TimelinePage "event_row list page"
  | SettingsPage "string list page"

section \<open>Query parameters\<close>

text \<open>\<open>Query(default, ge=1, le=upper)\<close>; a value out of bounds is a validation error, whose body has no \<open>error\<close>.\<close>

definition query_limit :: "int \<Rightarrow> int \<Rightarrow> int option \<Rightarrow> int http" where
  "query_limit dflt upper q =
     (case q of
        None \<Rightarrow> Inr dflt
      | Some n \<Rightarrow> if 1 \<le> n \<and> n \<le> upper then Inr n else Inl (HTTPException 422 []))"

definition with_limit :: "int \<Rightarrow> int \<Rightarrow> int option \<Rightarrow> (int \<Rightarrow> answer http) \<Rightarrow> answer http" where
  "with_limit dflt upper q handler =
     (case query_limit dflt upper q of Inl e \<Rightarrow> Inl e | Inr limit \<Rightarrow> handler limit)"

section \<open>The handlers\<close>

text \<open>The part of \<open>AppState\<close> that handlers read and change.\<close>

record app_state =
  as_db :: db
  as_privacy :: privacy_state
  as_health :: health

text \<open>
  What each router of \<open>web/routes\<close> does with a request, if the route is one of its own. \<open>now1\<close> and \<open>now2\<close> are the clock
  readings of the handler. The health report pops the deque it reads, and the update of the settings writes the file.
\<close>

definition health_handlers ::
  "int \<Rightarrow> request \<Rightarrow> app_state option \<Rightarrow> (answer http \<times> app_state option) option" where
  "health_handlers now1 req state =
     (case req of
        GetHealth \<Rightarrow>
          (case health_route now1 (map_option as_health state) of
             (report, None) \<Rightarrow> Some (Inr (HealthReport report), state)
           | (report, Some h) \<Rightarrow> Some (Inr (HealthReport report), map_option (\<lambda>s. s\<lparr>as_health := h\<rparr>) state))
      | _ \<Rightarrow> None)"

definition topology_handlers :: "request \<Rightarrow> db option \<Rightarrow> answer http option" where
  "topology_handlers req state =
     (case req of
        GetTopology \<Rightarrow> Some (map_sum (\<lambda>x. x) Topology (current_topology state))
      | GetSnapshots limit \<Rightarrow> Some (with_limit 50 200 limit (\<lambda>n. Inr (SnapshotList (list_snapshots n state))))
      | GetSnapshot sid \<Rightarrow> Some (map_sum (\<lambda>x. x) SnapshotDetail (snapshot_detail sid state))
      | _ \<Rightarrow> None)"

definition areas_handlers :: "int \<Rightarrow> int \<Rightarrow> request \<Rightarrow> db option \<Rightarrow> answer http option" where
  "areas_handlers now1 now2 req state =
     (case req of
        GetAreas \<Rightarrow> Some (Inr (AreaList (areas_route now1 now2 state)))
      | GetArea area_id \<Rightarrow> Some (map_sum (\<lambda>x. x) AreaDetail (area_detail area_id state))
      | GetAreaEntities area_id \<Rightarrow> Some (Inr (AreaEntities (area_entities area_id state)))
      | _ \<Rightarrow> None)"

definition entities_handlers :: "request \<Rightarrow> db option \<Rightarrow> answer http option" where
  "entities_handlers req state =
     (case req of
        GetEntities area_id orphan device_class limit \<Rightarrow>
          Some (with_limit 100 1000 limit (\<lambda>n. Inr (EntityList
            (entities_route area_id (case orphan of None \<Rightarrow> False | Some b \<Rightarrow> b) device_class n state))))
      | GetEntityEvents entity_id limit cursor \<Rightarrow>
          Some (with_limit 100 1000 limit (\<lambda>n. map_sum (\<lambda>x. x) EntityEvents (entity_events entity_id n cursor state)))
      | _ \<Rightarrow> None)"

definition events_handlers :: "request \<Rightarrow> db option \<Rightarrow> answer http option" where
  "events_handlers req state =
     (case req of
        GetEvents since until area_id entity_id limit cursor \<Rightarrow>
          Some (with_limit 100 1000 limit (\<lambda>n. map_sum (\<lambda>x. x) EventsPage
            (events_route since until area_id entity_id n cursor state)))
      | _ \<Rightarrow> None)"

definition settings_handlers ::
  "(string \<Rightarrow> table option) \<Rightarrow> (table \<Rightarrow> string) \<Rightarrow> (string \<Rightarrow> (string \<Rightarrow> bool) option)
    \<Rightarrow> request \<Rightarrow> app_state option \<Rightarrow> (answer http \<times> app_state option) option" where
  "settings_handlers parse render compile req state =
     (case req of
        GetPrivacy \<Rightarrow> Some (Inr (PrivacyView (get_privacy (map_option as_privacy state))), state)
      | UpdatePrivacy payload \<Rightarrow>
          (case post_privacy parse render compile payload (map_option as_privacy state) of
             (r, None) \<Rightarrow> Some (map_sum (\<lambda>x. x) PrivacyView r, state)
           | (r, Some p) \<Rightarrow> Some (map_sum (\<lambda>x. x) PrivacyView r, map_option (\<lambda>s. s\<lparr>as_privacy := p\<rparr>) state))
      | _ \<Rightarrow> None)"

definition pages_handlers ::
  "int \<Rightarrow> int \<Rightarrow> request \<Rightarrow> db option \<Rightarrow> privacy_state option \<Rightarrow> answer http option" where
  "pages_handlers now1 now2 req state settings =
     (case req of
        GetRooms \<Rightarrow> Some (Inr (RoomsPage (rooms_page now1 now2 state)))
      | GetRoom area_id \<Rightarrow> Some (Inr (RoomPage (room_page area_id state)))
      | GetEntitiesPage \<Rightarrow> Some (Inr (EntitiesPage (entities_page state)))
      | GetTimeline \<Rightarrow> Some (Inr (TimelinePage (timeline_page state)))
      | GetSettings \<Rightarrow> Some (Inr (SettingsPage (Render ''settings.html'' (settings_page settings))))
      | _ \<Rightarrow> None)"

text \<open>The routers in the order of \<open>create_app\<close>.\<close>

definition reading :: "app_state option \<Rightarrow> answer http option \<Rightarrow> (answer http \<times> app_state option) option" where
  "reading state h = map_option (\<lambda>a. (a, state)) h"

definition respond ::
  "(string \<Rightarrow> table option) \<Rightarrow> (table \<Rightarrow> string) \<Rightarrow> (string \<Rightarrow> (string \<Rightarrow> bool) option)
    \<Rightarrow> int \<Rightarrow> int \<Rightarrow> request \<Rightarrow> app_state option \<Rightarrow> answer http \<times> app_state option" where
  "respond parse render compile now1 now2 req state =
     (let store = map_option as_db state; settings = map_option as_privacy state in
      case List.map_filter (\<lambda>h. h)
        [health_handlers now1 req state, reading state (topology_handlers req store),
         reading state (areas_handlers now1 now2 req store), reading state (entities_handlers req store),
         reading state (events_handlers req store), settings_handlers parse render compile req state,
         reading state (pages_handlers now1 now2 req store settings)] of
        [] \<Rightarrow> (Inl (HTTPException 404 ''Not Found''), state)
      | a # _ \<Rightarrow> a)"

lemmas respond_defs = respond_def health_handlers_def topology_handlers_def areas_handlers_def entities_handlers_def
  events_handlers_def settings_handlers_def pages_handlers_def reading_def Let_def List.map_filter_simps

text \<open>A route is found by method and path, then its dependency runs, then the handler.\<close>

definition serve ::
  "(string \<Rightarrow> table option) \<Rightarrow> (table \<Rightarrow> string) \<Rightarrow> (string \<Rightarrow> (string \<Rightarrow> bool) option)
    \<Rightarrow> bool \<Rightarrow> string option \<Rightarrow> creds option \<Rightarrow> int \<Rightarrow> int \<Rightarrow> request \<Rightarrow> app_state option
    \<Rightarrow> answer http \<times> app_state option" where
  "serve parse render compile require_auth token_file creds now1 now2 req state =
     (case find (\<lambda>r. rt_method r = method_of req \<and> rt_path r = path_of req) (create_app (state \<noteq> None) True True) of
        None \<Rightarrow> (Inl (HTTPException 404 ''Not Found''), state)
      | Some r \<Rightarrow>
          (case gate require_auth token_file creds r of
             Inl e \<Rightarrow> (Inl e, state)
           | Inr _ \<Rightarrow> respond parse render compile now1 now2 req state))"

text \<open>Every request has its route, and all routes but that of the health report want the admin.\<close>

lemma request_route:
  "\<exists>r. find (\<lambda>r. rt_method r = method_of req \<and> rt_path r = path_of req) (create_app True True True) = Some r \<and>
     (rt_admin r \<longleftrightarrow> req \<noteq> GetHealth)"
  by (cases req) (simp_all add: create_app_def router_defs)

lemma serve_running:
  "serve parse render compile require_auth token_file creds now1 now2 req (Some s) =
     (if req = GetHealth then respond parse render compile now1 now2 req (Some s)
      else case require_admin require_auth token_file creds of
        Inl e \<Rightarrow> (Inl e, Some s)
      | Inr _ \<Rightarrow> respond parse render compile now1 now2 req (Some s))"
  using request_route [of req] by (auto simp: serve_def gate_def)

section \<open>How much an answer holds\<close>

text \<open>The rows a request allows, and those of an answer.\<close>

definition or_else :: "int option \<Rightarrow> int \<Rightarrow> int" where
  "or_else q n = (case q of None \<Rightarrow> n | Some m \<Rightarrow> m)"

definition allowed :: "request \<Rightarrow> (int \<times> int) option" where
  "allowed req =
     (case req of
        GetSnapshots q \<Rightarrow> Some (or_else q 50, 200)
      | GetEntities _ _ _ q \<Rightarrow> Some (or_else q 100, 1000)
      | GetEntityEvents _ q _ \<Rightarrow> Some (or_else q 100, 1000)
      | GetEvents _ _ _ _ q _ \<Rightarrow> Some (or_else q 100, 1000)
      | GetArea _ \<Rightarrow> Some (1000, 1000)
      | GetAreaEntities _ \<Rightarrow> Some (1000, 1000)
      | GetRoom _ \<Rightarrow> Some (1000, 1000)
      | GetEntitiesPage \<Rightarrow> Some (500, 1000)
      | GetTimeline \<Rightarrow> Some (200, 1000)
      | _ \<Rightarrow> None)"

fun rows_of :: "answer \<Rightarrow> nat" where
  "rows_of (SnapshotList xs) = length xs"
| "rows_of (AreaDetail d) = max (length (ad_entities d)) (length (ad_recent_events d))"
| "rows_of (AreaEntities xs) = length xs"
| "rows_of (EntityList xs) = length xs"
| "rows_of (EntityEvents xs) = length xs"
| "rows_of (EventsPage p) = length (vp_events p)"
| "rows_of (RoomPage (Render _ (a, es, evs))) = max (length es) (length evs)"
| "rows_of (EntitiesPage (Render _ xs)) = length xs"
| "rows_of (TimelinePage (Render _ xs)) = length xs"
| "rows_of _ = 0"

lemma length_limited:
  "0 \<le> n \<Longrightarrow> nat n \<le> m \<Longrightarrow> length (sql_limit n xs) \<le> m"
  "0 \<le> n \<Longrightarrow> nat n \<le> m \<Longrightarrow> length (list_entities a b c n d) \<le> m"
  "0 \<le> n \<Longrightarrow> nat n \<le> m \<Longrightarrow> length (list_events e a' s u c' n d) \<le> m"
  "0 \<le> n \<Longrightarrow> int (length (list_entities a b c n d)) \<le> n"
  "0 \<le> n \<Longrightarrow> int (length (list_events e a' s u c' n d)) \<le> n"
  by (simp_all add: list_entities_def list_events_def sql_limit_def)

lemma respond_rows:
  assumes "respond parse render compile now1 now2 req (Some s) = (Inr a, s')" and "allowed req = Some (n, upper)"
  shows "1 \<le> n \<and> n \<le> upper \<and> int (rows_of a) \<le> n"
  using assms
  by (cases req)
    (auto simp: respond_defs allowed_def or_else_def with_limit_def query_limit_def list_snapshots_def length_sql_limit
      area_detail_def area_entities_def entities_route_def entity_events_def events_route_def room_page_def
      entities_page_def timeline_page_def length_limited map_sum_def
      split: option.splits if_splits sum.splits)

lemma refused_settings: "fst (post_privacy parse render compile payload (Some p)) \<noteq> Inl (HTTPException 422 [])"
  by (auto simp: post_privacy_def update_privacy_def split: sum.splits file_text.splits option.splits)

lemma unprocessable_limit:
  "fst (respond parse render compile now1 now2 req (Some s)) = Inl (HTTPException 422 []) \<longleftrightarrow>
     (\<exists>n upper. allowed req = Some (n, upper) \<and> \<not> (1 \<le> n \<and> n \<le> upper))"
proof (cases req)
  case GetHealth
  then show ?thesis by (simp add: respond_defs allowed_def split: prod.split option.split)
next
  case (UpdatePrivacy payload)
  then show ?thesis using refused_settings [of parse render compile payload "as_privacy s"]
    by (auto simp: respond_defs allowed_def map_sum_def split: prod.splits option.splits sum.splits)
qed (auto simp: respond_defs allowed_def or_else_def with_limit_def query_limit_def area_detail_def entity_events_def
  events_route_def current_topology_def snapshot_detail_def map_sum_def split: option.splits if_splits sum.splits)


end
