(* ===== verification/NoTrace.thy ===== *)
theory NoTrace
  imports Unwinding Requests Process
begin

text \<open>
  What a hidden entity leaves behind. \<open>secret\<close> is a message whose state change the patterns in force hide; \<open>seen\<close> is the running application
  without its archive, streams and metrics and without the table \<open>privacy_drops\<close>, where the drops are counted.
  Every operation commutes with forgetting that table, which gives the laws of \<open>Unwinding\<close>: hidden
  state changes leave no trace in what the application stores, shows and does later.
\<close>

section \<open>Forgetting the count of the drops\<close>

definition forget :: "db \<Rightarrow> db" where
  "forget d = d\<lparr>db_drops := []\<rparr>"

definition blind :: "(db \<Rightarrow> 'a \<times> db) \<Rightarrow> bool" where
  "blind f \<longleftrightarrow> (\<forall>d. f (forget d) = (fst (f d), forget (snd (f d))))"

named_theorems blind \<open>operations that commute with forgetting\<close>

lemma forget_fields [simp]:
  "db_areas (forget d) = db_areas d" "db_devices (forget d) = db_devices d" "db_entities (forget d) = db_entities d"
  "db_events (forget d) = db_events d" "db_event_seq (forget d) = db_event_seq d" "db_counters (forget d) = db_counters d"
  "db_meta (forget d) = db_meta d" "db_snapshots (forget d) = db_snapshots d" "db_snap_seq (forget d) = db_snap_seq d"
  "db_faults (forget d) = db_faults d" "db_drops (forget d) = []"
  by (simp_all add: forget_def)

lemma forget_forget [simp]: "forget (d\<lparr>db_drops := x\<rparr>) = forget d"
  by (simp add: forget_def)

lemma blindD: "blind f \<Longrightarrow> f (forget d) = (fst (f d), forget (snd (f d)))"
  by (simp add: blind_def)

lemma connect_blind:
  assumes "blind body"
  shows "blind (connect body)"
proof -
  have f: "(forget d)\<lparr>db_faults := bs\<rparr> = forget (d\<lparr>db_faults := bs\<rparr>)" for d bs
    by (cases d) (simp add: forget_def)
  show ?thesis unfolding blind_def connect_def Let_def
    by (simp add: f blindD [OF assms] del: faults_same split: prod.split sum.split)
qed

lemma blind_return [blind]: "blind (\<lambda>d. (r, d))"
  by (simp add: blind_def)

lemma blind_if [blind]: "blind f \<Longrightarrow> blind g \<Longrightarrow> blind (\<lambda>d. if P then f d else g d)"
  by (simp add: blind_def)

lemma blind_bind:
  assumes "blind f" and "\<And>a. blind (g a)"
  shows "blind (\<lambda>d. case f d of (Inl e, d') \<Rightarrow> (Inl e, d') | (Inr a, d') \<Rightarrow> g a d')"
  by (simp add: blind_def blindD [OF assms(1)] blindD [OF assms(2)] split: prod.split sum.split)

lemma for_each_blind: "(\<And>x. blind (f x)) \<Longrightarrow> blind (for_each f xs)"
proof (induction xs)
  case (Cons x xs)
  from blind_bind [OF Cons.prems, of "\<lambda>_. for_each f xs" x] Cons show ?case
    by (simp add: blind_def)
qed (simp add: blind_def)

section \<open>The operations are blind\<close>

lemma insert_events_blind [blind]: "blind (insert_events rows)"
  by (auto simp: insert_events_def blind_def forget_def)

lemma increment_counter_blind [blind]: "blind (increment_counter a h n)"
  by (auto simp: increment_counter_def blind_def forget_def)

lemma bump_blind [blind]: "blind (bump_entity_event_counts eid ts)"
  by (auto simp: bump_entity_event_counts_def blind_def forget_def)

lemma upsert_devices_blind [blind]: "blind (upsert_devices rows)"
  by (auto simp: upsert_devices_def blind_def forget_def)

lemma upsert_entities_blind [blind]: "blind (upsert_entities rows)"
  by (auto simp: upsert_entities_def blind_def forget_def)

lemma upsert_areas_blind [blind]: "blind (upsert_areas rows)"
proof -
  have "blind (\<lambda>d. if list_ex (\<lambda>r. ar_name r = None) rows then (Inl (IntegrityConstraint ''areas.name''), d)
      else (Inr (), d\<lparr>db_areas := fold (tbl_upsert ar_area_id area_update) rows (db_areas d)\<rparr>))"
    by (simp add: blind_def forget_def)
  from connect_blind [OF this] show ?thesis by (simp add: upsert_areas_def [abs_def] blind)
qed

lemma insert_if_changed_blind [blind]: "blind (insert_if_changed sha p ts diff)"
  unfolding insert_if_changed_def [abs_def] Let_def
  by (rule connect_blind) (simp add: blind_def forget_def split: option.split)

lemma upsert_all_blind [blind]: "blind (upsert_all p sid ts)"
  by (simp add: blind_def upsert_all_def blindD [OF upsert_areas_blind] blindD [OF upsert_devices_blind]
    blindD [OF upsert_entities_blind] case_prod_unfold split: sum.split)

lemma increments_blind: "blind (for_each (\<lambda>((aid, bucket), n). increment_counter aid bucket n) xs)"
  by (rule for_each_blind) (auto simp: blind split: prod.split)

lemma bumps_blind: "blind (for_each (\<lambda>(eid, last_ts). bump_entity_event_counts eid last_ts) xs)"
  by (rule for_each_blind) (auto simp: blind split: prod.split)

lemma write_batch_blind [blind]: "blind (write_batch w idx buf)"
  by (simp add: blind_def write_batch_def commit_scan_eq blindD [OF insert_events_blind]
    blindD [OF increments_blind, unfolded case_prod_unfold] blindD [OF bumps_blind, unfolded case_prod_unfold]
    case_prod_unfold split: sum.split)

section \<open>Pipeline, index and tables\<close>

definition forget_sys :: "isys \<Rightarrow> isys" where
  "forget_sys s = s\<lparr>is_db := forget (is_db s)\<rparr>"

lemma forget_sys_fields [simp]:
  "is_pipe (forget_sys s) = is_pipe s" "is_idx (forget_sys s) = is_idx s" "is_db (forget_sys s) = forget (is_db s)"
  by (simp_all add: forget_sys_def)

lemma commit_blind:
  "commit_locked ck idx (pl, forget d) =
     (case commit_locked ck idx (pl, d) of (r, pl', d') \<Rightarrow> (r, pl', forget d'))"
  by (simp add: commit_locked_def blindD [OF write_batch_blind] split: prod.split sum.split)

lemma submit_blind:
  assumes "\<not> hidden pl ev"
  shows "submit ck idx ev (pl, forget d) = (case submit ck idx ev (pl, d) of (r, pl', d') \<Rightarrow> (r, pl', forget d'))"
  using assms by (simp add: submit_def hidden_def Let_def commit_blind)

lemma tick_blind:
  "periodic_tick ck idx (pl, forget d) = (case periodic_tick ck idx (pl, d) of (pl', d') \<Rightarrow> (pl', forget d'))"
  by (simp add: periodic_tick_def commit_blind split: prod.split sum.split option.split)

lemma topology_blind:
  "apply_topology sha p ts (idx, forget d) =
     (case apply_topology sha p ts (idx, d) of (r, idx', d') \<Rightarrow> (r, idx', forget d'))"
  by (simp add: apply_topology_def blindD [OF insert_if_changed_blind] blindD [OF upsert_all_blind]
    split: prod.split sum.split)

lemma stop_blind:
  "stop ck idx (pl, forget d) = (case stop ck idx (pl, d) of (r, pl', d') \<Rightarrow> (r, pl', forget d'))"
  by (simp add: stop_def flush_def commit_blind split: flush_task.split)

lemma drop_blind:
  "fst (increment_privacy_drop h n (forget d)) = fst (increment_privacy_drop h n d)"
  "forget (snd (increment_privacy_drop h n (forget d))) = forget (snd (increment_privacy_drop h n d))"
  by (simp_all add: increment_privacy_drop_def forget_def)

text \<open>No operation of the pipeline learns from the table; a submission that is dropped is the one that writes it.\<close>

lemma istep_blind:
  "fst (istep sha op (forget_sys s)) = fst (istep sha op s)"
  "forget_sys (snd (istep sha op (forget_sys s))) = forget_sys (snd (istep sha op s))"
proof -
  have "fst (istep sha op (forget_sys s)) = fst (istep sha op s) \<and>
    forget_sys (snd (istep sha op (forget_sys s))) = forget_sys (snd (istep sha op s))"
  proof (cases op)
    case (Submit ck ev)
    show ?thesis
    proof (cases "hidden (is_pipe s) ev")
      case True
      then show ?thesis using drop_blind [of "now_bucket ck None" 1 "is_db s"]
        by (simp add: Submit istep_def submit_hidden forget_sys_def case_prod_unfold)
    next
      case False
      then show ?thesis by (simp add: Submit istep_def submit_blind forget_sys_def split: prod.split)
    qed
  qed (simp_all add: istep_def flush_def commit_blind tick_blind stop_blind topology_blind forget_sys_def
    split: prod.split sum.split)
  then show "fst (istep sha op (forget_sys s)) = fst (istep sha op s)"
    "forget_sys (snd (istep sha op (forget_sys s))) = forget_sys (snd (istep sha op s))" by simp_all
qed

lemma istep_same:
  assumes "forget_sys x = forget_sys y"
  shows "fst (istep sha op x) = fst (istep sha op y)"
    and "forget_sys (snd (istep sha op x)) = forget_sys (snd (istep sha op y))"
  using istep_blind [of sha op x] istep_blind [of sha op y] assms by simp_all

lemma submit_hidden_forgotten:
  assumes "hidden (is_pipe s) ev" and "healthy (is_db s)"
  shows "forget_sys (snd (istep sha (Submit ck ev) s)) = forget_sys s"
proof -
  have "tl (db_faults (is_db s)) = db_faults (is_db s)" using assms(2) by (simp add: healthy_def)
  with submit_matched [of s ev sha ck] assms(1) show ?thesis
    by (auto simp: hidden_def forget_sys_def forget_def)
qed

section \<open>The running application\<close>

definition secret :: "site \<Rightarrow> site_op \<Rightarrow> bool" where
  "secret s op =
     (case op of
        Message w m \<Rightarrow>
          (case read_message (wk_now w) m of
             Inr (StateChanged ev) \<Rightarrow> matches (in_force s) (he_entity_id ev)
           | _ \<Rightarrow> False)
      | _ \<Rightarrow> False)"

definition seen :: "site \<Rightarrow> isys \<times> privacy_state" where
  "seen s = (forget_sys (ap_sys (si_app s)), si_privacy s)"

text \<open>Operations take systems that differ in the drops only to such systems.\<close>

lemma same_pipe: "forget_sys x = forget_sys y \<Longrightarrow> is_pipe x = is_pipe y"
  by (metis forget_sys_fields(1))

lemma refetch_same:
  "forget_sys (ap_sys a) = forget_sys (ap_sys b) \<Longrightarrow>
     forget_sys (ap_sys (snd (refetch sha w a))) = forget_sys (ap_sys (snd (refetch sha w b)))"
  by (auto simp: refetch_sys intro: istep_same(2) split: option.split sum.split)

lemma secret_seen:
  assumes "healthy (site_db s)" and "secret s op"
  shows "seen (site_step sha parse render co env compile op s) = seen s"
proof -
  from assms(2) obtain w m ev where op: "op = Message w m" "read_message (wk_now w) m = Inr (StateChanged ev)"
    and h: "hidden (is_pipe (ap_sys (si_app s))) ev"
    by (auto simp: secret_def hidden_def split: site_op.splits sum.splits ws_message.splits)
  from submit_hidden_forgotten [OF h assms(1)] show ?thesis
    by (simp add: seen_def op site_step_def on_ws_event_def on_state_changed_sys)
qed

lemma message_same:
  "forget_sys (ap_sys a) = forget_sys (ap_sys b) \<Longrightarrow>
     forget_sys (ap_sys (snd (on_ws_event sha w m a))) = forget_sys (ap_sys (snd (on_ws_event sha w m b)))"
  by (auto simp: message_sys intro: istep_same(2) refetch_same split: sum.split ws_message.split)

lemma seenI: "forget_sys (ap_sys (si_app s)) = forget_sys (ap_sys (si_app t)) \<Longrightarrow> si_privacy s = si_privacy t \<Longrightarrow> seen s = seen t"
  by (simp add: seen_def)

lemma seenD:
  assumes "seen s = seen t"
  shows "forget_sys (ap_sys (si_app s)) = forget_sys (ap_sys (si_app t))" and "si_privacy s = si_privacy t"
  using assms by (simp_all add: seen_def)

lemma install_seen: "seen s = seen t \<Longrightarrow> seen (install p s) = seen (install p t)"
  using istep_same(2) [of "ap_sys (si_app s)" "ap_sys (si_app t)" "\<lambda>x. x" "SetHide (ps_matcher p)"]
  by (simp add: seen_def install_def istep_def)

lemma site_step_seen:
  assumes "seen s = seen t"
  shows "seen (site_step sha parse render co env compile op s) = seen (site_step sha parse render co env compile op t)"
proof (cases op)
  case FileChange
  with install_seen [OF assms] seenD(2) [OF assms] show ?thesis by (simp add: site_step_def)
qed (use seenD [OF assms] in \<open>auto simp: site_step_def initial_sync_sys
  intro!: seenI istep_same(2) refetch_same message_same split: prod.split option.split\<close>)

lemma late_turn_seen:
  assumes "seen s = seen t"
  shows "seen (late_turn sha parse co env compile b l s) = seen (late_turn sha parse co env compile b l t)"
proof (cases l)
  case LateReload
  with install_seen [OF assms] assms seenD(2) [OF assms] show ?thesis by (simp add: late_turn_def)
qed (use seenD [OF assms] in \<open>auto simp: late_turn_def initial_sync_sys intro!: seenI refetch_same message_same\<close>)

lemma late_turns_seen:
  "seen s = seen t \<Longrightarrow> seen (fold (late_turn sha parse co env compile b) late s) =
     seen (fold (late_turn sha parse co env compile b) late t)"
proof (induction late arbitrary: s t)
  case (Cons l late)
  from Cons.IH [OF late_turn_seen [OF Cons.prems]] show ?case by simp
qed simp

lemma gather_seen:
  assumes "seen (pr_site p) = seen (pr_site q)"
  shows "seen (pr_site (gather_tasks sha parse co env compile b late p)) = seen (pr_site (gather_tasks sha parse co env compile b late q))"
  using late_turns_seen [OF assms, of sha parse co env compile b late] by (simp add: gather_tasks_def)

interpretation hiding: unwinding "site_step sha parse render co env compile" secret seen "\<lambda>s. healthy (site_db s)"
  for sha parse render co env compile
  by unfold_locales (erule site_step_healthy, erule (1) secret_seen, erule site_step_seen)

section \<open>What can be observed\<close>

lemma select_forget [simp]:
  "list_areas (forget d) = list_areas d" "get_counters_24h h (forget d) = get_counters_24h h d"
  "list_entities a o' c n (forget d) = list_entities a o' c n d"
  "list_events e a s u c' n (forget d) = list_events e a s u c' n d"
  "get_current (forget d) = get_current d"
  by (simp_all add: list_areas_def get_counters_24h_def list_entities_def list_events_def get_current_def)

text \<open>Of the routes only the health report reads the metrics, which count hidden changes too.\<close>

lemma respond_forget:
  assumes "req \<noteq> GetHealth"
  shows "fst (respond parse render compile now1 now2 req (Some \<lparr>as_db = forget d, as_privacy = p, as_health = h\<rparr>)) =
    fst (respond parse render compile now1 now2 req (Some \<lparr>as_db = d, as_privacy = p, as_health = h'\<rparr>))"
  using assms
  by (cases req) (simp_all add: respond_defs current_topology_def list_snapshots_def snapshot_detail_def areas_route_def
    area_detail_def area_entities_def entities_route_def entity_events_def events_route_def rooms_page_def room_page_def
    entities_page_def timeline_page_def cong: if_cong option.case_cong split: prod.split option.split)

lemma serve_same:
  assumes "forget d = forget d'" and "req \<noteq> GetHealth"
  shows "fst (serve parse render compile auth tf creds now1 now2 req (Some \<lparr>as_db = d, as_privacy = p, as_health = h\<rparr>)) =
    fst (serve parse render compile auth tf creds now1 now2 req (Some \<lparr>as_db = d', as_privacy = p, as_health = h'\<rparr>))"
proof -
  have "fst (respond parse render compile now1 now2 req (Some \<lparr>as_db = d, as_privacy = p, as_health = h\<rparr>)) =
    fst (respond parse render compile now1 now2 req (Some \<lparr>as_db = d', as_privacy = p, as_health = h'\<rparr>))"
    by (metis respond_forget assms)
  then show ?thesis using assms(2) by (simp add: serve_running split: sum.split)
qed

lemma forget_eqD: "forget d = forget d' \<Longrightarrow> \<exists>drops. d = d'\<lparr>db_drops := drops\<rparr>"
  by (cases d; cases d') (auto simp: forget_def)

lemma finally_seen:
  assumes "seen (pr_site p) = seen (pr_site q)"
  shows "fst (finally_block sha ck p) = fst (finally_block sha ck q)"
    and "seen (pr_site (snd (finally_block sha ck p))) = seen (pr_site (snd (finally_block sha ck q)))"
  using istep_same [OF seenD(1) [OF assms], of sha "Stop ck"] seenD(2) [OF assms]
  by (auto simp: finally_block_def shutdown_def seen_def split: prod.splits sum.splits)

lemma serve_and_stop_seen:
  assumes "seen (pr_site p) = seen (pr_site q)"
  shows "fst (serve_and_stop sha parse co env compile ck served late p) = fst (serve_and_stop sha parse co env compile ck served late q)"
    and "seen (pr_site (snd (serve_and_stop sha parse co env compile ck served late p))) =
      seen (pr_site (snd (serve_and_stop sha parse co env compile ck served late q)))"
  using finally_seen(1) [OF assms, of sha ck] gather_seen [OF finally_seen(2) [OF assms, of sha ck]] seenD(2) [OF assms]
    finally_seen(2) [OF assms, of sha ck]
  by (auto simp: serve_and_stop_def Let_def split: prod.split sum.split)

lemma seen_parts:
  assumes "seen s = seen t"
  shows "is_pipe (ap_sys (si_app s)) = is_pipe (ap_sys (si_app t))" and "is_idx (ap_sys (si_app s)) = is_idx (ap_sys (si_app t))"
    and "forget (site_db s) = forget (site_db t)"
  using arg_cong [OF seenD(1) [OF assms], of is_pipe] arg_cong [OF seenD(1) [OF assms], of is_idx]
    arg_cong [OF seenD(1) [OF assms], of is_db] by simp_all

text \<open>
  C7. Hidden state changes leave no trace in what is stored and shown: on a database all of whose connections succeed,
  run a process once with all its messages, syncs, flushes, settings updates, edits and reloads, and once without those
  messages whose state change the patterns in force hide. Both end with the same patterns and the same pipeline, index
  and settings, every HTTP request but that for the health report is answered the same in both, and both shut down the
  same way and leave the same database but for the counts in \<open>privacy_drops\<close>. Not covered are the health report, whose
  event rate counts hidden changes, the archive and the web socket's event stream, which get them.
\<close>

theorem hidden_changes_leave_no_trace:
  assumes "healthy (site_db (pr_site p))"
  shows "let q = steps sha parse render co env compile ops p;
       q' = steps sha parse render co env compile (purge (site_step sha parse render co env compile) secret ops (pr_site p)) p;
       sys = (\<lambda>q. ap_sys (si_app (pr_site q)));
       shown = (\<lambda>q. Some \<lparr>as_db = site_db (pr_site q), as_privacy = si_privacy (pr_site q),
         as_health = ap_health (si_app (pr_site q))\<rparr>);
       end = serve_and_stop sha parse co env compile ck served late
    in is_pipe (sys q) = is_pipe (sys q') \<and> is_idx (sys q) = is_idx (sys q') \<and>
       si_privacy (pr_site q) = si_privacy (pr_site q') \<and>
       (\<forall>auth token_file creds now1 now2 req.
          req = GetHealth \<or>
          fst (serve parse render compile auth token_file creds now1 now2 req (shown q)) =
            fst (serve parse render compile auth token_file creds now1 now2 req (shown q'))) \<and>
       fst (end q) = fst (end q') \<and>
       (\<exists>drops. site_db (pr_site (snd (end q))) = (site_db (pr_site (snd (end q'))))\<lparr>db_drops := drops\<rparr>)"
proof -
  define q q' where "q = steps sha parse render co env compile ops p"
    and "q' = steps sha parse render co env compile
      (purge (site_step sha parse render co env compile) secret ops (pr_site p)) p"
  have x: "seen (pr_site q) = seen (pr_site q')"
    using hiding.purged [OF assms, of sha parse render co env compile ops] by (simp add: q_def q'_def steps_def)
  note last = serve_and_stop_seen [OF x, of sha parse co env compile ck served late]
  show ?thesis
    using seen_parts [OF x] seenD(2) [OF x] serve_same [OF seen_parts(3) [OF x]] last(1) forget_eqD [OF seen_parts(3) [OF last(2)]]
    unfolding Let_def q_def [symmetric] q'_def [symmetric] by simp blast
qed

text \<open>The door and the lamp of the example in \<open>EndToEnd\<close>, with and without the door.\<close>

definition door_process :: process where
  "door_process = \<lparr>pr_site = \<lparr>si_app = door_app, si_privacy = example_state\<rparr>, pr_ws = new_ws_client ''t'' 1 60 None,
     pr_ws_url = ''ws://ha'', pr_printed = [], pr_listen = (''0.0.0.0'', 8099), pr_require_auth = True\<rparr>"

abbreviation lamp_message :: site_op where
  "lamp_message \<equiv> Message door_wake (change_message ''light.a'')"

abbreviation door_message :: site_op where
  "door_message \<equiv> Message door_wake (change_message ''lock.door'')"

lemma door_is_secret:
  "in_force s = \<lparr>hm_compiled = [\<lambda>e. e = ''lock.door'']\<rparr> \<Longrightarrow> secret s door_message \<and> \<not> secret s lamp_message"
  by (simp add: secret_def read_change matches_def row_simps)

lemma door_purged:
  "purge (site_step sha parse render co env compile) secret [door_message, lamp_message] (pr_site door_process) = [lamp_message]"
proof -
  have f: "in_force (pr_site door_process) = \<lparr>hm_compiled = [\<lambda>e. e = ''lock.door'']\<rparr>"
    by (simp add: door_process_def door_app_def new_isys_def new_pipeline_def)
  then have "in_force (site_step sha parse render co env compile door_message (pr_site door_process)) =
      \<lparr>hm_compiled = [\<lambda>e. e = ''lock.door'']\<rparr>"
    by (simp add: site_step_def on_ws_event_hide)
  from door_is_secret [OF f] door_is_secret [OF this] show ?thesis by simp
qed

lemma hidden_changes_leave_no_trace_witness:
  "let run = (\<lambda>ops. steps (\<lambda>x. x) example_parse (\<lambda>_. ''new'') strict example_env example_compile ops door_process);
       state = (\<lambda>q. Some \<lparr>as_db = site_db (pr_site q), as_privacy = si_privacy (pr_site q),
         as_health = ap_health (si_app (pr_site q))\<rparr>);
       timeline = (\<lambda>q. fst (serve example_parse (\<lambda>_. ''new'') example_compile False None None 9 9 GetTimeline (state q)))
   in timeline (run [door_message, lamp_message]) = timeline (run [lamp_message])"
proof -
  have "healthy (site_db (pr_site door_process))" using door_healthy by (simp add: door_process_def)
  from hidden_changes_leave_no_trace [OF this, of "\<lambda>x. x" example_parse "\<lambda>_. ''new''" strict example_env example_compile
      "[door_message, lamp_message]", unfolded door_purged]
  show ?thesis unfolding Let_def by blast
qed

end
