(* ===== verification/Spec2Isabelle.thy ===== *)
theory Spec2Isabelle
  imports Stopping IngestProps TopologyProps History WebProps Routes SchemaVersion Site EndToEnd StreamClient
    WsPaths Process NoTrace
begin

text \<open>
  A verification library for \<open>ai-home-assistant\<close>, a service that listens to Home Assistant, stores what happens in a
  house, and shows it on a small web interface.

  \<^bold>\<open>The program.\<close> One \<open>asyncio\<close> process (\<open>src/ai_ha/main.py\<close>) runs four things side by side. A web socket client
  (\<open>ha_adapter/ws_client.py\<close>) receives events and hands each to a handler in \<open>main.py\<close>; the handler gives a state
  change to the ingest pipeline (\<open>ingest\<close>), to a JSONL archive (\<open>archive\<close>), to the open event streams
  (\<open>web/routes/stream.py\<close>) and to the metrics (\<open>health\<close>), and answers a registry message by fetching the registries
  (\<open>ha_adapter/topology_fetcher.py\<close>) and applying them (\<open>topology\<close>). The pipeline drops events of hidden entities
  (\<open>privacy\<close>), buffers the others and commits them in batches to SQLite (\<open>store\<close>), with a flush task behind
  it. A topology refresh stores a snapshot, updates the registry tables, and rebuilds the entity index the pipeline
  reads. A watcher (\<open>config/watcher.py\<close>) reloads the configuration (\<open>config/loader.py\<close>) when its file changes, and
  FastAPI (\<open>web\<close>) serves the read routes, the settings and the pages. Shared state is the database, the index, the
  pipeline's matcher and buffer, and the settings file.

  \<^bold>\<open>Theories.\<close> Each opens with what it models.

  Shared: \<open>Prelude\<close> (exceptions as values, loops that stop at an exception, dictionaries), \<open>KeyedTable\<close> (a SQLite
  table as rows sorted by key; locale \<open>keyed_rows\<close>, interpreted for the six keyed tables in \<open>Dao\<close>), \<open>Json\<close> (Python's \<open>json\<close>
  and \<open>str\<close> of JSON values, with the round trip of the canonical text), \<open>Regex\<close> (the program's own patterns, by
  derivatives), \<open>PyText\<close> (\<open>strip\<close>, \<open>int\<close>, plain \<open>json.dumps\<close>).

  Store: \<open>Dao\<close> (\<open>store/dao.py\<close>: every row class and method), \<open>Migrations\<close> and \<open>SchemaVersion\<close> (\<open>store/db.py\<close>: opening a
  database over an abstract version number, and over the table \<open>kv_meta\<close> that holds it as text, which refines it).

  Topology: \<open>Topology\<close> (\<open>entity_index.py\<close>, \<open>orphan_detector.py\<close>, the payload), \<open>Snapshots\<close> (\<open>snapshot_store.py\<close>),
  \<open>Orchestrator\<close> (\<open>orchestrator.py\<close>), \<open>TopologyProps\<close>.

  Ingest: \<open>Batching\<close> (what the pipeline promises as a batcher; locale \<open>batch_sink\<close>), \<open>Privacy\<close>
  (\<open>privacy/hide_matcher.py\<close>), \<open>Ingest\<close> (\<open>counters.py\<close>, \<open>pipeline.py\<close>), \<open>IngestSystem\<close> (the pipeline, refreshes and reloads in
  any order on one database; interprets \<open>batch_sink\<close> on the writes of a commit), \<open>IngestProps\<close>. \<open>Tasks\<close> is the same pipeline with
  tasks suspended at every \<open>await\<close>; \<open>Interleaving\<close> carries the log and the counters over to all interleavings, \<open>LockLive\<close>
  shows that the atomic operations are the runs nothing interrupts and that the lock is live, \<open>Stopping\<close> puts a
  call of \<open>stop()\<close> among the tasks.

  Home Assistant: \<open>WsClient\<close> (\<open>ws_client.py\<close>, over a list of connections), \<open>WsProtocol\<close> (the same client as a state
  machine in which the network, the clock and \<open>stop()\<close> move at any moment), \<open>WsPaths\<close> (the first refines the second), \<open>HaAdapter\<close> (\<open>topology_fetcher.py\<close>, \<open>client.py\<close>).

  Configuration and web: \<open>Config\<close> (\<open>config/loader.py\<close>), \<open>Settings\<close> (\<open>config/watcher.py\<close>, \<open>web/routes/settings.py\<close>,
  \<open>on_cfg_change\<close>), \<open>Auth\<close> (\<open>web/auth.py\<close>), \<open>Routes\<close> (\<open>web/app.py\<close>), \<open>WebApi\<close> and \<open>WebProps\<close> (the read
  routes and the data of the pages), \<open>Requests\<close> (every HTTP request from its route, its dependency and the bounds of its
  parameters to the handler), \<open>Stream\<close>
  (\<open>web/routes/stream.py\<close>), \<open>Health\<close> (\<open>health/metrics.py\<close>), \<open>Archive\<close> (\<open>archive/jsonl_writer.py\<close>).

  Composition: \<open>Wiring\<close> and \<open>WiringProps\<close> (\<open>main.py\<close>: handler, first sync, start, shutdown), \<open>Site\<close> (the running
  application with its settings and reloads), \<open>EndToEnd\<close> (from the frames of the socket to the stores, and to a
  shutdown), \<open>History\<close> (what a database remembers whatever fails), \<open>Process\<close> (the process from \<open>main\<close> to its exit code), \<open>ArchiveLines\<close> and
  \<open>StreamClient\<close> (what the archive and the streams write is read back; the handler of a stream). \<open>Unwinding\<close> is noninterference
  for any system of steps (locale \<open>unwinding\<close>); \<open>NoTrace\<close> interprets it on the running application, where the secrets are the
  state changes of hidden entities.

  \<^bold>\<open>What is shown.\<close> The pipeline: every accepted event is stored exactly once and in order while connections hold, and
  at least once whatever fails and however tasks interleave; counters are the counts of the stored events; every waiter
  for the lock is served; a commit as steps is the commit as one operation; a \<open>stop()\<close> that returns has stored what was
  accepted before it, and on a database that answers it returns. The topology: a lookup is what the payload
  says, a payload is stored once, tables and index agree after a refresh. Privacy: what the page lists is what is
  enforced, and a hidden state change leaves no trace: without it the run ends with the same pipeline, index and tables but for
  \<open>privacy_drops\<close>, and every HTTP request but that for the health report is answered the same (archive, streams and metrics do
  get it). The web: the area list counts stored events, the admin routes need the token, answers are bounded. The archive is partitioned by
  day and reads back, the migrations run once, a shutdown stores and closes everything. A process
  that starts on a database that answers ends with exit code 0 and has stored what it took before the shutdown; the code 0 means
  that whichever connections failed; and whatever fails, the database keeps its events, snapshots, sightings and counts and
  gains none that did not happen. The web socket client says its
  handshake in order, hands over exactly what it received, goes on trying when connections fail, and ends after \<open>stop()\<close>. Several properties state what
  the code does where it fails: a commit that stores a batch twice, a flush task that died, a refresh that fails half
  way, two refreshes at once, a returning payload, a failing migration, a cursor that repeats its page, a frame in hand
  at a shutdown.

  \<^bold>\<open>Bounds and parameters.\<close> The JSON scanner has the fuel \<open>2 * length + 2\<close>, which the round trip shows is enough. All other
  recursion is structural or terminates by a measure. Failing connections are a schedule
  (\<open>db_faults\<close>); an exhausted schedule means no further failure. Clocks, frames, credentials and the wake-ups of the
  watcher are inputs. Parameters of the model: \<open>sha256\<close> (no collision among stored texts), \<open>re.compile\<close> of a
  user's pattern, \<open>tomllib\<close> and \<open>tomli_w\<close> (what is written reads back), the coercions of pydantic (a value of the
  right type is itself), and what a SQL statement of a migration does. A database call is one transaction, and
  \<open>asyncio.Lock\<close> serves its waiters in order. Registry fields and ids are strings or null, as the annotations say.

  \<^bold>\<open>Not modelled.\<close> Floats stay text (\<open>repr\<close>), so the rounding of the database size is left out; characters end at
  code point 255; connections that fail while only reading, FastAPI's parsing of parameters and its \<open>/docs\<close> pages,
  the templates with their filter \<open>tstoiso\<close>, style sheets and scripts, uvicorn (its return is an input),
  logging, and package glue: presentation, libraries, or calls without a result that anything reads. The wait of 15 seconds at
  the end of a shutdown is the list of what the background tasks complete in it.
\<close>

end
